(* ===== verification/Prelude.thy ===== *)
theory Prelude imports Main "HOL-Library.Word" begin

text \<open>
  The development's shared vocabulary: the outcome of a Go call that may panic or end the
  process, bytes, the calls of the program that leave it (log lines, notifications, packets),
  and the generic lemmas and simp collections the component theories use.
\<close>

section \<open>Collections of facts\<close>

named_theorems go_simps \<open>equations that evaluate the model of the Go library\<close>
named_theorems fs_simps \<open>lookup-after-update laws of the file system\<close>

section \<open>Outcomes of a call\<close>

text \<open>
  A Go call returns, panics (\<^verbatim>\<open>runtime error\<close> or \<^verbatim>\<open>panic\<close>) or ends the process
  (\<^verbatim>\<open>log.Fatal\<close>). A state that the call has changed before it panicked stays changed, so
  operations return the new state beside the outcome. \<open>NoReturn\<close> stands for a call
  that does not come back: it waits for a lock nobody releases, or the fuel given to a recursion
  of the model was too little for it.
\<close>

datatype 'a outcome = Ret 'a | Panic string | Fatal string | NoReturn

fun returns :: "'a outcome \<Rightarrow> bool" where
  "returns (Ret _) = True"
| "returns _ = False"

type_synonym byte = "8 word"
type_synonym bytes = "byte list"

text \<open>The bytes of a Go string; the model's strings are lists of 8-bit characters.\<close>

definition bytes_of :: "string \<Rightarrow> bytes" where
  "bytes_of s = map (word_of_nat \<circ> of_char) s"

definition string_of :: "bytes \<Rightarrow> string" where
  "string_of bs = map (char_of \<circ> unat) bs"

lemma char_of_byte [simp]: "char_of (unat (word_of_nat (of_char c) :: byte)) = c"
  by (simp add: unat_of_nat)

lemma string_of_bytes_of [simp]: "string_of (bytes_of s) = s"
  by (simp add: string_of_def bytes_of_def comp_def)

lemma char_of_0: "char_of (0 :: nat) = CHR 0x00"
  using char_of_char [of "CHR 0x00"] by (simp del: char_of_char)

lemma byte_zero: "word_of_nat (of_char c) = (0 :: byte) \<longleftrightarrow> c = CHR 0x00"
proof
  assume "word_of_nat (of_char c) = (0 :: byte)"
  then have "char_of (unat (0 :: byte)) = c" using char_of_byte [of c] by simp
  then show "c = CHR 0x00" using char_of_0 by simp
qed simp

lemma length_bytes_of [simp]: "length (bytes_of s) = length s"
  by (simp add: bytes_of_def)

lemma bytes_of_append: "bytes_of (s @ t) = bytes_of s @ bytes_of t"
  by (simp add: bytes_of_def)

lemma bytes_of_inject [simp]: "bytes_of s = bytes_of t \<longleftrightarrow> s = t"
  by (metis string_of_bytes_of)

section \<open>What leaves the process\<close>

text \<open>
  Log lines (\<^verbatim>\<open>logger.Log\<close>, category, title and text) and notifications to the web clients
  (\<^verbatim>\<open>logger.NotifySubscribers\<close>, by topic), in the order the code makes them. The progress
  notification of a file transfer carries the bytes sent and the size of the file.
\<close>

datatype event = Logged string string string | Notified string | Progress int int

text \<open>What \<^verbatim>\<open>logger.Error\<close> and \<^verbatim>\<open>logger.Trace\<close> make visible.\<close>

definition error_events :: "string \<Rightarrow> string \<Rightarrow> event list" where
  "error_events title msg = [Logged ''error'' title msg, Notified ''logger.error'']"

definition trace_events :: "string \<Rightarrow> string \<Rightarrow> event list" where
  "trace_events title msg = [Logged ''trace'' title msg]"

section \<open>Key-value stores\<close>

text \<open>
  The interface shared by the file system, the type registry and the settings: a lookup and an
  update that changes exactly one key.
\<close>

locale kv_store =
  fixes get :: "'s \<Rightarrow> 'k \<Rightarrow> 'v option"
    and put :: "'k \<Rightarrow> 'v \<Rightarrow> 's \<Rightarrow> 's"
    and inv :: "'s \<Rightarrow> bool"
  assumes get_put: "inv s \<Longrightarrow> get (put k v s) = (get s)(k \<mapsto> v)"
    and inv_put: "inv s \<Longrightarrow> inv (put k v s)"
begin

lemma get_put_same: "inv s \<Longrightarrow> get (put k v s) k = Some v"
  by (simp add: get_put)

lemma get_put_other: "inv s \<Longrightarrow> k \<noteq> k' \<Longrightarrow> get (put k v s) k' = get s k'"
  by (simp add: get_put)

lemma put_twice: "inv s \<Longrightarrow> get (put k w (put k v s)) = get (put k w s)"
  by (simp add: get_put inv_put)

lemma put_commute: "inv s \<Longrightarrow> k \<noteq> k' \<Longrightarrow> get (put k v (put k' w s)) = get (put k' w (put k v s))"
  by (auto simp: get_put inv_put fun_eq_iff)

text \<open>A run of updates keeps the keys it does not name.\<close>

lemma get_puts_other:
  "inv s \<Longrightarrow> k \<notin> fst ` set kvs \<Longrightarrow> get (fold (\<lambda>(k, v). put k v) kvs s) k = get s k"
  by (induction kvs arbitrary: s) (auto simp: get_put inv_put)

end

end
