(* ===== verification/Types.thy ===== *)
theory Types imports Prelude begin

text \<open>
  The program's data (package \<^verbatim>\<open>types\<close>) as records. The embedded \<^verbatim>\<open>gorm.Model\<close> is kept as
  the primary key; its time stamps belong to the database library. Go's \<^verbatim>\<open>uint\<close> keys and
  counters are natural numbers, \<^verbatim>\<open>int\<close> fields integers.
\<close>

section \<open>types/diode.go\<close>

text \<open>
  The three channels are named by numbers, \<open>None\<close> is the nil channel; the three connections
  record whether dialling them succeeded.
\<close>

type_synonym chan = nat

record DiodeProxy =
  dpID :: nat
  dpName :: string
  dpDescription :: string
  EndpointIP :: string
  EndpointMAC :: string
  MetaPort :: int
  DataPort :: int
  FilePort :: int
  DataChan :: "chan option"
  MetaChan :: "chan option"
  FileChan :: "chan option"
  DataCon :: bool
  MetaCon :: bool
  FileCon :: bool

section \<open>types/filetransfer.go\<close>

record FileInfo =
  fiName :: string
  fiPath :: string
  fiSize :: int

section \<open>types/message.go\<close>

text \<open>A point's value is whatever the OPC client delivers: the type parameter.\<close>

record 'v DataPoint =
  ptID :: int
  ptTime :: int
  ptName :: string
  ptValue :: 'v
  ptQuality :: int

record 'v DataMessage =
  Version :: int
  msgGroup :: string
  msgInterval :: int
  Sequence :: "64 word"
  Count :: int
  Points :: "'v DataPoint list"

section \<open>types/opc.go\<close>

text \<open>
  The status is an \<^verbatim>\<open>int\<close> with three named values; a body or a row can hold any other. A counter wraps;
  keys are natural numbers, which stand for a \<^verbatim>\<open>uint\<close> below \<open>2 ^ 64\<close>.
\<close>

type_synonym GroupStatus = int

definition GroupStatusNotRunning :: GroupStatus where
  "GroupStatusNotRunning = 0"

definition GroupStatusRunning :: GroupStatus where
  "GroupStatusRunning = 1"

definition GroupStatusRunningWithWarning :: GroupStatus where
  "GroupStatusRunningWithWarning = 2"

lemma GroupStatus_distinct [simp]:
  "GroupStatusNotRunning \<noteq> GroupStatusRunning" "GroupStatusRunning \<noteq> GroupStatusNotRunning"
  "GroupStatusNotRunning \<noteq> GroupStatusRunningWithWarning" "GroupStatusRunningWithWarning \<noteq> GroupStatusNotRunning"
  "GroupStatusRunning \<noteq> GroupStatusRunningWithWarning" "GroupStatusRunningWithWarning \<noteq> GroupStatusRunning"
  by (simp_all add: GroupStatusNotRunning_def GroupStatusRunning_def GroupStatusRunningWithWarning_def)

record OPCGroup =
  gID :: nat
  gName :: string
  gDescription :: string
  Interval :: int
  Status :: GroupStatus
  LastRun :: int
  Counter :: "64 word"
  RunAtStart :: bool
  LastError :: string
  ProgID :: string
  DiodeProxyID :: nat
  DefaultGroup :: bool

record OPCTag =
  tID :: nat
  tName :: string
  tDescription :: string
  tGroupID :: nat

section \<open>types/log.go, types/user.go\<close>

record LogEntry =
  lID :: nat
  lTime :: int
  Source :: string
  Category :: string
  lTitle :: string
  lDescription :: string

record KeyValuePair =
  kvID :: nat
  Key :: string
  Value :: string
  Extra :: string

record Settings =
  sID :: nat
  Dark :: bool
  ImageURL :: string

record User =
  uID :: nat
  UserName :: string
  Password :: string
  FullName :: string
  uSettings :: Settings
  SettingsID :: nat

section \<open>types/process.go\<close>

record Context =
  Cmd :: string
  Wdir :: string
  Trace :: bool
  TraceOpc :: bool
  ShowVersion :: bool

end
