(* ===== verification/GoFmt.thy ===== *)
theory GoFmt imports Prelude begin

text \<open>
  The parts of Go's \<^verbatim>\<open>strconv\<close> and \<^verbatim>\<open>fmt\<close> the program uses: decimal printing,
  \<^verbatim>\<open>strconv.Atoi\<close>, \<^verbatim>\<open>fmt.Sprintf\<close> with the directives of the source's formats
  (\<^verbatim>\<open>%d\<close>, \<^verbatim>\<open>%02d\<close>, \<^verbatim>\<open>%s\<close>, \<^verbatim>\<open>%x\<close>) and \<^verbatim>\<open>fmt.Sscanf\<close> with \<^verbatim>\<open>%d\<close> and
  \<^verbatim>\<open>%02d\<close>. Go's \<open>int\<close> is 64 bits wide here (GOARCH=amd64). The lemmas show that scanning
  inverts printing.
\<close>

section \<open>Decimal digits\<close>

definition digit :: "nat \<Rightarrow> char" where
  "digit n = char_of (48 + n)"

definition is_digit :: "char \<Rightarrow> bool" where
  "is_digit c \<longleftrightarrow> 48 \<le> (of_char c :: nat) \<and> (of_char c :: nat) \<le> 57"

definition digit_val :: "char \<Rightarrow> nat" where
  "digit_val c = of_char c - 48"

fun dec_nat :: "nat \<Rightarrow> string" where
  "dec_nat n = (if n < 10 then [digit n] else dec_nat (n div 10) @ [digit (n mod 10)])"

declare dec_nat.simps [simp del]

definition dec_val :: "string \<Rightarrow> nat" where
  "dec_val s = foldl (\<lambda>a c. 10 * a + digit_val c) 0 s"

lemma of_char_digit: "n < 10 \<Longrightarrow> of_char (digit n) = 48 + n"
  by (simp add: digit_def)

lemma is_digit_digit [simp]: "n < 10 \<Longrightarrow> is_digit (digit n)"
  by (simp add: is_digit_def of_char_digit)

lemma digit_val_digit [simp]: "n < 10 \<Longrightarrow> digit_val (digit n) = n"
  by (simp add: digit_val_def of_char_digit)

lemma dec_val_Nil [simp]: "dec_val [] = 0"
  by (simp add: dec_val_def)

lemma dec_val_snoc [simp]: "dec_val (s @ [c]) = 10 * dec_val s + digit_val c"
  by (simp add: dec_val_def)

lemma dec_val_singleton [simp]: "dec_val [c] = digit_val c"
  by (simp add: dec_val_def)

lemma dec_val_pair [simp]: "dec_val [c, d] = 10 * digit_val c + digit_val d"
  by (simp add: dec_val_def)

lemma dec_val_dec_nat [simp]: "dec_val (dec_nat n) = n"
proof (induction n rule: dec_nat.induct)
  case (1 n)
  then show ?case by (cases "n < 10") (simp_all add: dec_nat.simps [of n])
qed

lemma dec_nat_digits: "c \<in> set (dec_nat n) \<Longrightarrow> is_digit c"
proof (induction n rule: dec_nat.induct)
  case (1 n)
  then show ?case by (cases "n < 10") (auto simp: dec_nat.simps [of n])
qed

lemma dec_nat_nonempty [simp]: "dec_nat n \<noteq> []"
  by (simp add: dec_nat.simps [of n])

lemma dec_nat_inject [simp]: "dec_nat m = dec_nat n \<longleftrightarrow> m = n"
  by (metis dec_val_dec_nat)

section \<open>strconv.ParseInt in base 10 and strconv.Atoi\<close>

text \<open>
  The digits are read from the left: the first character that is not a digit is a syntax error,
  the first prefix whose value does not fit 64 bits a range error, whichever comes first.
\<close>

datatype parsed = Parsed nat | SyntaxErr | RangeErr

fun parse_uint :: "nat \<Rightarrow> string \<Rightarrow> parsed" where
  "parse_uint acc [] = Parsed acc"
| "parse_uint acc (c # cs) =
     (if \<not> is_digit c then SyntaxErr
      else if 2 ^ 64 \<le> 10 * acc + digit_val c then RangeErr
      else parse_uint (10 * acc + digit_val c) cs)"

definition strip_sign :: "string \<Rightarrow> bool \<times> string" where
  "strip_sign s = (case s of [] \<Rightarrow> (False, [])
     | c # cs \<Rightarrow> if c = CHR ''-'' then (True, cs) else if c = CHR ''+'' then (False, cs) else (False, s))"

text \<open>
  \<^verbatim>\<open>strconv.Atoi\<close>: the value and whether an error was reported. A syntax error gives 0, a range
  error the nearest 64-bit value.
\<close>

definition clamp64 :: "bool \<Rightarrow> parsed \<Rightarrow> int \<times> bool" where
  "clamp64 neg p = (case p of
       SyntaxErr \<Rightarrow> (0, True)
     | RangeErr \<Rightarrow> (if neg then - (2 ^ 63) else 2 ^ 63 - 1, True)
     | Parsed n \<Rightarrow>
         if \<not> neg \<and> 2 ^ 63 \<le> n then (2 ^ 63 - 1, True)
         else if neg \<and> 2 ^ 63 < n then (- (2 ^ 63), True)
         else (if neg then - int n else int n, False))"

definition Atoi :: "string \<Rightarrow> int \<times> bool" where
  "Atoi s = (let (neg, ds) = strip_sign s in
     if ds = [] then (0, True) else clamp64 neg (parse_uint 0 ds))"

lemma Atoi_Nil [simp]: "Atoi [] = (0, True)"
  by (simp add: Atoi_def strip_sign_def)

lemma parse_uint_digits:
  assumes "\<forall>c \<in> set s. is_digit c"
    and "foldl (\<lambda>a c. 10 * a + digit_val c) acc s < 2 ^ 64"
  shows "parse_uint acc s = Parsed (foldl (\<lambda>a c. 10 * a + digit_val c) acc s)"
  using assms
proof (induction s arbitrary: acc)
  case Nil
  then show ?case by simp
next
  case (Cons c cs)
  have mono: "a \<le> foldl (\<lambda>a c. 10 * a + digit_val c) a xs" for a xs
  proof (induction xs arbitrary: a)
    case Nil
    then show ?case by simp
  next
    case (Cons x xs)
    have "a \<le> 10 * a + digit_val x" by simp
    also have "\<dots> \<le> foldl (\<lambda>a c. 10 * a + digit_val c) (10 * a + digit_val x) xs" by (rule Cons)
    finally show ?case by simp
  qed
  have "10 * acc + digit_val c < 2 ^ 64"
    using Cons.prems(2) mono [of "10 * acc + digit_val c" cs] by simp
  then show ?case using Cons by simp
qed

lemma parse_uint_dec_nat: "n < 2 ^ 64 \<Longrightarrow> parse_uint 0 (dec_nat n) = Parsed n"
  using parse_uint_digits [of "dec_nat n" 0]
  by (simp add: dec_nat_digits flip: dec_val_def)

lemma strip_sign_digits:
  "is_digit c \<Longrightarrow> strip_sign (c # s) = (False, c # s)"
  by (auto simp: strip_sign_def is_digit_def)

lemma strip_sign_dec_nat [simp]: "strip_sign (dec_nat n) = (False, dec_nat n)"
proof (cases "dec_nat n")
  case (Cons c s)
  then have "is_digit c" by (metis dec_nat_digits list.set_intros(1))
  with Cons show ?thesis by (simp add: strip_sign_digits)
qed simp

text \<open>\<^verbatim>\<open>Sprintf("%d")\<close> of an \<open>int\<close>.\<close>

definition fmt_d :: "int \<Rightarrow> string" where
  "fmt_d i = (if i < 0 then CHR ''-'' # dec_nat (nat (- i)) else dec_nat (nat i))"

lemma Atoi_fmt_d:
  assumes "- (2 ^ 63) \<le> i" and "i < 2 ^ 63"
  shows "Atoi (fmt_d i) = (i, False)"
proof (cases "i < 0")
  case True
  then have "nat (- i) \<le> 2 ^ 63" using assms by (simp add: nat_le_iff)
  with True show ?thesis
    by (simp add: Atoi_def fmt_d_def strip_sign_def parse_uint_dec_nat clamp64_def)
next
  case False
  then have "nat i < 2 ^ 63" using assms by (simp add: nat_less_iff)
  with False show ?thesis
    by (simp add: Atoi_def fmt_d_def parse_uint_dec_nat clamp64_def)
qed

section \<open>Formats\<close>

text \<open>
  A format is a list of literal characters and directives; a directive keeps its flag and width
  digits as written and its verb; \<open>NoVerb\<close> is a directive the format ends in.
\<close>

datatype fmt_item = Lit char | Verb string char | NoVerb

function parse_fmt :: "string \<Rightarrow> fmt_item list" where
  "parse_fmt [] = []"
| "parse_fmt (c # cs) =
     (if c \<noteq> CHR ''%'' then Lit c # parse_fmt cs
      else case dropWhile is_digit cs of
             [] \<Rightarrow> [NoVerb]
           | v # rest \<Rightarrow> Verb (takeWhile is_digit cs) v # parse_fmt rest)"
  by pat_completeness auto
termination
proof (relation "measure length", simp, simp)
  fix c cs v rest
  assume "dropWhile is_digit cs = v # rest"
  then have "length (v # rest) \<le> length cs" by (metis length_dropWhile_le)
  then show "(rest, c # cs) \<in> measure length" by simp
qed

datatype fmt_arg = AInt int | AStr string | ABytes bytes

definition hex_digit :: "nat \<Rightarrow> char" where
  "hex_digit n = (if n < 10 then digit n else char_of (87 + n))"

definition fmt_x :: "bytes \<Rightarrow> string" where
  "fmt_x bs = concat (map (\<lambda>b. [hex_digit (unat b div 16), hex_digit (unat b mod 16)]) bs)"

text \<open>\<^verbatim>\<open>%0wd\<close> pads the digits with zeroes after the sign, \<^verbatim>\<open>%wd\<close> with spaces before it.\<close>

definition fmt_pad :: "string \<Rightarrow> int \<Rightarrow> string" where
  "fmt_pad flags i =
     (let w = dec_val flags; d = fmt_d i; k = w - length d in
      if flags \<noteq> [] \<and> hd flags = CHR ''0''
      then (if i < 0 then CHR ''-'' # replicate k (CHR ''0'') @ tl d else replicate k (CHR ''0'') @ d)
      else replicate k (CHR '' '') @ d)"

definition arg_type :: "fmt_arg \<Rightarrow> string" where
  "arg_type a = (case a of AInt _ \<Rightarrow> ''int'' | AStr _ \<Rightarrow> ''string'' | ABytes _ \<Rightarrow> ''[]uint8'')"

definition bytes_v :: "bytes \<Rightarrow> string" where
  "bytes_v bs = ''['' @ (case bs of [] \<Rightarrow> '''' | b # bs' \<Rightarrow>
      dec_nat (unat b) @ concat (map (\<lambda>x. CHR '' '' # dec_nat (unat x)) bs')) @ '']''"

definition arg_value :: "fmt_arg \<Rightarrow> string" where
  "arg_value a = (case a of AInt i \<Rightarrow> fmt_d i | AStr s \<Rightarrow> s | ABytes bs \<Rightarrow> bytes_v bs)"

definition fmt_arg_verb :: "string \<Rightarrow> char \<Rightarrow> fmt_arg \<Rightarrow> string" where
  "fmt_arg_verb flags v a =
     (case a of
        AInt i \<Rightarrow> if v = CHR ''d'' then fmt_pad flags i
                  else ''%!'' @ [v] @ ''('' @ arg_type a @ ''='' @ arg_value a @ '')''
      | AStr s \<Rightarrow> if v = CHR ''s'' then s else if v = CHR ''x'' then fmt_x (bytes_of s)
                  else ''%!'' @ [v] @ ''('' @ arg_type a @ ''='' @ arg_value a @ '')''
      | ABytes bs \<Rightarrow> if v = CHR ''x'' then fmt_x bs else if v = CHR ''s'' then string_of bs
                  else bytes_v bs)"

definition fmt_extra :: "fmt_arg list \<Rightarrow> string" where
  "fmt_extra as = (case as of [] \<Rightarrow> '''' | a # as' \<Rightarrow>
      ''%!(EXTRA '' @ arg_type a @ ''='' @ arg_value a @
      concat (map (\<lambda>x. '', '' @ arg_type x @ ''='' @ arg_value x) as') @ '')'')"

fun sprintf_items :: "fmt_item list \<Rightarrow> fmt_arg list \<Rightarrow> string" where
  "sprintf_items [] as = fmt_extra as"
| "sprintf_items (Lit c # is) as = c # sprintf_items is as"
| "sprintf_items (NoVerb # is) as = ''%!(NOVERB)'' @ sprintf_items is as"
| "sprintf_items (Verb fl v # is) [] = ''%!'' @ [v] @ ''(MISSING)'' @ sprintf_items is []"
| "sprintf_items (Verb fl v # is) (a # as) = fmt_arg_verb fl v a @ sprintf_items is as"

definition Sprintf :: "string \<Rightarrow> fmt_arg list \<Rightarrow> string" where
  "Sprintf fmt as = sprintf_items (parse_fmt fmt) as"

section \<open>fmt.Sscanf\<close>

text \<open>White space is skipped before a number; a newline there is an error.\<close>

definition is_space :: "char \<Rightarrow> bool" where
  "is_space c \<longleftrightarrow> c = CHR '' '' \<or> (9 \<le> (of_char c :: nat) \<and> (of_char c :: nat) \<le> 13)"

fun skip_space :: "string \<Rightarrow> string option" where
  "skip_space [] = Some []"
| "skip_space (c # cs) =
     (if c = CHR 0x0A then None else if is_space c then skip_space cs else Some (c # cs))"

definition scan_int :: "nat option \<Rightarrow> string \<Rightarrow> (int \<times> string) option" where
  "scan_int w s = (case skip_space s of None \<Rightarrow> None | Some t \<Rightarrow>
     let lim = (case w of None \<Rightarrow> length t | Some k \<Rightarrow> k);
         (neg, body) = strip_sign (take lim t);
         ds = takeWhile is_digit body
     in if ds = [] then None
        else case clamp64 neg (parse_uint 0 ds) of
               (v, err) \<Rightarrow> if err then None
                           else Some (v, dropWhile is_digit body @ drop lim t))"

text \<open>
  The values stored before the scan stops, at the end of the format or at the first error; the
  variables of the later directives keep what they held.
\<close>

fun sscanf_items :: "fmt_item list \<Rightarrow> string \<Rightarrow> int list" where
  "sscanf_items [] s = []"
| "sscanf_items (NoVerb # is) s = []"
| "sscanf_items (Lit c # is) s = (case s of [] \<Rightarrow> [] | x # xs \<Rightarrow> if x = c then sscanf_items is xs else [])"
| "sscanf_items (Verb fl v # is) s =
     (case scan_int (if fl = [] then None else Some (dec_val fl)) s of
        None \<Rightarrow> []
      | Some (n, rest) \<Rightarrow> n # sscanf_items is rest)"

definition Sscanf :: "string \<Rightarrow> string \<Rightarrow> int list" where
  "Sscanf s fmt = sscanf_items (parse_fmt fmt) s"

text \<open>The \<open>k\<close>-th variable after the scan, all of them zero before it.\<close>

definition scanned :: "int list \<Rightarrow> nat \<Rightarrow> int" where
  "scanned vs k = (if k < length vs then vs ! k else 0)"

section \<open>Scanning inverts printing\<close>

lemma is_space_not_digit: "is_digit c \<Longrightarrow> \<not> is_space c"
  by (auto simp: is_digit_def is_space_def)

lemma skip_space_digit: "is_digit c \<Longrightarrow> skip_space (c # s) = Some (c # s)"
  by (auto simp: is_space_not_digit is_digit_def)

lemma skip_space_digits:
  "ds \<noteq> [] \<Longrightarrow> \<forall>c \<in> set ds. is_digit c \<Longrightarrow> skip_space (ds @ s) = Some (ds @ s)"
  by (cases ds) (simp_all add: skip_space_digit del: skip_space.simps)

lemma strip_sign_digits_append:
  "ds \<noteq> [] \<Longrightarrow> \<forall>c \<in> set ds. is_digit c \<Longrightarrow> strip_sign (ds @ s) = (False, ds @ s)"
  by (cases ds) (simp_all add: strip_sign_digits)

text \<open>A number without a width is read up to the first character that is not a digit.\<close>

lemma scan_int_digits:
  assumes "ds \<noteq> []" and "\<forall>c \<in> set ds. is_digit c" and "dec_val ds < 2 ^ 63"
    and "rest = [] \<or> \<not> is_digit (hd rest)"
  shows "scan_int None (ds @ rest) = Some (int (dec_val ds), rest)"
proof -
  have tw: "takeWhile is_digit (ds @ rest) = ds" "dropWhile is_digit (ds @ rest) = rest"
    using assms(2,4) by (cases rest; simp add: takeWhile_append2 dropWhile_append2)+
  have "parse_uint 0 ds = Parsed (dec_val ds)"
    using parse_uint_digits [of ds 0] assms(2,3) by (simp flip: dec_val_def)
  then show ?thesis
    using assms tw
    by (simp add: scan_int_def skip_space_digits strip_sign_digits_append clamp64_def)
qed

text \<open>A number with a width is read from the next \<open>k\<close> characters only.\<close>

lemma scan_int_width:
  assumes "ds \<noteq> []" and "\<forall>c \<in> set ds. is_digit c" and "dec_val ds < 2 ^ 63" and "length ds = k"
  shows "scan_int (Some k) (ds @ rest) = Some (int (dec_val ds), rest)"
proof -
  have tw: "takeWhile is_digit ds = ds" "dropWhile is_digit ds = []"
    using assms(2) by (simp_all add: takeWhile_eq_all_conv dropWhile_eq_Nil_conv)
  have pu: "parse_uint 0 ds = Parsed (dec_val ds)"
    using parse_uint_digits [of ds 0] assms(2,3) by (simp flip: dec_val_def)
  have ss: "strip_sign ds = (False, ds)"
    using strip_sign_digits_append [of ds "[]"] assms(1,2) by simp
  show ?thesis
    using assms by (simp add: scan_int_def skip_space_digits clamp64_def tw pu ss)
qed

text \<open>The two digits of \<^verbatim>\<open>%02d\<close>.\<close>

definition two_digits :: "int \<Rightarrow> string" where
  "two_digits i = [digit (nat i div 10), digit (nat i mod 10)]"

lemma digit_0: "digit 0 = CHR ''0''"
  using char_of_char [of "CHR ''0''"] by (simp add: digit_def del: char_of_char)

lemma digit_val_0_2 [simp]: "digit_val (CHR ''0'') = 0" "digit_val (CHR ''2'') = 2"
  by (simp_all add: digit_val_def)

lemma fmt_pad_02:
  assumes "0 \<le> i" and "i < 100"
  shows "fmt_pad ''02'' i = two_digits i"
proof (cases "i < 10")
  case True
  then show ?thesis
    using assms by (simp add: fmt_pad_def fmt_d_def two_digits_def dec_nat.simps digit_0 nat_less_iff)
next
  case False
  then have "\<not> nat i < 10" "nat i div 10 < 10" using assms by (simp_all add: nat_less_iff)
  then show ?thesis
    using assms by (simp add: fmt_pad_def fmt_d_def two_digits_def dec_nat.simps [of "nat i"]
        dec_nat.simps [of "nat i div 10"])
qed

lemma two_digits_val:
  assumes "0 \<le> i" and "i < 100"
  shows "\<forall>c \<in> set (two_digits i). is_digit c" and "dec_val (two_digits i) = nat i"
    and "length (two_digits i) = 2" and "two_digits i \<noteq> []"
proof -
  have "nat i < 100" using assms by (simp add: nat_less_iff)
  then have d: "nat i div 10 < 10" "nat i mod 10 < 10" by simp_all
  then show "\<forall>c \<in> set (two_digits i). is_digit c" by (simp add: two_digits_def)
  show "dec_val (two_digits i) = nat i" using d by (simp add: two_digits_def)
qed (simp_all add: two_digits_def)

lemma scan_int_two_digits:
  "0 \<le> i \<Longrightarrow> i < 100 \<Longrightarrow> scan_int (Some 2) (two_digits i @ rest) = Some (i, rest)"
  using scan_int_width [of "two_digits i" 2 rest] two_digits_val [of i]
  by (simp add: nat_less_iff)

lemma scan_int_fmt_d:
  assumes "0 \<le> i" and "i < 2 ^ 63" and "rest = [] \<or> \<not> is_digit (hd rest)"
  shows "scan_int None (fmt_d i @ rest) = Some (i, rest)"
  using scan_int_digits [of "dec_nat (nat i)" rest] assms
  by (simp add: fmt_d_def dec_nat_digits nat_less_iff)

lemma is_digit_separators [simp]:
  "\<not> is_digit (CHR ''_'')" "\<not> is_digit (CHR ''-'')" "\<not> is_digit (CHR ''.'')" "\<not> is_digit (CHR ''/'')"
  by (simp_all add: is_digit_def)

end
