(* ===== verification/GoPath.thy ===== *)
theory GoPath imports Prelude begin

text \<open>
  Go's \<^verbatim>\<open>path\<close> package (slash-separated, lexical) and the way Windows resolves the resulting
  strings: the program is built for Windows only, where both \<^verbatim>\<open>/\<close> and \<^verbatim>\<open>\\<close> separate
  components. \<open>resolve cwd p\<close> is the list of components the operating system is asked for.
  The lemmas show that \<^verbatim>\<open>path.Join\<close> of a cleaned base and proper file names resolves to the
  base's components followed by the names. Letter case is significant in the model.
\<close>

section \<open>Splitting and joining\<close>

fun split_on :: "(char \<Rightarrow> bool) \<Rightarrow> string \<Rightarrow> string list" where
  "split_on P [] = [[]]"
| "split_on P (c # cs) =
     (if P c then [] # split_on P cs
      else case split_on P cs of [] \<Rightarrow> [[c]] | w # ws \<Rightarrow> (c # w) # ws)"

definition is_slash :: "char \<Rightarrow> bool" where
  "is_slash c \<longleftrightarrow> c = CHR ''/''"

definition is_backslash :: "char \<Rightarrow> bool" where
  "is_backslash c \<longleftrightarrow> c = CHR 0x5C"

definition is_sep :: "char \<Rightarrow> bool" where
  "is_sep c \<longleftrightarrow> is_slash c \<or> is_backslash c"

fun join_slash :: "string list \<Rightarrow> string" where
  "join_slash [] = []"
| "join_slash [c] = c"
| "join_slash (c # d # cs) = c @ CHR ''/'' # join_slash (d # cs)"

lemma split_on_nonempty [simp]: "split_on P s \<noteq> []"
  by (induction s) (auto split: list.splits)

lemma split_on_append: "P c \<Longrightarrow> split_on P (a @ c # b) = split_on P a @ split_on P b"
  by (induction a) (auto split: list.splits)

lemma split_on_none: "\<forall>c \<in> set s. \<not> P c \<Longrightarrow> split_on P s = [s]"
  by (induction s) auto

lemma split_on_parts: "w \<in> set (split_on P s) \<Longrightarrow> c \<in> set w \<Longrightarrow> \<not> P c"
proof (induction s arbitrary: w)
  case (Cons a s)
  obtain v vs where v: "split_on P s = v # vs" by (cases "split_on P s") auto
  then show ?case using Cons.prems Cons.IH [of w] Cons.IH [of v] by (auto split: if_splits)
qed simp

lemma split_slash_none: "CHR ''/'' \<notin> set c \<Longrightarrow> split_on is_slash c = [c]"
  by (rule split_on_none) (auto simp: is_slash_def)

lemma split_join:
  "cs \<noteq> [] \<Longrightarrow> \<forall>c \<in> set cs. CHR ''/'' \<notin> set c \<Longrightarrow> split_on is_slash (join_slash cs) = cs"
proof (induction cs rule: join_slash.induct)
  case (2 c)
  then show ?case by (simp add: split_slash_none)
next
  case (3 c d cs)
  have "split_on is_slash (join_slash (c # d # cs))
      = split_on is_slash c @ split_on is_slash (join_slash (d # cs))"
    by (simp add: split_on_append is_slash_def)
  then show ?case using 3 by (simp add: split_slash_none)
qed simp

text \<open>Splitting at both separators is splitting at slashes, then each part at backslashes.\<close>

lemma split_sep:
  "split_on is_sep s = concat (map (split_on is_backslash) (split_on is_slash s))"
proof (induction s)
  case Nil
  then show ?case by simp
next
  case (Cons c s)
  show ?case
  proof (cases "is_slash c")
    case True
    then show ?thesis using Cons by (simp add: is_sep_def)
  next
    case False
    obtain w ws where w: "split_on is_slash s = w # ws" by (cases "split_on is_slash s") auto
    obtain v vs where v: "split_on is_backslash w = v # vs" by (cases "split_on is_backslash w") auto
    show ?thesis using Cons False w v by (simp add: is_sep_def)
  qed
qed

section \<open>path.Clean, path.Join, path.Dir\<close>

definition clean_step :: "bool \<Rightarrow> string list \<Rightarrow> string \<Rightarrow> string list" where
  "clean_step rooted stk c =
     (if c = '''' \<or> c = ''.'' then stk
      else if c = ''..'' then
        (if stk \<noteq> [] \<and> last stk \<noteq> ''..'' then butlast stk
         else if rooted then stk else stk @ [c])
      else stk @ [c])"

definition build_path :: "bool \<Rightarrow> string list \<Rightarrow> string" where
  "build_path rooted cs =
     (if rooted then CHR ''/'' # join_slash cs else if cs = [] then ''.'' else join_slash cs)"

definition is_rooted :: "string \<Rightarrow> bool" where
  "is_rooted p \<longleftrightarrow> p \<noteq> [] \<and> is_slash (hd p)"

definition path_Clean :: "string \<Rightarrow> string" where
  "path_Clean p = build_path (is_rooted p) (foldl (clean_step (is_rooted p)) [] (split_on is_slash p))"

fun path_Join :: "string list \<Rightarrow> string" where
  "path_Join [] = []"
| "path_Join (e # es) = (if e = [] then path_Join es else path_Clean (join_slash (e # es)))"

definition path_Dir :: "string \<Rightarrow> string" where
  "path_Dir p = (let ws = split_on is_slash p in
     path_Clean (if length ws = 1 then [] else join_slash (butlast ws) @ ''/''))"

text \<open>\<^verbatim>\<open>strings.ReplaceAll(s, "\\", "/")\<close>.\<close>

definition to_slashes :: "string \<Rightarrow> string" where
  "to_slashes s = map (\<lambda>c. if is_backslash c then CHR ''/'' else c) s"

section \<open>Resolution by the operating system\<close>

definition is_drive :: "string \<Rightarrow> bool" where
  "is_drive c \<longleftrightarrow> 2 \<le> length c \<and> \<not> is_sep (hd c) \<and> c ! 1 = CHR '':''"

definition os_step :: "string list \<Rightarrow> string \<Rightarrow> string list" where
  "os_step stk c =
     (if c = '''' \<or> c = ''.'' then stk
      else if c = ''..'' then (if stk \<noteq> [] \<and> is_drive (last stk) then stk else butlast stk)
      else stk @ [c])"

definition os_base :: "string list \<Rightarrow> string \<Rightarrow> string list" where
  "os_base cwd p =
     (if is_drive p then [] else if p \<noteq> [] \<and> is_sep (hd p) then take 1 cwd else cwd)"

definition resolve :: "string list \<Rightarrow> string \<Rightarrow> string list" where
  "resolve cwd p = foldl os_step (os_base cwd p) (split_on is_sep p)"

section \<open>Proper names\<close>

text \<open>A name a directory entry can have on Windows.\<close>

definition proper :: "string \<Rightarrow> bool" where
  "proper n \<longleftrightarrow> n \<noteq> '''' \<and> n \<noteq> ''.'' \<and> n \<noteq> ''..'' \<and>
     (\<forall>c \<in> set n. \<not> is_sep c \<and> c \<noteq> CHR '':'')"

lemma properD:
  assumes "proper n"
  shows "n \<noteq> []" and "n \<noteq> ''.''" and "n \<noteq> ''..''" and "CHR ''/'' \<notin> set n"
    and "\<forall>c \<in> set n. \<not> is_backslash c" and "\<not> is_drive n" and "\<not> is_sep (hd n)"
proof -
  show "n \<noteq> []" "n \<noteq> ''.''" "n \<noteq> ''..''" "CHR ''/'' \<notin> set n" "\<forall>c \<in> set n. \<not> is_backslash c"
    using assms by (auto simp: proper_def is_sep_def is_slash_def)
  then show "\<not> is_sep (hd n)" using assms by (simp add: proper_def)
  show "\<not> is_drive n"
  proof
    assume "is_drive n"
    then have "CHR '':'' \<in> set n" unfolding is_drive_def by (metis Suc_1 Suc_le_lessD nth_mem)
    with assms show False by (auto simp: proper_def)
  qed
qed

lemma clean_step_proper [simp]: "proper n \<Longrightarrow> clean_step r stk n = stk @ [n]"
  using properD [of n] by (simp add: clean_step_def)

lemma os_step_proper [simp]: "proper n \<Longrightarrow> os_step stk n = stk @ [n]"
  using properD [of n] by (simp add: os_step_def)

lemma foldl_clean_proper: "\<forall>n \<in> set ns. proper n \<Longrightarrow> foldl (clean_step r) stk ns = stk @ ns"
  by (induction ns arbitrary: stk) simp_all

lemma foldl_os_proper:
  "\<forall>n \<in> set ns. proper n \<Longrightarrow> foldl os_step stk (concat (map (split_on is_backslash) ns)) = stk @ ns"
proof (induction ns arbitrary: stk)
  case (Cons n ns)
  then have "split_on is_backslash n = [n]" using properD(5) [of n] by (simp add: split_on_none)
  with Cons show ?case by simp
qed simp

text \<open>Cleaned component lists: what \<open>clean_step\<close> builds, and leaves as it is.\<close>

definition clean_form :: "bool \<Rightarrow> string list \<Rightarrow> bool" where
  "clean_form rooted cs \<longleftrightarrow>
     (\<exists>k ns. cs = replicate k ''..'' @ ns \<and> (rooted \<longrightarrow> k = 0) \<and>
        (\<forall>n \<in> set ns. n \<noteq> '''' \<and> n \<noteq> ''.'' \<and> n \<noteq> ''..'') \<and> (\<forall>n \<in> set ns. CHR ''/'' \<notin> set n))"

lemma clean_formI:
  "(rooted \<longrightarrow> k = 0) \<Longrightarrow> \<forall>n \<in> set ns. n \<noteq> '''' \<and> n \<noteq> ''.'' \<and> n \<noteq> ''..'' \<and> CHR ''/'' \<notin> set n \<Longrightarrow>
   clean_form rooted (replicate k ''..'' @ ns)"
  by (auto simp: clean_form_def)

lemma clean_form_step:
  assumes "clean_form r stk" and "CHR ''/'' \<notin> set c"
  shows "clean_form r (clean_step r stk c)"
proof -
  obtain k ns where s: "stk = replicate k ''..'' @ ns" "r \<longrightarrow> k = 0"
    "\<forall>n \<in> set ns. n \<noteq> '''' \<and> n \<noteq> ''.'' \<and> n \<noteq> ''..'' \<and> CHR ''/'' \<notin> set n"
    using assms(1) by (auto simp: clean_form_def)
  consider (skip) "c = '''' \<or> c = ''.''" | (up) "c = ''..''" | (name) "c \<noteq> ''''" "c \<noteq> ''.''" "c \<noteq> ''..''"
    by blast
  then show ?thesis
  proof cases
    case skip
    then show ?thesis using assms by (auto simp: clean_step_def)
  next
    case name
    then have "clean_step r stk c = replicate k ''..'' @ (ns @ [c])" by (simp add: clean_step_def s)
    then show ?thesis using clean_formI [of r k "ns @ [c]"] s name assms(2) by auto
  next
    case up
    show ?thesis
    proof (cases ns rule: rev_cases)
      case Nil
      show ?thesis
      proof (cases "r")
        case True
        then show ?thesis using s up Nil clean_formI [of r 0 "[]"] by (simp add: clean_step_def)
      next
        case False
        have "last stk = ''..''" if "stk \<noteq> []" using s(1) Nil that by (cases k) simp_all
        then have "clean_step r stk c = stk @ [''..'']" using False up by (auto simp: clean_step_def)
        then have "clean_step r stk c = replicate (Suc k) ''..'' @ []"
          using s(1) Nil by (simp add: replicate_append_same)
        then show ?thesis using clean_formI [of r "Suc k" "[]"] False by (simp only:) simp
      qed
    next
      case (snoc ms m)
      then have "clean_step r stk c = replicate k ''..'' @ ms"
        using s up by (simp add: clean_step_def butlast_append)
      then show ?thesis using clean_formI [of r k ms] s snoc by auto
    qed
  qed
qed

lemma clean_form_foldl:
  "clean_form r stk \<Longrightarrow> \<forall>c \<in> set cs. CHR ''/'' \<notin> set c \<Longrightarrow> clean_form r (foldl (clean_step r) stk cs)"
  by (induction cs arbitrary: stk) (auto intro: clean_form_step)

lemma clean_form_refold:
  assumes "clean_form r cs"
  shows "foldl (clean_step r) [] cs = cs"
proof -
  obtain k ns where s: "cs = replicate k ''..'' @ ns" "r \<longrightarrow> k = 0"
    "\<forall>n \<in> set ns. n \<noteq> '''' \<and> n \<noteq> ''.'' \<and> n \<noteq> ''..''"
    using assms by (auto simp: clean_form_def)
  have ups: "foldl (clean_step r) (replicate j ''..'') (replicate i ''..'') = replicate (i + j) ''..''"
    if "\<not> r" for i j
  proof (induction i arbitrary: j)
    case (Suc i)
    have "clean_step r (replicate j ''..'') ''..'' = replicate (Suc j) ''..''"
      using that by (cases j) (auto simp: clean_step_def replicate_append_same)
    then show ?case using Suc [of "Suc j"] by simp
  qed simp
  have "foldl (clean_step r) [] (replicate k ''..'') = replicate k ''..''"
    using ups [of 0 k] s(2) by (cases r) simp_all
  moreover have "foldl (clean_step r) stk ns = stk @ ns" for stk
    using s(3) by (induction ns arbitrary: stk) (simp_all add: clean_step_def)
  ultimately show ?thesis by (simp add: s(1))
qed

section \<open>Joining and resolving\<close>

lemma split_build:
  assumes "clean_form r cs"
  shows "foldl (clean_step r) stk (split_on is_slash (build_path r cs)) = foldl (clean_step r) stk cs"
proof -
  have ns: "\<forall>c \<in> set cs. CHR ''/'' \<notin> set c"
    using assms by (auto simp: clean_form_def)
  have skip: "clean_step q stk [] = stk" "clean_step q stk ''.'' = stk" for q stk
    by (simp_all add: clean_step_def)
  have slash: "is_slash CHR ''/''" "\<not> is_slash CHR ''.''" by (simp_all add: is_slash_def)
  show ?thesis
    using ns by (cases "cs = []"; cases r) (simp_all add: build_path_def split_join skip slash)
qed

lemma hd_clean:
  assumes "clean_form r (c # cs)"
  shows "c \<noteq> []" and "\<not> is_slash (hd c)" and "CHR ''/'' \<notin> set c"
proof -
  obtain k ns where "c # cs = replicate k ''..'' @ ns"
    "\<forall>n \<in> set ns. n \<noteq> '''' \<and> CHR ''/'' \<notin> set n"
    using assms by (auto simp: clean_form_def)
  then have "c = ''..'' \<or> c \<noteq> [] \<and> CHR ''/'' \<notin> set c" by (cases k) auto
  then show c: "c \<noteq> []" and n: "CHR ''/'' \<notin> set c" by auto
  have "hd c \<in> set c" using c by simp
  then show "\<not> is_slash (hd c)" using n by (auto simp: is_slash_def)
qed

lemma join_slash_Cons: "cs \<noteq> [] \<Longrightarrow> join_slash (c # cs) = c @ CHR ''/'' # join_slash cs"
  by (cases cs) simp_all

lemma hd_join_slash: "c \<noteq> [] \<Longrightarrow> hd (join_slash (c # cs)) = hd c"
  by (cases cs) simp_all

lemma join_slash_nonempty: "c \<noteq> [] \<Longrightarrow> join_slash (c # cs) \<noteq> []"
  by (cases cs) simp_all

lemma build_nonempty: "clean_form r cs \<Longrightarrow> build_path r cs \<noteq> []"
  using hd_clean(1) join_slash_nonempty by (cases cs) (auto simp: build_path_def)

lemma rooted_build:
  assumes "clean_form r cs"
  shows "is_rooted (build_path r cs @ s) = r"
proof (cases r)
  case True
  then show ?thesis by (simp add: build_path_def is_rooted_def is_slash_def)
next
  case False
  show ?thesis
  proof (cases cs)
    case Nil
    then show ?thesis using False by (simp add: build_path_def is_rooted_def is_slash_def)
  next
    case (Cons c cs')
    then have "c \<noteq> []" "\<not> is_slash (hd c)" using assms hd_clean by blast+
    then show ?thesis
      using False Cons by (simp add: build_path_def is_rooted_def hd_append join_slash_nonempty hd_join_slash)
  qed
qed

lemma path_Join_build:
  assumes "clean_form r cs"
  shows "path_Join (build_path r cs # xs)
      = build_path r (foldl (clean_step r) cs (concat (map (split_on is_slash) xs)))"
proof -
  define b where "b = build_path r cs"
  have rooted: "is_rooted (join_slash (b # xs)) = r"
    using rooted_build [OF assms, of "[]"] rooted_build [OF assms, of "CHR ''/'' # join_slash xs"]
    by (cases xs) (simp_all add: b_def)
  have split: "split_on is_slash (join_slash (a # xs)) = concat (map (split_on is_slash) (a # xs))" for a
  proof (induction xs arbitrary: a)
    case (Cons x xs)
    then show ?case by (simp add: split_on_append is_slash_def)
  qed simp
  have "path_Join (b # xs) = path_Clean (join_slash (b # xs))"
    using build_nonempty [OF assms] by (simp add: b_def)
  also have "\<dots> = build_path r (foldl (clean_step r) (foldl (clean_step r) [] (split_on is_slash b))
      (concat (map (split_on is_slash) xs)))"
    by (simp add: path_Clean_def rooted split)
  also have "foldl (clean_step r) [] (split_on is_slash b) = cs"
    using split_build [OF assms] clean_form_refold [OF assms] by (simp add: b_def)
  finally show ?thesis by (simp add: b_def)
qed

text \<open>A relative path of proper names, \<^verbatim>\<open>.\<close> when there are none.\<close>

definition rel_path :: "string list \<Rightarrow> string" where
  "rel_path ds = build_path False ds"

lemma rel_path_Nil [simp]: "rel_path [] = ''.''"
  by (simp add: rel_path_def build_path_def)

lemma clean_form_proper: "\<forall>d \<in> set ds. proper d \<Longrightarrow> clean_form False ds"
  using clean_formI [of False 0 ds] properD by auto

lemma fold_rel_path:
  assumes "\<forall>d \<in> set ds. proper d"
  shows "foldl (clean_step r) cs (split_on is_slash (rel_path ds)) = cs @ ds"
proof -
  have "\<forall>c \<in> set ds. CHR ''/'' \<notin> set c" using assms properD by blast
  then have "foldl (clean_step r) cs (split_on is_slash (rel_path ds)) = foldl (clean_step r) cs ds"
    by (cases "ds = []") (simp_all add: rel_path_def build_path_def split_join split_slash_none clean_step_def)
  then show ?thesis using assms by (simp add: foldl_clean_proper)
qed

lemma split_proper: "proper n \<Longrightarrow> split_on is_slash n = [n]"
  using properD(4) by (rule split_slash_none)

lemma rel_path_Join:
  assumes "\<forall>d \<in> set ds. proper d" and "proper n"
  shows "path_Join [rel_path ds, n] = rel_path (ds @ [n])"
  using path_Join_build [OF clean_form_proper [OF assms(1)], of "[n]"] assms(2)
  by (simp add: rel_path_def split_proper)

text \<open>Resolving a cleaned path that ends in proper names.\<close>

lemma os_base_join: "c \<noteq> [] \<Longrightarrow> os_base cwd (join_slash (c # cs)) = os_base cwd c"
  by (cases cs; cases c; cases "tl c") (auto simp: os_base_def is_drive_def)

lemma os_base_proper: "proper n \<Longrightarrow> os_base cwd n = cwd"
  using properD by (simp add: os_base_def)

lemma os_step_skip [simp]: "os_step stk [] = stk" "os_step stk ''.'' = stk"
  by (simp_all add: os_step_def)

lemma foldl_os_join:
  "\<forall>c \<in> set xs. CHR ''/'' \<notin> set c \<Longrightarrow>
   foldl os_step stk (split_on is_sep (join_slash xs)) = foldl os_step stk (concat (map (split_on is_backslash) xs))"
  by (cases "xs = []") (simp_all add: split_sep split_join)

lemma resolve_dot [simp]: "resolve cwd ''.'' = cwd"
  by (simp add: resolve_def os_base_def is_drive_def is_sep_def is_slash_def is_backslash_def)

lemma resolve_build:
  assumes "clean_form r cs" and "\<forall>d \<in> set ds. proper d"
  shows "resolve cwd (build_path r (cs @ ds)) = resolve cwd (build_path r cs) @ ds"
proof -
  have ns: "\<forall>c \<in> set cs. CHR ''/'' \<notin> set c" "\<forall>c \<in> set ds. CHR ''/'' \<notin> set c"
    using assms properD(4) by (auto simp: clean_form_def)
  then have all: "\<forall>c \<in> set (cs @ ds). CHR ''/'' \<notin> set c" by auto
  have dsf: "foldl os_step stk (split_on is_sep (join_slash (cs @ ds)))
      = foldl os_step stk (split_on is_sep (join_slash cs)) @ ds" for stk
    using foldl_os_proper [OF assms(2)] by (simp add: foldl_os_join [OF all] foldl_os_join [OF ns(1)])
  show ?thesis
  proof (cases r)
    case True
    have "os_base cwd (CHR ''/'' # s) = take 1 cwd" for s
      by (simp add: os_base_def is_drive_def is_sep_def is_slash_def)
    moreover have "split_on is_sep (CHR ''/'' # s) = [] # split_on is_sep s" for s
      by (simp add: is_sep_def is_slash_def)
    ultimately show ?thesis
      using True dsf by (simp add: resolve_def build_path_def)
  next
    case False
    show ?thesis
    proof (cases cs)
      case Nil
      have "resolve cwd (join_slash (d # ds')) = cwd @ ds" if "ds = d # ds'" for d ds'
        using that assms(2) properD(1) [of d] foldl_os_proper [OF assms(2), of cwd] foldl_os_join [OF ns(2), of cwd]
        by (simp add: resolve_def os_base_join os_base_proper)
      then show ?thesis using Nil False by (cases ds) (auto simp: build_path_def)
    next
      case (Cons c cs')
      then have "c \<noteq> []" using assms(1) hd_clean(1) by blast
      then show ?thesis
        using Cons False dsf by (simp add: resolve_def build_path_def os_base_join)
    qed
  qed
qed

text \<open>Cleaned paths, and the directory the program makes from a cleaned base.\<close>

definition clean_path :: "string \<Rightarrow> bool" where
  "clean_path p \<longleftrightarrow> (\<exists>r cs. clean_form r cs \<and> p = build_path r cs)"

lemma clean_path_Clean [simp]: "clean_path (path_Clean p)"
  using clean_form_foldl [of "is_rooted p" "[]" "split_on is_slash p"] clean_formI [of "is_rooted p" 0 "[]"]
    split_on_parts [of _ is_slash p "CHR ''/''"]
  by (auto simp: path_Clean_def is_slash_def clean_path_def)

lemma clean_path_Join: "xs \<noteq> [] \<Longrightarrow> hd xs \<noteq> [] \<Longrightarrow> clean_path (path_Join xs)"
  by (cases xs) (simp_all del: join_slash.simps)

lemma clean_rel_path: "\<forall>d \<in> set ds. proper d \<Longrightarrow> clean_path (rel_path ds)"
  using clean_form_proper by (auto simp: clean_path_def rel_path_def)

theorem resolve_Join:
  assumes "clean_path b" and "proper x" and "\<forall>d \<in> set ds. proper d"
  shows "resolve cwd (path_Join [b, x, rel_path ds]) = resolve cwd b @ x # ds"
    and "clean_path (path_Join [b, x, rel_path ds])"
proof -
  obtain r cs where c: "clean_form r cs" "b = build_path r cs"
    using assms(1) by (auto simp: clean_path_def)
  have j: "path_Join [b, x, rel_path ds] = build_path r (cs @ x # ds)"
    using path_Join_build [OF c(1), of "[x, rel_path ds]"] c(2) assms(2,3)
    by (simp add: split_proper fold_rel_path)
  then show "resolve cwd (path_Join [b, x, rel_path ds]) = resolve cwd b @ x # ds"
    using resolve_build [OF c(1), of "x # ds"] c(2) assms(2,3) by simp
  have "\<forall>d \<in> set (x # ds). CHR ''/'' \<notin> set d" using assms(2,3) properD(4) by auto
  then have "clean_form r (foldl (clean_step r) cs (x # ds))" using clean_form_foldl c(1) by blast
  then have "clean_form r (cs @ x # ds)" using assms(2,3) by (simp add: foldl_clean_proper)
  then show "clean_path (path_Join [b, x, rel_path ds])" using j by (auto simp: clean_path_def)
qed

theorem resolve_Join_name:
  assumes "clean_path b" and "proper n"
  shows "resolve cwd (path_Join [b, n]) = resolve cwd b @ [n]" and "clean_path (path_Join [b, n])"
proof -
  obtain r cs where c: "clean_form r cs" "b = build_path r cs"
    using assms(1) by (auto simp: clean_path_def)
  have "path_Join [b, n] = build_path r (cs @ [n])"
    using path_Join_build [OF c(1), of "[n]"] c(2) assms(2) by (simp add: split_proper)
  then show "resolve cwd (path_Join [b, n]) = resolve cwd b @ [n]"
    using resolve_build [OF c(1), of "[n]"] c(2) assms(2) by simp
  have "build_path r cs \<noteq> []" using build_nonempty c(1) .
  then show "clean_path (path_Join [b, n])" using c(2) by (intro clean_path_Join) simp_all
qed

theorem resolve_Join_file:
  assumes "clean_path b" and "proper x" and "\<forall>d \<in> set ds. proper d" and "proper n"
  shows "resolve cwd (path_Join [b, x, rel_path ds, n]) = resolve cwd b @ x # ds @ [n]"
proof -
  obtain r cs where c: "clean_form r cs" "b = build_path r cs"
    using assms(1) by (auto simp: clean_path_def)
  have "path_Join [b, x, rel_path ds, n] = build_path r (cs @ x # ds @ [n])"
    using path_Join_build [OF c(1), of "[x, rel_path ds, n]"] c(2) assms(2-4)
    by (simp add: split_proper fold_rel_path)
  then show ?thesis using resolve_build [OF c(1), of "x # ds @ [n]"] c(2) assms(2-4) by simp
qed

declare path_Join.simps [simp del]

end
