(* ===== verification/FileSys.thy ===== *)
theory FileSys imports GoPath "HOL-Library.Char_ord" "HOL-Library.List_Lexorder" "HOL-Library.Sublist" begin

text \<open>
  The file system the program works on, as Go's \<^verbatim>\<open>os\<close>, \<^verbatim>\<open>io/ioutil\<close> and
  \<^verbatim>\<open>path/filepath\<close> show it: files with their bytes and directories, by component path. Every
  operation fails where the operating system's own rules make it fail; a refusal for another
  reason (access rights, a sharing violation) is an explicit flag of the component that makes
  the call. The laws at the end (lookup after update, listing in order) are what the components
  rely on. The drive or working-directory root \<open>[]\<close> is always a directory.
\<close>

section \<open>State and lookup\<close>

datatype node = File bytes | Dir

type_synonym path = "string list"
type_synonym fsys = "(path \<times> node) list"

definition fs_get :: "fsys \<Rightarrow> path \<Rightarrow> node option" where
  "fs_get fs p = map_of fs p"

definition fs_del :: "path \<Rightarrow> fsys \<Rightarrow> fsys" where
  "fs_del p fs = filter (\<lambda>e. fst e \<noteq> p) fs"

definition fs_put :: "path \<Rightarrow> node \<Rightarrow> fsys \<Rightarrow> fsys" where
  "fs_put p n fs = (p, n) # fs_del p fs"

definition is_dir :: "fsys \<Rightarrow> path \<Rightarrow> bool" where
  "is_dir fs p \<longleftrightarrow> p = [] \<or> fs_get fs p = Some Dir"

section \<open>Operations\<close>

text \<open>\<^verbatim>\<open>ioutil.ReadDir\<close>: the entries of a directory sorted by name, empty on an error.\<close>

definition children :: "fsys \<Rightarrow> path \<Rightarrow> string list" where
  "children fs d = sort (map last (filter (\<lambda>p. p \<noteq> [] \<and> butlast p = d) (remdups (map fst fs))))"

definition ReadDir :: "fsys \<Rightarrow> path \<Rightarrow> (string \<times> node) list" where
  "ReadDir fs d = (if is_dir fs d
     then map (\<lambda>n. (n, case fs_get fs (d @ [n]) of Some x \<Rightarrow> x | None \<Rightarrow> Dir)) (children fs d) else [])"

text \<open>
  \<^verbatim>\<open>filepath.Walk\<close>: the root and everything below it, a directory before its entries, the
  entries of a directory in the order of their names.
\<close>

definition Walk :: "fsys \<Rightarrow> path \<Rightarrow> path list" where
  "Walk fs root = sort (filter (prefix root) (remdups (map fst fs)))"

text \<open>\<^verbatim>\<open>os.MkdirAll\<close>: makes the missing directories from the top; stops at a file.\<close>

fun mkdirs :: "path \<Rightarrow> path \<Rightarrow> fsys \<Rightarrow> fsys \<times> bool" where
  "mkdirs pre [] fs = (fs, True)"
| "mkdirs pre (c # cs) fs =
     (case fs_get fs (pre @ [c]) of
        None \<Rightarrow> mkdirs (pre @ [c]) cs (fs_put (pre @ [c]) Dir fs)
      | Some Dir \<Rightarrow> mkdirs (pre @ [c]) cs fs
      | Some (File _) \<Rightarrow> (fs, False))"

definition MkdirAll :: "path \<Rightarrow> fsys \<Rightarrow> fsys" where
  "MkdirAll p fs = fst (mkdirs [] p fs)"

text \<open>
  \<^verbatim>\<open>os.Rename\<close> of a file replaces a file of the target's name. The program renames files only.
\<close>

definition Rename :: "path \<Rightarrow> path \<Rightarrow> fsys \<Rightarrow> fsys option" where
  "Rename a b fs = (case fs_get fs a of
       Some (File c) \<Rightarrow>
         if b \<noteq> [] \<and> is_dir fs (butlast b) \<and> fs_get fs b \<noteq> Some Dir
         then Some (fs_put b (File c) (fs_del a fs)) else None
     | _ \<Rightarrow> None)"

text \<open>\<^verbatim>\<open>os.Remove\<close>: a file, or a directory with no entries.\<close>

definition Remove :: "path \<Rightarrow> fsys \<Rightarrow> fsys option" where
  "Remove p fs = (case fs_get fs p of
       None \<Rightarrow> None
     | Some (File _) \<Rightarrow> Some (fs_del p fs)
     | Some Dir \<Rightarrow> if children fs p = [] then Some (fs_del p fs) else None)"

definition ReadFile :: "path \<Rightarrow> fsys \<Rightarrow> bytes option" where
  "ReadFile p fs = (case fs_get fs p of Some (File c) \<Rightarrow> Some c | _ \<Rightarrow> None)"

text \<open>\<^verbatim>\<open>os.Create\<close> and a write of the whole content, and \<^verbatim>\<open>ioutil.WriteFile\<close>.\<close>

definition WriteFile :: "path \<Rightarrow> bytes \<Rightarrow> fsys \<Rightarrow> fsys option" where
  "WriteFile p c fs =
     (if p \<noteq> [] \<and> is_dir fs (butlast p) \<and> fs_get fs p \<noteq> Some Dir
      then Some (fs_put p (File c) fs) else None)"

text \<open>Opening with \<^verbatim>\<open>O_APPEND|O_CREATE\<close>: an existing file is kept, a missing one made.\<close>

definition OpenAppend :: "path \<Rightarrow> fsys \<Rightarrow> fsys option" where
  "OpenAppend p fs = (case fs_get fs p of
       Some (File _) \<Rightarrow> Some fs
     | Some Dir \<Rightarrow> None
     | None \<Rightarrow> if p \<noteq> [] \<and> is_dir fs (butlast p) then Some (fs_put p (File []) fs) else None)"

definition Append :: "path \<Rightarrow> bytes \<Rightarrow> fsys \<Rightarrow> fsys" where
  "Append p c fs = (case fs_get fs p of Some (File c0) \<Rightarrow> fs_put p (File (c0 @ c)) fs | _ \<Rightarrow> fs)"

section \<open>Laws\<close>

lemma fs_get_del: "fs_get (fs_del p fs) = (fs_get fs)(p := None)"
  by (induction fs) (auto simp: fs_get_def fs_del_def fun_eq_iff)

lemma fs_get_put: "fs_get (fs_put p n fs) = (fs_get fs)(p \<mapsto> n)"
  using fs_get_del by (auto simp: fs_put_def fs_get_def fun_eq_iff)

interpretation files: kv_store fs_get fs_put "\<lambda>_. True"
  by unfold_locales (simp_all add: fs_get_put)

lemmas fs_get_simps [simp, fs_simps] = fs_get_put fs_get_del

lemma fs_get_Nil [simp]: "fs_get [] p = None"
  by (simp add: fs_get_def)

lemma fs_keys: "p \<in> set (map fst fs) \<longleftrightarrow> fs_get fs p \<noteq> None"
  by (simp add: fs_get_def map_of_eq_None_iff)

lemma set_children: "n \<in> set (children fs d) \<longleftrightarrow> fs_get fs (d @ [n]) \<noteq> None"
proof -
  have "n \<in> set (children fs d) \<longleftrightarrow> (\<exists>p. fs_get fs p \<noteq> None \<and> p \<noteq> [] \<and> butlast p = d \<and> last p = n)"
    unfolding children_def set_sort set_map set_filter set_remdups fs_keys [symmetric] by blast
  also have "\<dots> \<longleftrightarrow> fs_get fs (d @ [n]) \<noteq> None"
    by (metis append_butlast_last_id butlast_snoc last_snoc snoc_eq_iff_butlast)
  finally show ?thesis .
qed

lemma sorted_children: "sorted (children fs d)"
  by (simp add: children_def)

lemma distinct_children: "distinct (children fs d)"
proof -
  have "inj_on last {p. p \<noteq> [] \<and> butlast p = d}"
    by (auto simp: inj_on_def) (metis append_butlast_last_id)
  then have "inj_on last (set (filter (\<lambda>p. p \<noteq> [] \<and> butlast p = d) (remdups (map fst fs))))"
    by (rule inj_on_subset) auto
  then show ?thesis by (simp add: children_def distinct_map)
qed

text \<open>A directory lists the same names if the same names are there.\<close>

lemma children_cong:
  assumes "\<And>n. fs_get fs (d @ [n]) = None \<longleftrightarrow> fs_get fs' (d @ [n]) = None"
  shows "children fs d = children fs' d"
  using assms by (intro sorted_distinct_set_unique sorted_children distinct_children)
    (auto simp: set_children)

lemma set_Walk: "p \<in> set (Walk fs root) \<longleftrightarrow> fs_get fs p \<noteq> None \<and> prefix root p"
  using fs_keys [of p fs] by (auto simp: Walk_def)

lemma sorted_Walk: "sorted (Walk fs root)" and distinct_Walk: "distinct (Walk fs root)"
  by (simp_all add: Walk_def)

lemma Walk_cong:
  assumes "\<And>p. prefix root p \<Longrightarrow> fs_get fs p = None \<longleftrightarrow> fs_get fs' p = None"
  shows "Walk fs root = Walk fs' root"
proof -
  have "p \<in> set (Walk fs root) \<longleftrightarrow> p \<in> set (Walk fs' root)" for p
    using assms [of p] unfolding set_Walk by (cases "prefix root p") simp_all
  then have "set (Walk fs root) = set (Walk fs' root)" by blast
  then show ?thesis by (intro sorted_distinct_set_unique sorted_Walk distinct_Walk)
qed

text \<open>\<^verbatim>\<open>MkdirAll\<close> adds directories on the way to its path and nothing else.\<close>

definition clear_way :: "fsys \<Rightarrow> path \<Rightarrow> bool" where
  "clear_way fs p \<longleftrightarrow> (\<forall>q. prefix q p \<longrightarrow> q \<noteq> [] \<longrightarrow> fs_get fs q \<noteq> None \<longrightarrow> fs_get fs q = Some Dir)"

lemma mkdirs_get:
  "fs_get (fst (mkdirs pre p fs)) q = fs_get fs q \<or>
   fs_get fs q = None \<and> fs_get (fst (mkdirs pre p fs)) q = Some Dir \<and> (\<exists>r. q = pre @ r \<and> r \<noteq> [] \<and> prefix r p)"
proof (induction pre p fs rule: mkdirs.induct)
  case (1 pre fs)
  then show ?case by simp
next
  case (2 pre c cs fs)
  have ext: "\<exists>r'. q = pre @ r' \<and> r' \<noteq> [] \<and> prefix r' (c # cs)"
    if "q = (pre @ [c]) @ r" "prefix r cs" for r
    using that by (intro exI [of _ "c # r"]) simp
  have self: "\<exists>r'. pre @ [c] = pre @ r' \<and> r' \<noteq> [] \<and> prefix r' (c # cs)" by simp
  consider (missing) "fs_get fs (pre @ [c]) = None" | (isdir) "fs_get fs (pre @ [c]) = Some Dir"
    | (isfile) x where "fs_get fs (pre @ [c]) = Some (File x)"
    by (metis node.exhaust not_None_eq)
  then show ?case
  proof cases
    case missing
    then show ?thesis using 2(1) [OF missing] ext self by (auto split: if_splits)
  next
    case isdir
    then show ?thesis using 2(2) [OF isdir] ext by auto
  next
    case isfile
    then show ?thesis by simp
  qed
qed

lemma mkdirs_keeps: "fs_get fs q = Some n \<Longrightarrow> fs_get (fst (mkdirs pre p fs)) q = Some n"
  using mkdirs_get [of pre p fs q] by (elim disjE conjE) simp_all

lemma mkdirs_makes:
  assumes "\<And>r. prefix r p \<Longrightarrow> r \<noteq> [] \<Longrightarrow> fs_get fs (pre @ r) \<in> {None, Some Dir}"
    and "prefix r p" and "r \<noteq> []"
  shows "fs_get (fst (mkdirs pre p fs)) (pre @ r) = Some Dir"
  using assms
proof (induction p arbitrary: pre fs r)
  case Nil
  then show ?case by simp
next
  case (Cons c cs)
  obtain r' where r: "r = c # r'" "prefix r' cs" using Cons.prems(2,3) by (cases r) auto
  define fs1 where "fs1 = (if fs_get fs (pre @ [c]) = None then fs_put (pre @ [c]) Dir fs else fs)"
  have c: "fs_get fs (pre @ [c]) = None \<or> fs_get fs (pre @ [c]) = Some Dir"
    using Cons.prems(1) [of "[c]"] by simp
  then have step: "mkdirs pre (c # cs) fs = mkdirs (pre @ [c]) cs fs1" by (auto simp: fs1_def)
  have here: "fs_get fs1 (pre @ [c]) = Some Dir" using c by (auto simp: fs1_def)
  have below: "fs_get fs1 ((pre @ [c]) @ s) \<in> {None, Some Dir}" if "prefix s cs" "s \<noteq> []" for s
    using Cons.prems(1) [of "c # s"] that by (simp add: fs1_def)
  show ?case
  proof (cases "r' = []")
    case True
    then show ?thesis using mkdirs_keeps [OF here] step r(1) by simp
  next
    case False
    then show ?thesis using Cons.IH [OF below r(2) False] step r(1) by simp
  qed
qed

lemma MkdirAll_get:
  "fs_get (MkdirAll p fs) q = fs_get fs q \<or>
   fs_get fs q = None \<and> fs_get (MkdirAll p fs) q = Some Dir \<and> q \<noteq> [] \<and> prefix q p"
  using mkdirs_get [of "[]" p fs q] by (auto simp: MkdirAll_def)

lemma MkdirAll_makes: "clear_way fs p \<Longrightarrow> is_dir (MkdirAll p fs) p"
  using mkdirs_makes [of p fs "[]" p] unfolding MkdirAll_def clear_way_def is_dir_def
  by (metis append_Nil insert_iff prefix_order.order_refl)

lemma MkdirAll_outside: "\<not> prefix q p \<Longrightarrow> fs_get (MkdirAll p fs) q = fs_get fs q"
  using MkdirAll_get by blast

lemma MkdirAll_keeps: "fs_get fs q = Some n \<Longrightarrow> fs_get (MkdirAll p fs) q = Some n"
  using MkdirAll_get [of p fs q] by auto

lemma is_dir_MkdirAll: "is_dir fs q \<Longrightarrow> is_dir (MkdirAll p fs) q"
  by (auto simp: is_dir_def MkdirAll_keeps)

section \<open>Trees\<close>

text \<open>A file system is a tree when what it holds is in directories it holds.\<close>

definition wf_fs :: "fsys \<Rightarrow> bool" where
  "wf_fs fs \<longleftrightarrow> (\<forall>p n. fs_get fs (p @ [n]) \<noteq> None \<longrightarrow> is_dir fs p)"

lemma wf_fsI: "(\<And>p n. fs_get fs (p @ [n]) \<noteq> None \<Longrightarrow> is_dir fs p) \<Longrightarrow> wf_fs fs"
  by (simp add: wf_fs_def)

lemma wf_fsD: "wf_fs fs \<Longrightarrow> fs_get fs (p @ [n]) \<noteq> None \<Longrightarrow> is_dir fs p"
  unfolding wf_fs_def by blast

lemma wf_put:
  assumes "wf_fs fs" and "is_dir fs (butlast p)" and "fs_get fs p \<noteq> Some Dir \<or> x = Dir"
  shows "wf_fs (fs_put p x fs)"
proof (rule wf_fsI)
  fix q n
  assume "fs_get (fs_put p x fs) (q @ [n]) \<noteq> None"
  then have "is_dir fs q" using assms(1,2) wf_fsD by (auto split: if_splits)
  then show "is_dir (fs_put p x fs) q" using assms(3) by (auto simp: is_dir_def)
qed

lemma wf_del:
  assumes "wf_fs fs" and "fs_get fs p \<noteq> Some Dir"
  shows "wf_fs (fs_del p fs)"
  using assms unfolding wf_fs_def is_dir_def by (auto split: if_splits)

lemma wf_mkdirs: "wf_fs fs \<Longrightarrow> is_dir fs pre \<Longrightarrow> wf_fs (fst (mkdirs pre p fs))"
proof (induction pre p fs rule: mkdirs.induct)
  case (2 pre c cs fs)
  have "wf_fs (fs_put (pre @ [c]) Dir fs)" using 2(3,4) by (intro wf_put) simp_all
  then show ?case using 2 by (auto simp: is_dir_def split: option.splits node.splits)
qed simp

lemma wf_MkdirAll: "wf_fs fs \<Longrightarrow> wf_fs (MkdirAll p fs)"
  using wf_mkdirs [of fs "[]" p] by (simp add: MkdirAll_def is_dir_def)

lemma wf_Rename:
  assumes "wf_fs fs" and "Rename a b fs = Some fs'"
  shows "wf_fs fs'"
proof -
  obtain c where r: "fs_get fs a = Some (File c)" "b \<noteq> []" "is_dir fs (butlast b)" "fs_get fs b \<noteq> Some Dir"
      "fs' = fs_put b (File c) (fs_del a fs)"
    using assms(2) by (auto simp: Rename_def split: option.splits node.splits if_splits)
  have "wf_fs (fs_del a fs)" using wf_del [OF assms(1)] r(1) by simp
  moreover have "is_dir (fs_del a fs) (butlast b)" using r(1,3) by (auto simp: is_dir_def)
  ultimately show ?thesis unfolding r(5) using r(4) by (intro wf_put) simp_all
qed

lemma wf_prefix:
  assumes "wf_fs fs" and "is_dir fs (p @ s)"
  shows "is_dir fs p"
  using assms(2)
proof (induction s rule: rev_induct)
  case (snoc n s)
  then have "fs_get fs ((p @ s) @ [n]) \<noteq> None" by (simp add: is_dir_def)
  then show ?case using assms(1) snoc.IH unfolding wf_fs_def by blast
qed simp

end
