(* ===== verification/Sha256.thy ===== *)
theory Sha256 imports Prelude begin

unbundle bit_operations_syntax

text \<open>
  Go's \<^verbatim>\<open>crypto/sha256\<close> as the program uses it: \<^verbatim>\<open>sha256.New\<close>, the whole file copied in,
  \<^verbatim>\<open>Sum(nil)\<close>. The compression function works on 32-bit words, as FIPS 180-4 states it. The
  last lemmas give the length of the sum and the standard's first test vector.
\<close>

type_synonym u32 = "32 word"

definition K256 :: "u32 list" where
  "K256 = [
    0x428A2F98, 0x71374491, 0xB5C0FBCF, 0xE9B5DBA5, 0x3956C25B, 0x59F111F1, 0x923F82A4, 0xAB1C5ED5,
    0xD807AA98, 0x12835B01, 0x243185BE, 0x550C7DC3, 0x72BE5D74, 0x80DEB1FE, 0x9BDC06A7, 0xC19BF174,
    0xE49B69C1, 0xEFBE4786, 0x0FC19DC6, 0x240CA1CC, 0x2DE92C6F, 0x4A7484AA, 0x5CB0A9DC, 0x76F988DA,
    0x983E5152, 0xA831C66D, 0xB00327C8, 0xBF597FC7, 0xC6E00BF3, 0xD5A79147, 0x06CA6351, 0x14292967,
    0x27B70A85, 0x2E1B2138, 0x4D2C6DFC, 0x53380D13, 0x650A7354, 0x766A0ABB, 0x81C2C92E, 0x92722C85,
    0xA2BFE8A1, 0xA81A664B, 0xC24B8B70, 0xC76C51A3, 0xD192E819, 0xD6990624, 0xF40E3585, 0x106AA070,
    0x19A4C116, 0x1E376C08, 0x2748774C, 0x34B0BCB5, 0x391C0CB3, 0x4ED8AA4A, 0x5B9CCA4F, 0x682E6FF3,
    0x748F82EE, 0x78A5636F, 0x84C87814, 0x8CC70208, 0x90BEFFFA, 0xA4506CEB, 0xBEF9A3F7, 0xC67178F2]"

definition H256 :: "u32 list" where
  "H256 = [
    0x6A09E667, 0xBB67AE85, 0x3C6EF372, 0xA54FF53A, 0x510E527F, 0x9B05688C, 0x1F83D9AB, 0x5BE0CD19]"

definition big_sigma0 :: "u32 \<Rightarrow> u32" where
  "big_sigma0 x = word_rotr 2 x XOR word_rotr 13 x XOR word_rotr 22 x"

definition big_sigma1 :: "u32 \<Rightarrow> u32" where
  "big_sigma1 x = word_rotr 6 x XOR word_rotr 11 x XOR word_rotr 25 x"

definition small_sigma0 :: "u32 \<Rightarrow> u32" where
  "small_sigma0 x = word_rotr 7 x XOR word_rotr 18 x XOR drop_bit 3 x"

definition small_sigma1 :: "u32 \<Rightarrow> u32" where
  "small_sigma1 x = word_rotr 17 x XOR word_rotr 19 x XOR drop_bit 10 x"

definition choice :: "u32 \<Rightarrow> u32 \<Rightarrow> u32 \<Rightarrow> u32" where
  "choice x y z = (x AND y) XOR (NOT x AND z)"

definition majority :: "u32 \<Rightarrow> u32 \<Rightarrow> u32 \<Rightarrow> u32" where
  "majority x y z = (x AND y) XOR (x AND z) XOR (y AND z)"

text \<open>Big-endian words of a block, and bytes of a word.\<close>

definition word_be :: "bytes \<Rightarrow> u32" where
  "word_be bs = foldl (\<lambda>a b. push_bit 8 a OR ucast b) 0 bs"

definition bytes_be :: "u32 \<Rightarrow> bytes" where
  "bytes_be w = [ucast (drop_bit 24 w), ucast (drop_bit 16 w), ucast (drop_bit 8 w), ucast w]"

fun chunks :: "nat \<Rightarrow> nat \<Rightarrow> 'a list \<Rightarrow> 'a list list" where
  "chunks 0 k xs = []"
| "chunks (Suc n) k xs = take k xs # chunks n k (drop k xs)"

text \<open>The message schedule, kept in reverse: the newest word first.\<close>

fun schedule :: "nat \<Rightarrow> u32 list \<Rightarrow> u32 list" where
  "schedule 0 ws = ws"
| "schedule (Suc n) ws =
     schedule n ((small_sigma1 (ws ! 1) + ws ! 6 + small_sigma0 (ws ! 14) + ws ! 15) # ws)"

fun sha_round :: "u32 list \<Rightarrow> u32 \<times> u32 \<Rightarrow> u32 list" where
  "sha_round [a, b, c, d, e, f, g, h] (k, w) =
     (let t1 = h + big_sigma1 e + choice e f g + k + w;
          t2 = big_sigma0 a + majority a b c
      in [t1 + t2, a, b, c, d + t1, e, f, g])"
| "sha_round s _ = s"

definition compress :: "u32 list \<Rightarrow> bytes \<Rightarrow> u32 list" where
  "compress hs block =
     (let ws = rev (schedule 48 (rev (map word_be (chunks 16 4 block))))
      in map2 (+) hs (foldl sha_round hs (zip K256 ws)))"

definition pad256 :: "bytes \<Rightarrow> bytes" where
  "pad256 m =
     (let l = length m; z = (119 - l mod 64) mod 64
      in m @ [0x80] @ replicate z 0 @
         map (\<lambda>i. ucast (drop_bit (8 * (7 - i)) (8 * word_of_nat l :: 64 word))) [0..<8])"

definition sha256 :: "bytes \<Rightarrow> bytes" where
  "sha256 m = (let p = pad256 m in
     concat (map bytes_be (foldl compress H256 (chunks (length p div 64) 64 p))))"

section \<open>Length and a test vector\<close>

lemma length_sha_round [simp]: "length (sha_round s kw) = length s"
  by (induction s kw rule: sha_round.induct) (simp_all add: Let_def)

lemma length_rounds [simp]: "length (foldl sha_round s kws) = length s"
  by (induction kws arbitrary: s) simp_all

lemma length_compress [simp]: "length (compress hs b) = length hs"
  by (simp add: compress_def Let_def)

lemma length_blocks: "length (foldl compress hs bs) = length hs"
  by (induction bs arbitrary: hs) simp_all

lemma length_concat_bytes_be: "length (concat (map bytes_be ws)) = 4 * length ws"
  by (induction ws) (simp_all add: bytes_be_def)

lemma length_sha256 [simp]: "length (sha256 m) = 32"
  by (simp add: sha256_def Let_def length_concat_bytes_be length_blocks H256_def)

lemma length_pad256: "length (pad256 m) mod 64 = 0"
proof -
  define q r where "q = length m div 64" and "r = length m mod 64"
  have r: "r < 64" and l: "length m = 64 * q + r" by (simp_all add: q_def r_def)
  have "(64 * q + r + 9 + (119 - r) mod 64) mod 64 = 0"
  proof (cases "r \<le> 55")
    case True
    then have "(119 - r) mod 64 = (64 + (55 - r)) mod 64" by (intro arg_cong [where f = "\<lambda>n. n mod 64"]) simp
    also have "\<dots> = 55 - r" by (simp only: mod_add_self1) simp
    finally have "(119 - r) mod 64 = 55 - r" .
    then have "64 * q + r + 9 + (119 - r) mod 64 = 64 * (q + 1)" using True by simp
    then show ?thesis by (metis mod_mult_self1_is_0)
  next
    case False
    then have "(119 - r) mod 64 = 119 - r" by simp
    then have "64 * q + r + 9 + (119 - r) mod 64 = 64 * (q + 2)" using r by simp
    then show ?thesis by (metis mod_mult_self1_is_0)
  qed
  then show ?thesis by (simp add: pad256_def Let_def ac_simps l r)
qed

text \<open>The one-block test vector of FIPS 180-4: the sum of \<^verbatim>\<open>abc\<close>.\<close>

lemma sha256_abc:
  "sha256 (bytes_of ''abc'') =
   [0xBA, 0x78, 0x16, 0xBF, 0x8F, 0x01, 0xCF, 0xEA, 0x41, 0x41, 0x40, 0xDE, 0x5D, 0xAE, 0x22, 0x23,
    0xB0, 0x03, 0x61, 0xA3, 0x96, 0x17, 0x7A, 0x9C, 0xB4, 0x10, 0xFF, 0x61, 0xF2, 0x00, 0x15, 0xAD]"
  by code_simp

end
