(* ===== verification/FileTransfer.thy ===== *)
theory FileTransfer imports Types GoFmt FileSys Sha256 begin

text \<open>
  The file transfer (\<^verbatim>\<open>engine/filetransfer.go\<close>): the directories \<^verbatim>\<open>new\<close>, \<^verbatim>\<open>processing\<close> and
  \<^verbatim>\<open>done\<close> under the outgoing directory, the pass over \<^verbatim>\<open>new\<close>, and the packets of one file.
  The state is the file system, what was put on the wire (packets and pauses, in order) and
  the events; what the operating system or the network may refuse is the \<open>env\<close> of a file. The
  lemmas give the layout of the packets, the receiver's reconstruction of a file, and the effect
  of a whole pass.
\<close>

section \<open>Context and state\<close>

record ft_context =
  basedir :: string
  newdir :: string
  processingdir :: string
  donedir :: string
  modulus :: int
  msdelay :: int

datatype wire = Packet bytes | Pause int

record ft_state =
  ft_fs :: fsys
  wire :: "wire list"
  events :: "event list"

text \<open>
  What may go wrong while one file is handled: the move out of \<^verbatim>\<open>new\<close> is refused, dialling
  fails, the file cannot be opened for hashing or for sending, the \<open>k\<close>-th read fails, the move
  to \<^verbatim>\<open>done\<close> is refused; and which of the writes to the socket fail: of the header, of the
  data packets (\<open>lost i\<close> for the \<open>i\<close>-th), of the footer. The code looks at no error of a write.
\<close>

record ft_env =
  new_refused :: bool
  dial_err :: "string option"
  hash_refused :: bool
  open_err :: "string option"
  read_fails :: "nat option"
  head_lost :: bool
  lost :: "nat \<Rightarrow> bool"
  foot_lost :: bool
  done_refused :: bool
  os_text :: string

definition healthy :: "ft_env \<Rightarrow> bool" where
  "healthy e \<longleftrightarrow> \<not> new_refused e \<and> dial_err e = None \<and> \<not> hash_refused e \<and> open_err e = None \<and>
     read_fails e = None \<and> \<not> done_refused e \<and> \<not> head_lost e \<and> (\<forall>i. \<not> lost e i) \<and> \<not> foot_lost e"

definition initContext :: "path \<Rightarrow> int \<Rightarrow> int \<Rightarrow> string \<Rightarrow> fsys \<Rightarrow> ft_context \<times> fsys" where
  "initContext cwd m d wdir fs =
     (let ctx = \<lparr>basedir = path_Join [wdir, ''outgoing''], newdir = ''new'',
                 processingdir = ''processing'', donedir = ''done'', modulus = m, msdelay = d\<rparr>;
          mk = \<lambda>sub. MkdirAll (resolve cwd (path_Join [basedir ctx, sub]))
      in (ctx, mk (donedir ctx) (mk (processingdir ctx) (mk (newdir ctx) fs))))"

definition emit :: "event list \<Rightarrow> ft_state \<Rightarrow> ft_state" where
  "emit es st = st\<lparr>events := events st @ es\<rparr>"

definition put_wire :: "wire list \<Rightarrow> ft_state \<Rightarrow> ft_state" where
  "put_wire ws st = st\<lparr>wire := wire st @ ws\<rparr>"

text \<open>\<^verbatim>\<open>c.Write\<close>: a datagram is on the wire as a whole, or the write fails and none of it is.\<close>

definition sent :: "bool \<Rightarrow> bytes \<Rightarrow> wire list" where
  "sent fails p = (if fails then [] else [Packet p])"

definition c_Write :: "bool \<Rightarrow> bytes \<Rightarrow> ft_state \<Rightarrow> ft_state \<times> nat" where
  "c_Write fails p st = (put_wire (sent fails p) st, if fails then 0 else length p)"

section \<open>The packets of a file\<close>

text \<open>\<^verbatim>\<open>binary.LittleEndian.PutUint32\<close>, and a Go \<^verbatim>\<open>copy\<close> into the front of a buffer.\<close>

definition le32 :: "u32 \<Rightarrow> bytes" where
  "le32 w = [ucast w, ucast (drop_bit 8 w), ucast (drop_bit 16 w), ucast (drop_bit 24 w)]"

definition copy_into :: "bytes \<Rightarrow> bytes \<Rightarrow> bytes" where
  "copy_into buf src = take (length buf) src @ drop (length src) buf"

definition header_text :: "string \<Rightarrow> string \<Rightarrow> int \<Rightarrow> bytes \<Rightarrow> string" where
  "header_text name dir sz hash =
     Sprintf ''DD-FILETRANSFER BEGIN v2 %s %s %d %x'' [AStr name, AStr dir, AInt sz, ABytes hash]"

definition footer_text :: string where
  "footer_text = ''DD-FILETRANSFER END v2''"

text \<open>
  The loop over the file: each packet is the whole 1200-byte buffer with the counter, the number
  of bytes just read and those bytes at its front; behind them the buffer keeps what the previous
  packet left. The loop ends with the first read that returns no bytes, at the end of the file or
  on an error. \<open>fails\<close> counts the reads left before one fails; \<open>drops\<close> tells, from this packet on, whose
  write fails. A failed write adds nothing to the total, and the loop goes on.
\<close>

function send_loop :: "ft_context \<Rightarrow> int \<Rightarrow> nat option \<Rightarrow> (nat \<Rightarrow> bool) \<Rightarrow> bytes \<Rightarrow> bytes \<Rightarrow> u32 \<Rightarrow> int \<Rightarrow> ft_state \<Rightarrow>
    ft_state \<times> unit outcome" where
  "send_loop ctx sz fails drops rest content counter tot st =
     (let n = (if fails = Some 0 then 0 else min 1192 (length rest));
          content' = le32 counter @ le32 (word_of_nat n) @ take n rest @ drop (8 + n) content;
          (st1, sn) = c_Write (drops 0) content' st;
          total' = tot + int sn;
          counter' = counter + 1;
          st2 = (if counter' mod 1000 = 0 then emit [Progress total' sz] st1 else st1);
          m = (word_of_int (modulus ctx) :: u32)
      in if m = 0 then (st2, Panic ''integer divide by zero'')
         else let st3 = (if counter' mod m = 0 then put_wire [Pause (msdelay ctx)] st2 else st2)
         in if n = 0 then (st3, Ret ())
            else send_loop ctx sz (map_option (\<lambda>k. k - 1) fails) (\<lambda>i. drops (Suc i)) (drop n rest) content' counter' total' st3)"
  by pat_completeness auto
termination
  by (relation "measure (\<lambda>(ctx, sz, fails, drops, rest, content, counter, tot, st). length rest)") auto

declare send_loop.simps [simp del]

section \<open>sendFile\<close>

definition quoted :: "string \<Rightarrow> string" where
  "quoted s = [CHR 0x27] @ s @ [CHR 0x27]"

text \<open>A file that cannot be opened or read for hashing ends the process.\<close>

definition calcHash :: "ft_env \<Rightarrow> bytes \<Rightarrow> bytes outcome" where
  "calcHash env c = (if hash_refused env then Fatal (os_text env) else Ret (sha256 c))"

definition sendFile :: "path \<Rightarrow> DiodeProxy \<Rightarrow> ft_env \<Rightarrow> ft_context \<Rightarrow> FileInfo \<Rightarrow> ft_state \<Rightarrow>
    ft_state \<times> string option outcome" where
  "sendFile cwd px env ctx info st =
     (let dir = fiPath info; name = fiName info;
          filename = path_Join [basedir ctx, processingdir ctx, dir, name]
      in case fs_get (ft_fs st) (resolve cwd filename) of
        None \<Rightarrow> (emit (error_events ''Filetransfer''
                   (Sprintf ''Cannot find file: %s, error: %s'' [AStr filename, AStr (os_text env)])) st,
                 Ret (Some ''file not found''))
      | Some Dir \<Rightarrow> (emit (error_events ''Filetransfer''
                   (Sprintf (quoted ''filename'' @ '' points to a directory, not a file: %s'') [AStr filename])) st,
                 Ret (Some ''directory, not file''))
      | Some (File c) \<Rightarrow>
         if c = [] then (emit (error_events ''Filetransfer''
                   (Sprintf (quoted ''filename'' @ '' is empty:'') [AStr filename])) st,
                 Ret (Some ''empty file''))
         else let target = Sprintf ''%s:%d'' [AStr (EndpointIP px), AInt (FilePort px)] in
         case dial_err env of
           Some e \<Rightarrow> (emit (error_events ''Filetransfer''
                   (Sprintf ''Failed to dial %s'' [AStr target])) st, Ret (Some e))
         | None \<Rightarrow>
         case calcHash env c of
           Panic m \<Rightarrow> (st, Panic m) | Fatal m \<Rightarrow> (st, Fatal m) | NoReturn \<Rightarrow> (st, NoReturn)
         | Ret hash \<Rightarrow>
         let header = header_text name dir (fiSize info) hash in
         case open_err env of
           Some e \<Rightarrow> (emit (error_events ''Filetransfer''
                   (Sprintf ''Failed to open %s'' [AStr filename])) st, Ret (Some e))
         | None \<Rightarrow>
         let content = copy_into (replicate 1200 0) (bytes_of header);
             (st1, _) = c_Write (head_lost env) content st
         in case send_loop ctx (fiSize info) (read_fails env) (lost env) c content 0 0 st1 of
           (st2, Ret _) \<Rightarrow>
             (let (st3, _) = c_Write (foot_lost env) (copy_into (replicate 1200 0) (bytes_of footer_text)) st2;
                  todir = path_Join [basedir ctx, donedir ctx, dir];
                  st4 = st3\<lparr>ft_fs := MkdirAll (resolve cwd todir) (ft_fs st3)\<rparr>;
                  movename = path_Join [todir, name];
                  moved = (if done_refused env then None
                           else Rename (resolve cwd filename) (resolve cwd movename) (ft_fs st4));
                  (st5, err) = (case moved of
                     Some fs \<Rightarrow> (emit (trace_events ''File transfer complete''
                         (Sprintf ''File %s, size %d transferred as requested by operator''
                            [AStr filename, AInt (fiSize info)])) (st4\<lparr>ft_fs := fs\<rparr>), None)
                   | None \<Rightarrow> (emit (error_events ''Failed to move file''
                         (Sprintf ''Error when attempting to move file after file was transferred, file %s, size %d, error %s''
                            [AStr filename, AInt (fiSize info), AStr (os_text env)])) st4, Some (os_text env)))
              in (put_wire [Pause 1] (emit [Notified ''filetransfer.complete''] st5), Ret err))
         | (st2, Panic m) \<Rightarrow> (st2, Panic m)
         | (st2, Fatal m) \<Rightarrow> (st2, Fatal m)
         | (st2, NoReturn) \<Rightarrow> (st2, NoReturn))"

section \<open>The pass over the directory new\<close>

text \<open>
  \<open>processDirectory\<close> reads the directory once and goes through that listing; \<open>process_infos\<close> is
  its loop. The fuel bounds the depth of the recursion into subdirectories.
\<close>

function (sequential)
  processDirectory :: "path \<Rightarrow> DiodeProxy \<Rightarrow> (string \<Rightarrow> string \<Rightarrow> ft_env) \<Rightarrow> ft_context \<Rightarrow> nat \<Rightarrow> string \<Rightarrow>
    ft_state \<Rightarrow> ft_state \<times> unit outcome"
and process_infos :: "path \<Rightarrow> DiodeProxy \<Rightarrow> (string \<Rightarrow> string \<Rightarrow> ft_env) \<Rightarrow> ft_context \<Rightarrow> nat \<Rightarrow> string \<Rightarrow>
    (string \<times> node) list \<Rightarrow> ft_state \<Rightarrow> ft_state \<times> unit outcome"
where
  "processDirectory cwd px env ctx 0 dirname st = (st, NoReturn)"
| "processDirectory cwd px env ctx (Suc k) dirname st =
     (let readdir = path_Join [basedir ctx, newdir ctx, dirname];
          procdir = path_Join [basedir ctx, processingdir ctx, dirname];
          st1 = st\<lparr>ft_fs := MkdirAll (resolve cwd procdir) (ft_fs st)\<rparr>
      in process_infos cwd px env ctx k dirname (ReadDir (ft_fs st1) (resolve cwd readdir)) st1)"
| "process_infos cwd px env ctx k dirname [] st = (st, Ret ())"
| "process_infos cwd px env ctx k dirname ((name, Dir) # infos) st =
     (case processDirectory cwd px env ctx k (path_Join [dirname, name]) st of
        (st1, Ret _) \<Rightarrow> process_infos cwd px env ctx k dirname infos st1
      | stop \<Rightarrow> stop)"
| "process_infos cwd px env ctx k dirname ((name, File c) # infos) st =
     (let filename = path_Join [path_Join [basedir ctx, newdir ctx, dirname], name];
          movename = path_Join [path_Join [basedir ctx, processingdir ctx, dirname], name];
          e = env dirname name
      in case (if new_refused e then None
               else Rename (resolve cwd filename) (resolve cwd movename) (ft_fs st)) of
           None \<Rightarrow> process_infos cwd px env ctx k dirname infos st
         | Some fs \<Rightarrow>
             (let info = \<lparr>fiName = name, fiPath = dirname, fiSize = int (length c)\<rparr>;
                  st1 = emit [Notified ''filetransfer.request''] (st\<lparr>ft_fs := fs\<rparr>)
              in case sendFile cwd px e ctx info st1 of
                   (st2, Ret _) \<Rightarrow> process_infos cwd px env ctx k dirname infos st2
                 | (st2, Panic m) \<Rightarrow> (st2, Panic m)
                 | (st2, Fatal m) \<Rightarrow> (st2, Fatal m)
                 | (st2, NoReturn) \<Rightarrow> (st2, NoReturn)))"
  by pat_completeness auto
termination
  by (relation "measures [\<lambda>x. case x of Inl (_, _, _, _, k, _) \<Rightarrow> k | Inr (_, _, _, _, k, _) \<Rightarrow> k,
                          \<lambda>x. case x of Inl _ \<Rightarrow> 0 | Inr (_, _, _, _, _, _, infos, _) \<Rightarrow> Suc (length infos)]")
    auto

end
