(* ===== verification/Packets.thy ===== *)
theory Packets imports FileTransfer begin

text \<open>
  What the packets of a file mean to a receiver. A data packet carries a sequence number, a
  length and that many bytes; \<open>pieces\<close> is the list of payloads the send loop makes of a file.
  The lemmas show the loop's packets, their numbering, the reconstruction of the file from the
  payloads, the pauses between packets, and when the header can be read back.
\<close>

section \<open>Reading packets\<close>

definition unle32 :: "bytes \<Rightarrow> u32" where
  "unle32 bs = (case bs of
     [a, b, c, d] \<Rightarrow> ucast a OR push_bit 8 (ucast b) OR push_bit 16 (ucast c) OR push_bit 24 (ucast d)
   | _ \<Rightarrow> 0)"

definition packet_seq :: "bytes \<Rightarrow> u32" where
  "packet_seq p = unle32 (take 4 p)"

definition packet_len :: "bytes \<Rightarrow> u32" where
  "packet_len p = unle32 (take 4 (drop 4 p))"

definition packet_data :: "bytes \<Rightarrow> bytes" where
  "packet_data p = take (unat (packet_len p)) (drop 8 p)"

definition packets :: "wire list \<Rightarrow> bytes list" where
  "packets ws = List.map_filter (\<lambda>w. case w of Packet p \<Rightarrow> Some p | Pause _ \<Rightarrow> None) ws"

lemma packets_simps [simp]:
  "packets [] = []" "packets (Packet p # ws) = p # packets ws" "packets (Pause d # ws) = packets ws"
  "packets (vs @ ws) = packets vs @ packets ws"
  by (simp_all add: packets_def List.map_filter_def)

lemma unle32_le32 [simp]: "unle32 (le32 w) = w"
proof (rule bit_word_eqI)
  fix n assume "n < LENGTH(32)"
  then show "bit (unle32 (le32 w)) n = bit w n"
    by (cases "24 \<le> n"; cases "16 \<le> n"; cases "8 \<le> n") (auto simp: unle32_def le32_def bit_or_iff bit_push_bit_iff bit_ucast_iff bit_drop_bit_eq)
qed

lemma length_le32 [simp]: "length (le32 w) = 4"
  by (simp add: le32_def)

lemma read_packet:
  assumes "p = le32 s @ le32 l @ xs"
  shows "packet_seq p = s" and "packet_len p = l" and "packet_data p = take (unat l) xs"
proof -
  show "packet_seq p = s" and l: "packet_len p = l"
    using assms by (simp_all add: packet_seq_def packet_len_def)
  have "drop 8 p = xs" using assms by simp
  then show "packet_data p = take (unat l) xs" using l by (simp add: packet_data_def)
qed

section \<open>The payloads of a file\<close>

function pieces :: "nat option \<Rightarrow> bytes \<Rightarrow> bytes list" where
  "pieces fails rest =
     (let n = (if fails = Some 0 then 0 else min 1192 (length rest))
      in take n rest # (if n = 0 then [] else pieces (map_option (\<lambda>k. k - 1) fails) (drop n rest)))"
  by pat_completeness auto
termination
  by (relation "measure (\<lambda>(fails, rest). length rest)") auto

declare pieces.simps [simp del]

lemma pieces_nonempty [simp]: "pieces f r \<noteq> []"
  by (subst pieces.simps) (simp add: Let_def)

lemma concat_pieces: "concat (pieces None c) = c"
proof (induction c rule: length_induct)
  case (1 c)
  then show ?case by (subst pieces.simps) (cases "c = []"; simp add: Let_def)
qed

lemma length_pieces: "length (pieces None c) = (length c + 1191) div 1192 + 1"
proof (induction c rule: length_induct)
  case (1 c)
  show ?case
  proof (cases "length c \<le> 1192")
    case True
    then have "pieces None (drop (length c) c) = [[]]" by (simp add: pieces.simps)
    then show ?thesis
      using True by (subst pieces.simps) (cases "c = []"; simp add: Let_def div_if)
  next
    case False
    then have "length (pieces None (drop 1192 c)) = (length c - 1192 + 1191) div 1192 + 1"
      using 1 by simp
    moreover have ne: "c \<noteq> []" using False by auto
    moreover have "(length c + 1191) div 1192 = (length c - 1192 + 1191) div 1192 + 1"
      using False ne by (simp add: div_if)
    ultimately show ?thesis using False by (subst pieces.simps) (simp add: Let_def)
  qed
qed

text \<open>A prefix of the file is sent when a read fails.\<close>

lemma concat_pieces_prefix: "\<exists>ys. c = concat (pieces f c) @ ys"
proof (induction f c rule: pieces.induct)
  case (1 f c)
  let ?n = "if f = Some 0 then 0 else min 1192 (length c)"
  show ?case
  proof (cases "?n = 0")
    case True
    then show ?thesis by (subst pieces.simps) (simp add: Let_def)
  next
    case False
    then obtain ys where "drop ?n c = concat (pieces (map_option (\<lambda>k. k - 1) f) (drop ?n c)) @ ys"
      using 1 by blast
    then have "c = take ?n c @ concat (pieces (map_option (\<lambda>k. k - 1) f) (drop ?n c)) @ ys"
      by (metis append_take_drop_id)
    then show ?thesis using False by (subst pieces.simps) (auto simp: Let_def)
  qed
qed

section \<open>The loop's packets\<close>

definition count_from :: "u32 \<Rightarrow> nat \<Rightarrow> u32 list" where
  "count_from c n = map (\<lambda>i. c + word_of_nat i) [0..<n]"

lemma count_from_simps [simp]:
  "count_from c 0 = []" "count_from c (Suc n) = c # count_from (c + 1) n"
proof -
  show "count_from c (Suc n) = c # count_from (c + 1) n"
    unfolding count_from_def upt_conv_Cons [OF zero_less_Suc] map_Suc_upt [symmetric]
    by (simp add: ac_simps)
qed (simp add: count_from_def)

lemma ft_state_simps [simp]:
  "ft_fs (emit es st) = ft_fs st" "wire (emit es st) = wire st" "events (emit es st) = events st @ es"
  "ft_fs (put_wire ws st) = ft_fs st" "wire (put_wire ws st) = wire st @ ws"
  "events (put_wire ws st) = events st"
  by (simp_all add: emit_def put_wire_def)

text \<open>
  A data packet on the wire is followed by the pause if the number of packets so far is a
  multiple of the modulus.
\<close>

definition paced :: "ft_context \<Rightarrow> bytes \<Rightarrow> wire list" where
  "paced ctx p = Packet p #
     (if (packet_seq p + 1) mod word_of_int (modulus ctx) = 0 then [Pause (msdelay ctx)] else [])"

text \<open>The same when the packets of \<open>drops\<close> are not written.\<close>

fun lossy :: "ft_context \<Rightarrow> (nat \<Rightarrow> bool) \<Rightarrow> bytes list \<Rightarrow> wire list" where
  "lossy ctx drops [] = []"
| "lossy ctx drops (p # ps) = sent (drops 0) p @ tl (paced ctx p) @ lossy ctx (\<lambda>i. drops (Suc i)) ps"

lemma sent_simps [simp]: "sent False p = [Packet p]" "sent True p = []"
  by (simp_all add: sent_def)

lemma lossy_none: "\<forall>i. \<not> drops i \<Longrightarrow> lossy ctx drops ps = concat (map (paced ctx) ps)"
  by (induction ps arbitrary: drops) (simp_all add: paced_def)

lemma c_Write_simps [simp]:
  "fst (c_Write f p st) = put_wire (sent f p) st" "snd (c_Write f p st) = (if f then 0 else length p)"
  by (simp_all add: c_Write_def)

lemma packets_paced [simp]: "packets (concat (map (paced ctx) ps)) = ps"
  by (induction ps) (simp_all add: paced_def)

lemma send_loop_packets:
  assumes "word_of_int (modulus ctx) \<noteq> (0 :: u32)" and "length content = 1200"
  shows "\<exists>st' ps. send_loop ctx sz fails drops rest content counter tot st = (st', Ret ())
    \<and> wire st' = wire st @ lossy ctx drops ps \<and> ft_fs st' = ft_fs st
    \<and> map packet_data ps = pieces fails rest \<and> map packet_seq ps = count_from counter (length ps)
    \<and> (\<forall>p \<in> set ps. length p = 1200)"
  using assms(2)
proof (induction rest arbitrary: fails drops content counter tot st rule: length_induct)
  case (1 rest)
  let ?n = "if fails = Some 0 then 0 else min 1192 (length rest)"
  let ?c = "le32 counter @ le32 (word_of_nat ?n) @ take ?n rest @ drop (8 + ?n) content"
  have n: "?n \<le> 1192" "?n \<le> length rest" by auto
  have len: "length ?c = 1200" using n "1.prems" by simp
  have un: "unat (word_of_nat ?n :: u32) = ?n"
    using n(1) by (simp add: unat_of_nat)
  have read: "packet_seq ?c = counter" "packet_data ?c = take ?n rest"
    using read_packet [OF refl, of counter "word_of_nat ?n" "take ?n rest @ drop (8 + ?n) content"] un n
    by simp_all
  define tot' where "tot' = tot + int (snd (c_Write (drops 0) ?c st))"
  define st1 where "st1 = fst (c_Write (drops 0) ?c st)"
  define st2 where "st2 = (if (counter + 1) mod 1000 = 0 then emit [Progress tot' sz] st1 else st1)"
  define st3 where "st3 = (if (counter + 1) mod (word_of_int (modulus ctx)) = 0
    then put_wire [Pause (msdelay ctx)] st2 else st2)"
  have st3: "wire st3 = wire st @ sent (drops 0) ?c @ tl (paced ctx ?c)" "ft_fs st3 = ft_fs st"
    by (simp_all add: st3_def st2_def st1_def paced_def read)
  have step: "send_loop ctx sz fails drops rest content counter tot st =
     (if ?n = 0 then (st3, Ret ())
      else send_loop ctx sz (map_option (\<lambda>k. k - 1) fails) (\<lambda>i. drops (Suc i)) (drop ?n rest) ?c (counter + 1) tot' st3)"
    unfolding st3_def st2_def st1_def tot'_def
    using assms(1) by (subst send_loop.simps) (simp only: Let_def if_False split_def)
  show ?case
  proof (cases "?n = 0")
    case True
    then have "pieces fails rest = [[]]" by (subst pieces.simps) (simp add: Let_def)
    then show ?thesis
      using True step st3 read len by (intro exI [of _ st3] exI [of _ "[?c]"]) simp
  next
    case False
    then have "length (drop ?n rest) < length rest" by (auto split: if_splits)
    from "1.IH" [rule_format, OF this len] obtain st' ps where IH:
      "send_loop ctx sz (map_option (\<lambda>k. k - 1) fails) (\<lambda>i. drops (Suc i)) (drop ?n rest) ?c (counter + 1) tot' st3 = (st', Ret ())"
      "wire st' = wire st3 @ lossy ctx (\<lambda>i. drops (Suc i)) ps" "ft_fs st' = ft_fs st3"
      "map packet_data ps = pieces (map_option (\<lambda>k. k - 1) fails) (drop ?n rest)"
      "map packet_seq ps = count_from (counter + 1) (length ps)" "\<forall>p \<in> set ps. length p = 1200"
      by metis
    have "pieces fails rest = take ?n rest # pieces (map_option (\<lambda>k. k - 1) fails) (drop ?n rest)"
      using False by (subst pieces.simps) (simp add: Let_def)
    then show ?thesis
      using False step IH st3 read len by (intro exI [of _ st'] exI [of _ "?c # ps"]) simp
  qed
qed

section \<open>Header and footer\<close>

text \<open>A text packet, read up to its zero padding, and its fields between the blanks.\<close>

definition read_text :: "bytes \<Rightarrow> string" where
  "read_text p = string_of (takeWhile (\<lambda>b. b \<noteq> 0) p)"

definition header_fields :: "bytes \<Rightarrow> string list" where
  "header_fields p = split_on (\<lambda>c. c = CHR '' '') (read_text p)"

definition text_packet :: "string \<Rightarrow> bytes" where
  "text_packet s = copy_into (replicate 1200 0) (bytes_of s)"

lemma length_text_packet [simp]: "length (text_packet s) = 1200"
  by (simp add: text_packet_def copy_into_def)

lemma read_text_packet:
  assumes "CHR 0x00 \<notin> set s" and "length s \<le> 1200"
  shows "read_text (text_packet s) = s"
proof -
  have "word_of_nat (of_char c) \<noteq> (0 :: byte)" if "c \<in> set s" for c
  proof -
    have "c \<noteq> CHR 0x00" using that assms(1) by metis
    then show ?thesis by (simp only: byte_zero) simp
  qed
  then have nz: "\<forall>b \<in> set (bytes_of s). b \<noteq> 0" by (auto simp: bytes_of_def)
  have "takeWhile (\<lambda>b. b \<noteq> 0) (replicate k (0 :: byte)) = []" for k by (cases k) simp_all
  with nz have "takeWhile (\<lambda>b. b \<noteq> 0) (bytes_of s @ replicate (1200 - length s) 0) = bytes_of s"
    by (simp add: takeWhile_append2)
  moreover have "text_packet s = bytes_of s @ replicate (1200 - length s) 0"
    using assms(2) by (simp add: text_packet_def copy_into_def)
  ultimately show ?thesis by (simp add: read_text_def)
qed

lemma header_text_eq:
  "header_text name dir sz hash =
   ''DD-FILETRANSFER BEGIN v2 '' @ name @ '' '' @ dir @ '' '' @ fmt_d sz @ '' '' @ fmt_x hash"
proof -
  have "fmt_pad [] sz = fmt_d sz" by (simp add: fmt_pad_def)
  then show ?thesis
    by (simp add: header_text_def Sprintf_def fmt_arg_verb_def is_digit_def fmt_extra_def)
qed

lemma digit_range: "n < 10 \<Longrightarrow> digit n \<noteq> CHR '' ''" "n < 10 \<Longrightarrow> digit n \<noteq> CHR 0x00"
  using is_digit_digit [of n] by (auto simp: is_digit_def simp del: is_digit_digit)

lemma fmt_d_clean: "0 \<le> i \<Longrightarrow> c \<in> set (fmt_d i) \<Longrightarrow> is_digit c"
  by (simp add: fmt_d_def dec_nat_digits)

lemma is_digit_clean: "is_digit c \<Longrightarrow> c \<noteq> CHR '' '' \<and> c \<noteq> CHR 0x00"
  by (auto simp: is_digit_def)

lemma hex_digit_clean: "n < 16 \<Longrightarrow> hex_digit n \<noteq> CHR '' '' \<and> hex_digit n \<noteq> CHR 0x00"
proof (cases "n < 10")
  case False
  assume "n < 16"
  with False have h: "of_char (hex_digit n) = 87 + n" by (simp add: hex_digit_def)
  { fix c :: char assume "hex_digit n = c" and "of_char c < (87 :: nat)"
    with h have False by simp }
  then show ?thesis by force
next
  case True
  then show ?thesis using is_digit_digit [of n] by (auto simp: hex_digit_def is_digit_def simp del: is_digit_digit)
qed

lemma fmt_x_clean: "c \<in> set (fmt_x bs) \<Longrightarrow> c \<noteq> CHR '' '' \<and> c \<noteq> CHR 0x00"
proof -
  have "unat b < 256" for b :: byte
    by (rule order.strict_trans2 [OF unsigned_less]) simp
  then have "unat b div 16 < 16" for b :: byte by (simp add: less_mult_imp_div_less)
  then show "c \<in> set (fmt_x bs) \<Longrightarrow> ?thesis"
    unfolding fmt_x_def using hex_digit_clean by auto
qed

text \<open>
  A name or a directory free of blanks and zero bytes can be read back from the header; the
  header has to fit the packet.
\<close>

definition clean_word :: "string \<Rightarrow> bool" where
  "clean_word s \<longleftrightarrow> CHR '' '' \<notin> set s \<and> CHR 0x00 \<notin> set s"

lemma header_fields_text:
  assumes "clean_word name" and "clean_word dir" and "0 \<le> sz"
    and "length (header_text name dir sz hash) \<le> 1200"
  shows "header_fields (text_packet (header_text name dir sz hash)) =
    [''DD-FILETRANSFER'', ''BEGIN'', ''v2'', name, dir, fmt_d sz, fmt_x hash]"
proof -
  let ?P = "\<lambda>c. c = CHR '' ''"
  have d: "\<forall>c \<in> set (fmt_d sz). \<not> ?P c \<and> c \<noteq> CHR 0x00"
    using fmt_d_clean [OF assms(3)] is_digit_clean by blast
  have x: "\<forall>c \<in> set (fmt_x hash). \<not> ?P c \<and> c \<noteq> CHR 0x00" using fmt_x_clean by blast
  have n: "\<forall>c \<in> set name. \<not> ?P c" "\<forall>c \<in> set dir. \<not> ?P c"
    using assms(1,2) by (auto simp: clean_word_def)
  have "CHR 0x00 \<notin> set (header_text name dir sz hash)"
    using assms(1,2) d x by (auto simp: header_text_eq clean_word_def)
  then have read: "read_text (text_packet (header_text name dir sz hash)) = header_text name dir sz hash"
    using assms(4) by (rule read_text_packet)
  have "split_on ?P (header_text name dir sz hash) =
    [''DD-FILETRANSFER'', ''BEGIN'', ''v2''] @ split_on ?P (name @ '' '' @ dir @ '' '' @ fmt_d sz @ '' '' @ fmt_x hash)"
    by (simp add: header_text_eq)
  also have "split_on ?P (name @ '' '' @ dir @ '' '' @ fmt_d sz @ '' '' @ fmt_x hash) =
      [name, dir, fmt_d sz, fmt_x hash]"
    using split_on_none [of name ?P] split_on_none [of dir ?P] split_on_none [of "fmt_d sz" ?P]
      split_on_none [of "fmt_x hash" ?P] n d x
    by (simp add: split_on_append [of ?P])
  finally show ?thesis by (simp add: header_fields_def read)
qed

end
