(* ===== verification/TransferPass.thy ===== *)
theory TransferPass imports Packets begin

text \<open>
  What one file transfer, and one whole pass over the directory \<^verbatim>\<open>new\<close>, do to the file system
  and the wire when nothing is refused. \<open>moved X fs fs'\<close> is the specification of a pass: the
  files named by the relative paths \<open>X\<close> have left \<^verbatim>\<open>new\<close>, and are in \<^verbatim>\<open>done\<close> with the same
  bytes (an empty file stays in \<^verbatim>\<open>processing\<close>); beside that only directories appear.
\<close>

section \<open>The three areas\<close>

definition area :: "path \<Rightarrow> ft_context \<Rightarrow> string \<Rightarrow> path" where
  "area cwd ctx sub = resolve cwd (basedir ctx) @ [sub]"

definition std_context :: "ft_context \<Rightarrow> bool" where
  "std_context ctx \<longleftrightarrow> clean_path (basedir ctx) \<and> newdir ctx = ''new'' \<and>
     processingdir ctx = ''processing'' \<and> donedir ctx = ''done'' \<and>
     (word_of_int (modulus ctx) :: u32) \<noteq> 0"

lemma proper_areas [simp]: "proper ''new''" "proper ''processing''" "proper ''done''" "proper ''outgoing''"
  by (simp_all add: proper_def is_sep_def is_slash_def is_backslash_def)

lemma std_contextD:
  assumes "std_context ctx"
  shows "clean_path (basedir ctx)" "newdir ctx = ''new''" "processingdir ctx = ''processing''"
    "donedir ctx = ''done''" "(word_of_int (modulus ctx) :: u32) \<noteq> 0"
  using assms by (simp_all add: std_context_def)

lemma area_dir:
  assumes "std_context ctx" and "proper sub" and "\<forall>d \<in> set ds. proper d"
  shows "resolve cwd (path_Join [basedir ctx, sub, rel_path ds]) = area cwd ctx sub @ ds"
    and "clean_path (path_Join [basedir ctx, sub, rel_path ds])"
  using resolve_Join [OF std_contextD(1) [OF assms(1)] assms(2,3)] by (simp_all add: area_def)

lemma area_file:
  assumes "std_context ctx" and "proper sub" and "\<forall>d \<in> set ds. proper d" and "proper n"
  shows "resolve cwd (path_Join [basedir ctx, sub, rel_path ds, n]) = area cwd ctx sub @ ds @ [n]"
    and "resolve cwd (path_Join [path_Join [basedir ctx, sub, rel_path ds], n]) = area cwd ctx sub @ ds @ [n]"
  using resolve_Join_file [OF std_contextD(1) [OF assms(1)] assms(2-4)]
    resolve_Join_name(1) [OF area_dir(2) [OF assms(1-3)] assms(4)] area_dir(1) [OF assms(1-3)]
  by (simp_all add: area_def)

lemma area_neq [simp]:
  "area cwd ctx ''new'' @ p \<noteq> area cwd ctx ''processing'' @ q"
  "area cwd ctx ''new'' @ p \<noteq> area cwd ctx ''done'' @ q"
  "area cwd ctx ''processing'' @ p \<noteq> area cwd ctx ''new'' @ q"
  "area cwd ctx ''processing'' @ p \<noteq> area cwd ctx ''done'' @ q"
  "area cwd ctx ''done'' @ p \<noteq> area cwd ctx ''new'' @ q"
  "area cwd ctx ''done'' @ p \<noteq> area cwd ctx ''processing'' @ q"
  by (simp_all add: area_def)

lemma area_eq [simp]: "area cwd ctx a = area cwd ctx b \<longleftrightarrow> a = b"
  "area cwd ctx a @ p = area cwd ctx b @ q \<longleftrightarrow> a = b \<and> p = q"
  by (simp_all add: area_def)

section \<open>One file\<close>

lemma healthyD:
  assumes "healthy e"
  shows "\<not> new_refused e" "dial_err e = None" "\<not> hash_refused e" "open_err e = None"
    "read_fails e = None" "\<not> done_refused e" "\<not> head_lost e" "\<And>i. \<not> lost e i" "\<not> foot_lost e"
  using assms by (simp_all add: healthy_def)

text \<open>
  The transfer itself is not refused; a read may still fail, and the write of a packet. In \<open>sends\<close> every
  packet is written.
\<close>

definition proceeds :: "ft_env \<Rightarrow> bool" where
  "proceeds e \<longleftrightarrow> dial_err e = None \<and> \<not> hash_refused e \<and> open_err e = None \<and> \<not> done_refused e"

definition sends :: "ft_env \<Rightarrow> bool" where
  "sends e \<longleftrightarrow> proceeds e \<and> \<not> head_lost e \<and> (\<forall>i. \<not> lost e i) \<and> \<not> foot_lost e"

lemma healthy_sends: "healthy e \<Longrightarrow> sends e"
  by (simp add: healthy_def sends_def proceeds_def)

lemma sendFile_run:
  assumes std: "std_context ctx" and e: "proceeds e"
    and nm: "proper name" "\<forall>d \<in> set ds. proper d"
    and here: "fs_get (ft_fs st) (area cwd ctx ''processing'' @ ds @ [name]) = Some (File c)" "c \<noteq> []"
    and clear: "clear_way (ft_fs st) (area cwd ctx ''done'' @ ds)"
      "fs_get (ft_fs st) (area cwd ctx ''done'' @ ds @ [name]) \<noteq> Some Dir"
  shows "\<exists>st' ps. sendFile cwd px e ctx \<lparr>fiName = name, fiPath = rel_path ds, fiSize = sz\<rparr> st = (st', Ret None)
    \<and> ft_fs st' = fs_put (area cwd ctx ''done'' @ ds @ [name]) (File c)
        (fs_del (area cwd ctx ''processing'' @ ds @ [name])
          (MkdirAll (area cwd ctx ''done'' @ ds) (ft_fs st)))
    \<and> wire st' = wire st @ sent (head_lost e) (text_packet (header_text name (rel_path ds) sz (sha256 c)))
        @ lossy ctx (lost e) ps @ sent (foot_lost e) (text_packet footer_text) @ [Pause 1]
    \<and> map packet_data ps = pieces (read_fails e) c \<and> map packet_seq ps = count_from 0 (length ps)
    \<and> (\<forall>p \<in> set ps. length p = 1200)"
proof -
  note env = e [unfolded proceeds_def] and ctx = std_contextD [OF std]
  let ?P = "area cwd ctx ''processing'' @ ds @ [name]" and ?D = "area cwd ctx ''done'' @ ds"
  let ?head = "text_packet (header_text name (rel_path ds) sz (sha256 c))"
  let ?fs = "MkdirAll ?D (ft_fs st)"
  have src: "resolve cwd (path_Join [basedir ctx, processingdir ctx, rel_path ds, name]) = ?P"
    using area_file(1) [OF std _ nm(2,1), of "''processing''"] ctx(3) by simp
  have todir: "resolve cwd (path_Join [basedir ctx, donedir ctx, rel_path ds]) = ?D"
    using area_dir(1) [OF std _ nm(2), of "''done''"] ctx(4) by simp
  have move: "resolve cwd (path_Join [path_Join [basedir ctx, donedir ctx, rel_path ds], name]) = ?D @ [name]"
    using area_file(2) [OF std _ nm(2,1), of "''done''"] ctx(4) by simp
  obtain st2 ps where loop:
    "send_loop ctx sz (read_fails e) (lost e) c ?head 0 0 (put_wire (sent (head_lost e) ?head) st) = (st2, Ret ())"
    "wire st2 = wire st @ sent (head_lost e) ?head @ lossy ctx (lost e) ps" "ft_fs st2 = ft_fs st"
    "map packet_data ps = pieces (read_fails e) c" "map packet_seq ps = count_from 0 (length ps)"
    "\<forall>p \<in> set ps. length p = 1200"
    using send_loop_packets [OF ctx(5) length_text_packet, of sz "read_fails e" "lost e" c
        "header_text name (rel_path ds) sz (sha256 c)" 0 0 "put_wire (sent (head_lost e) ?head) st"]
    by auto
  have "fs_get ?fs ?P = Some (File c)" using here(1) by (rule MkdirAll_keeps)
  moreover have "is_dir ?fs ?D" using clear(1) by (rule MkdirAll_makes)
  moreover have "fs_get ?fs (?D @ [name]) \<noteq> Some Dir"
    using clear(2) MkdirAll_outside [of "?D @ [name]" ?D] by simp
  ultimately have rename: "Rename ?P (?D @ [name]) ?fs = Some (fs_put (?D @ [name]) (File c) (fs_del ?P ?fs))"
    by (simp add: Rename_def butlast_append)
  show ?thesis
    using env here loop rename
    by (simp add: sendFile_def calcHash_def Let_def split_def src todir move text_packet_def [symmetric]) (rule exI [of _ ps], simp)
qed

lemma sendFile_ok:
  assumes "std_context ctx" and e: "sends e" and "proper name" "\<forall>d \<in> set ds. proper d"
    and "fs_get (ft_fs st) (area cwd ctx ''processing'' @ ds @ [name]) = Some (File c)" "c \<noteq> []"
    and "clear_way (ft_fs st) (area cwd ctx ''done'' @ ds)"
      "fs_get (ft_fs st) (area cwd ctx ''done'' @ ds @ [name]) \<noteq> Some Dir"
  shows "\<exists>st' ps. sendFile cwd px e ctx \<lparr>fiName = name, fiPath = rel_path ds, fiSize = sz\<rparr> st = (st', Ret None)
    \<and> ft_fs st' = fs_put (area cwd ctx ''done'' @ ds @ [name]) (File c)
        (fs_del (area cwd ctx ''processing'' @ ds @ [name])
          (MkdirAll (area cwd ctx ''done'' @ ds) (ft_fs st)))
    \<and> wire st' = wire st @ Packet (text_packet (header_text name (rel_path ds) sz (sha256 c)))
        # concat (map (paced ctx) ps) @ [Packet (text_packet footer_text), Pause 1]
    \<and> map packet_data ps = pieces (read_fails e) c \<and> map packet_seq ps = count_from 0 (length ps)
    \<and> (\<forall>p \<in> set ps. length p = 1200)"
proof -
  have "proceeds e" "head_lost e = False" "foot_lost e = False" "\<forall>i. \<not> lost e i" using e by (simp_all add: sends_def)
  then show ?thesis
    using sendFile_run [OF assms(1) _ assms(3-8), of e px sz] lossy_none [of "lost e" ctx] by (simp only: sent_simps) simp
qed

section \<open>The specification of a pass\<close>

abbreviation file_at :: "fsys \<Rightarrow> path \<Rightarrow> bytes \<Rightarrow> bool" where
  "file_at fs p c \<equiv> fs_get fs p = Some (File c)"

text \<open>
  A tidy outgoing directory: parents are directories, the three areas exist, the names below
  \<^verbatim>\<open>new\<close> are plain Windows names, and nothing below \<^verbatim>\<open>processing\<close> or \<^verbatim>\<open>done\<close> is a directory
  where \<^verbatim>\<open>new\<close> has a file, or a file where \<^verbatim>\<open>new\<close> has a directory.
\<close>

definition tidy :: "path \<Rightarrow> ft_context \<Rightarrow> fsys \<Rightarrow> bool" where
  "tidy cwd ctx fs \<longleftrightarrow>
     (\<forall>p n. fs_get fs (p @ [n]) \<noteq> None \<longrightarrow> is_dir fs p) \<and>
     is_dir fs (area cwd ctx ''new'') \<and> is_dir fs (area cwd ctx ''processing'') \<and> is_dir fs (area cwd ctx ''done'') \<and>
     (\<forall>r. fs_get fs (area cwd ctx ''new'' @ r) \<noteq> None \<longrightarrow> (\<forall>d \<in> set r. proper d)) \<and>
     (\<forall>r c. is_dir fs (area cwd ctx ''new'' @ r) \<longrightarrow>
        \<not> file_at fs (area cwd ctx ''processing'' @ r) c \<and> \<not> file_at fs (area cwd ctx ''done'' @ r) c) \<and>
     (\<forall>r c. file_at fs (area cwd ctx ''new'' @ r) c \<longrightarrow>
        fs_get fs (area cwd ctx ''processing'' @ r) \<noteq> Some Dir \<and> fs_get fs (area cwd ctx ''done'' @ r) \<noteq> Some Dir)"

definition moved :: "path \<Rightarrow> ft_context \<Rightarrow> path set \<Rightarrow> fsys \<Rightarrow> fsys \<Rightarrow> bool" where
  "moved cwd ctx X fs fs' \<longleftrightarrow>
     (\<forall>r c. file_at fs (area cwd ctx ''new'' @ r) c \<longrightarrow> r \<in> X \<longrightarrow>
        fs_get fs' (area cwd ctx ''new'' @ r) = None \<and>
        (if c = [] then file_at fs' (area cwd ctx ''processing'' @ r) []
         else fs_get fs' (area cwd ctx ''processing'' @ r) = None \<and> file_at fs' (area cwd ctx ''done'' @ r) c)) \<and>
     (\<forall>q. (\<forall>r c. file_at fs (area cwd ctx ''new'' @ r) c \<longrightarrow> r \<in> X \<longrightarrow>
            q \<noteq> area cwd ctx ''new'' @ r \<and> q \<noteq> area cwd ctx ''processing'' @ r \<and> q \<noteq> area cwd ctx ''done'' @ r) \<longrightarrow>
        fs_get fs' q = fs_get fs q \<or>
        fs_get fs q = None \<and> fs_get fs' q = Some Dir \<and>
        (\<exists>ds. is_dir fs (area cwd ctx ''new'' @ ds) \<and>
           (q = area cwd ctx ''processing'' @ ds \<or> q = area cwd ctx ''done'' @ ds)))"

text \<open>The wire of one file, and of the non-empty files among \<open>Y\<close>, each once.\<close>

definition transmission :: "ft_context \<Rightarrow> path \<times> bytes \<Rightarrow> wire list \<Rightarrow> bool" where
  "transmission ctx rc ws \<longleftrightarrow> (case rc of (r, c) \<Rightarrow> \<exists>ps.
     ws = Packet (text_packet (header_text (last r) (rel_path (butlast r)) (int (length c)) (sha256 c)))
       # concat (map (paced ctx) ps) @ [Packet (text_packet footer_text), Pause 1] \<and>
     map packet_data ps = pieces None c \<and> map packet_seq ps = count_from 0 (length ps) \<and>
     (\<forall>p \<in> set ps. length p = 1200))"

definition transmitted :: "path \<Rightarrow> ft_context \<Rightarrow> fsys \<Rightarrow> path set \<Rightarrow> wire list \<Rightarrow> bool" where
  "transmitted cwd ctx fs Y ws \<longleftrightarrow> (\<exists>log wss. ws = concat wss \<and> list_all2 (transmission ctx) log wss \<and>
     distinct (map fst log) \<and> set log = {(r, c). r \<in> Y \<and> c \<noteq> [] \<and> file_at fs (area cwd ctx ''new'' @ r) c})"

definition pass_at :: "path \<Rightarrow> ft_context \<Rightarrow> path set \<Rightarrow> ft_state \<Rightarrow> ft_state \<Rightarrow> bool" where
  "pass_at cwd ctx X st st' \<longleftrightarrow> moved cwd ctx X (ft_fs st) (ft_fs st') \<and>
     (\<exists>ws. wire st' = wire st @ ws \<and> transmitted cwd ctx (ft_fs st) X ws)"

lemma pass_at_start: "pass_at cwd ctx {} st st"
  by (auto simp: pass_at_def moved_def transmitted_def)

lemma pass_at_cong:
  assumes "\<And>r c. file_at (ft_fs st) (area cwd ctx ''new'' @ r) c \<Longrightarrow> r \<in> X \<longleftrightarrow> r \<in> Y"
  shows "pass_at cwd ctx X st st' = pass_at cwd ctx Y st st'"
proof -
  have "{(r, c). r \<in> X \<and> c \<noteq> [] \<and> file_at (ft_fs st) (area cwd ctx ''new'' @ r) c}
      = {(r, c). r \<in> Y \<and> c \<noteq> [] \<and> file_at (ft_fs st) (area cwd ctx ''new'' @ r) c}"
    using assms by auto
  moreover have "moved cwd ctx X (ft_fs st) (ft_fs st') = moved cwd ctx Y (ft_fs st) (ft_fs st')"
    by (simp add: moved_def assms cong: imp_cong)
  ultimately show ?thesis by (simp add: pass_at_def transmitted_def)
qed

lemma transmitted_insert:
  assumes "transmitted cwd ctx fs X ws" "r \<notin> X" "file_at fs (area cwd ctx ''new'' @ r) c" "c \<noteq> []"
    and "transmission ctx (r, c) w"
  shows "transmitted cwd ctx fs (insert r X) (ws @ w)"
proof -
  obtain log wss where l: "ws = concat wss" "list_all2 (transmission ctx) log wss" "distinct (map fst log)"
    "set log = {(r, c). r \<in> X \<and> c \<noteq> [] \<and> file_at fs (area cwd ctx ''new'' @ r) c}"
    using assms(1) by (auto simp: transmitted_def)
  have "ws @ w = concat (wss @ [w])" "list_all2 (transmission ctx) (log @ [(r, c)]) (wss @ [w])"
    "distinct (map fst (log @ [(r, c)]))"
    "set (log @ [(r, c)]) = {(r', c). r' \<in> insert r X \<and> c \<noteq> [] \<and> file_at fs (area cwd ctx ''new'' @ r') c}"
    using l assms by (auto intro: list_all2_appendI)
  then show ?thesis unfolding transmitted_def by blast
qed


section \<open>Facts of a tidy directory\<close>

lemma tidyD:
  assumes "tidy cwd ctx fs"
  shows "\<And>p n. fs_get fs (p @ [n]) \<noteq> None \<Longrightarrow> is_dir fs p"
    and "is_dir fs (area cwd ctx ''new'')" and "is_dir fs (area cwd ctx ''processing'')"
    and "is_dir fs (area cwd ctx ''done'')"
    and "\<And>r. fs_get fs (area cwd ctx ''new'' @ r) \<noteq> None \<Longrightarrow> \<forall>d \<in> set r. proper d"
    and "\<And>r c. is_dir fs (area cwd ctx ''new'' @ r) \<Longrightarrow> \<not> file_at fs (area cwd ctx ''processing'' @ r) c"
    and "\<And>r c. is_dir fs (area cwd ctx ''new'' @ r) \<Longrightarrow> \<not> file_at fs (area cwd ctx ''done'' @ r) c"
    and "\<And>r c. file_at fs (area cwd ctx ''new'' @ r) c \<Longrightarrow> fs_get fs (area cwd ctx ''processing'' @ r) \<noteq> Some Dir"
    and "\<And>r c. file_at fs (area cwd ctx ''new'' @ r) c \<Longrightarrow> fs_get fs (area cwd ctx ''done'' @ r) \<noteq> Some Dir"
  using assms unfolding tidy_def by blast+

lemma area_nonempty [simp]: "area cwd ctx sub @ r \<noteq> []" "area cwd ctx sub \<noteq> []"
  by (simp_all add: area_def)

lemma is_dir_area: "is_dir fs (area cwd ctx sub @ r) \<longleftrightarrow> fs_get fs (area cwd ctx sub @ r) = Some Dir"
  by (simp add: is_dir_def)

lemma is_dir_prefix:
  assumes "tidy cwd ctx fs" and "fs_get fs (p @ s) \<noteq> None" and "s \<noteq> []"
  shows "is_dir fs p"
  using assms(2,3)
proof (induction s rule: rev_induct)
  case (snoc n s)
  then have "is_dir fs (p @ s)" using tidyD(1) [OF assms(1), of "p @ s" n] by simp
  then show ?case using snoc.IH by (cases "s = []") (auto simp: is_dir_def)
qed simp

lemma is_dir_prefix_dir: "tidy cwd ctx fs \<Longrightarrow> is_dir fs (p @ s) \<Longrightarrow> is_dir fs p"
  using is_dir_prefix [of cwd ctx fs p s] by (cases "s = []") (auto simp: is_dir_def)

text \<open>The prefixes of a path below an area: above the area they are directories that exist.\<close>

lemma prefix_area:
  assumes "prefix q (area cwd ctx sub @ ds)"
  obtains r where "q = area cwd ctx sub @ r" "prefix r ds" | "prefix q (area cwd ctx sub)"
  using assms by (auto simp: prefix_append)

lemma areas_dir:
  assumes "tidy cwd ctx fs" and "prefix q (area cwd ctx sub)" and "sub \<in> {''new'', ''processing'', ''done''}"
  shows "is_dir fs q"
proof -
  obtain s where s: "area cwd ctx sub = q @ s" using assms(2) by (auto simp: prefix_def)
  have "is_dir fs (q @ s)" using assms(3) tidyD(2-4) [OF assms(1)] by (auto simp: s [symmetric])
  then show ?thesis by (rule is_dir_prefix_dir [OF assms(1)])
qed

section \<open>One step\<close>

lemma moved_frame:
  assumes "moved cwd ctx X fs fs'"
    and "\<And>r c. file_at fs (area cwd ctx ''new'' @ r) c \<Longrightarrow> r \<in> X \<Longrightarrow>
      q \<noteq> area cwd ctx ''new'' @ r \<and> q \<noteq> area cwd ctx ''processing'' @ r \<and> q \<noteq> area cwd ctx ''done'' @ r"
  shows "fs_get fs' q = fs_get fs q \<or> fs_get fs q = None \<and> fs_get fs' q = Some Dir \<and>
     (\<exists>ds. is_dir fs (area cwd ctx ''new'' @ ds) \<and>
        (q = area cwd ctx ''processing'' @ ds \<or> q = area cwd ctx ''done'' @ ds))"
  by (rule conjunct2 [OF assms(1) [unfolded moved_def], rule_format]) (rule assms(2))

lemma moved_files:
  assumes "moved cwd ctx X fs fs'" and "file_at fs (area cwd ctx ''new'' @ r) c" and "r \<in> X"
  shows "fs_get fs' (area cwd ctx ''new'' @ r) = None"
    and "c = [] \<Longrightarrow> file_at fs' (area cwd ctx ''processing'' @ r) []"
    and "c \<noteq> [] \<Longrightarrow> fs_get fs' (area cwd ctx ''processing'' @ r) = None"
    and "c \<noteq> [] \<Longrightarrow> file_at fs' (area cwd ctx ''done'' @ r) c"
  using conjunct1 [OF assms(1) [unfolded moved_def], rule_format, OF assms(2,3)] by auto

lemma moved_new:
  assumes "moved cwd ctx X fs fs'"
  shows "fs_get fs' (area cwd ctx ''new'' @ r) =
    (if r \<in> X \<and> (\<exists>c. file_at fs (area cwd ctx ''new'' @ r) c) then None else fs_get fs (area cwd ctx ''new'' @ r))"
proof (cases "r \<in> X \<and> (\<exists>c. file_at fs (area cwd ctx ''new'' @ r) c)")
  case True
  then show ?thesis using moved_files(1) [OF assms] by auto
next
  case False
  then show ?thesis using moved_frame [OF assms, of "area cwd ctx ''new'' @ r"] by auto
qed

lemma moved_keeps_dir:
  assumes t: "tidy cwd ctx fs" and m: "moved cwd ctx X fs fs'" and d: "fs_get fs q = Some Dir"
  shows "fs_get fs' q = Some Dir"
  using moved_frame [OF m, of q] tidyD(8,9) [OF t] d by fastforce

lemma moved_dirs:
  assumes t: "tidy cwd ctx fs" and m: "moved cwd ctx X fs fs'" and d: "is_dir fs (area cwd ctx ''new'' @ ds)"
    and sub: "sub \<in> {''processing'', ''done''}"
  shows "clear_way fs' (area cwd ctx sub @ ds)"
proof -
  have "fs_get fs' q = Some Dir" if q: "prefix q (area cwd ctx sub @ ds)" "q \<noteq> []" "fs_get fs' q \<noteq> None" for q
  proof -
    obtain r where "q = area cwd ctx sub @ r \<and> prefix r ds \<or> prefix q (area cwd ctx sub)"
      using q(1) by (auto simp: prefix_append)
    then show ?thesis
    proof (elim disjE conjE)
      assume r: "q = area cwd ctx sub @ r" "prefix r ds"
      then have dr: "is_dir fs (area cwd ctx ''new'' @ r)"
        using d is_dir_prefix_dir [OF t, of "area cwd ctx ''new'' @ r"] by (auto simp: prefix_def)
      then have "\<not> file_at fs q c" for c using tidyD(6,7) [OF t dr] sub r(1) by auto
      moreover have "fs_get fs' q = fs_get fs q \<or> fs_get fs' q = Some Dir"
      proof -
        have "r \<noteq> r'" if "file_at fs (area cwd ctx ''new'' @ r') c" for r' c
          using dr that by (auto simp: is_dir_area)
        then show ?thesis using moved_frame [OF m, of q] sub unfolding r(1) by fastforce
      qed
      ultimately show ?thesis using q(3) by (metis node.exhaust option.exhaust)
    next
      assume "prefix q (area cwd ctx sub)"
      then have "fs_get fs q = Some Dir" using areas_dir [OF t] sub q(2) by (auto simp: is_dir_def)
      then show ?thesis by (rule moved_keeps_dir [OF t m])
    qed
  qed
  then show ?thesis by (auto simp: clear_way_def)
qed

lemma moved_insert:
  assumes m: "moved cwd ctx X fs0 fs" and here: "file_at fs0 (area cwd ctx ''new'' @ r) c"
    and new: "fs_get fs' (area cwd ctx ''new'' @ r) = None"
    and stuck: "c = [] \<Longrightarrow> file_at fs' (area cwd ctx ''processing'' @ r) []"
    and sent: "c \<noteq> [] \<Longrightarrow> fs_get fs' (area cwd ctx ''processing'' @ r) = None"
      "c \<noteq> [] \<Longrightarrow> file_at fs' (area cwd ctx ''done'' @ r) c"
    and frame: "\<And>q. q \<noteq> area cwd ctx ''new'' @ r \<Longrightarrow> q \<noteq> area cwd ctx ''processing'' @ r \<Longrightarrow>
      q \<noteq> area cwd ctx ''done'' @ r \<Longrightarrow> fs_get fs' q = fs_get fs q \<or>
      fs_get fs q = None \<and> fs_get fs' q = Some Dir \<and>
      (\<exists>ds. is_dir fs0 (area cwd ctx ''new'' @ ds) \<and> q = area cwd ctx ''done'' @ ds)"
  shows "moved cwd ctx (insert r X) fs0 fs'"
proof -
  have "fs_get fs' (area cwd ctx ''new'' @ r') = None \<and>
        (if c' = [] then file_at fs' (area cwd ctx ''processing'' @ r') []
         else fs_get fs' (area cwd ctx ''processing'' @ r') = None \<and> file_at fs' (area cwd ctx ''done'' @ r') c')"
    if f: "file_at fs0 (area cwd ctx ''new'' @ r') c'" "r' \<in> insert r X" for r' c'
  proof (cases "r' = r")
    case True
    then show ?thesis using f(1) here new stuck sent by auto
  next
    case False
    then have "r' \<in> X" using f(2) by simp
    note old = moved_files [OF m f(1) this]
    have "fs_get fs' (area cwd ctx sub @ r') = fs_get fs (area cwd ctx sub @ r')"
      if "sub = ''new'' \<or> sub = ''processing''" for sub
      using frame [of "area cwd ctx sub @ r'"] False that by auto
    moreover have "file_at fs (area cwd ctx ''done'' @ r') c' \<Longrightarrow> file_at fs' (area cwd ctx ''done'' @ r') c'"
      using frame [of "area cwd ctx ''done'' @ r'"] False by auto
    ultimately show ?thesis using old by simp
  qed
  moreover have "fs_get fs' q = fs_get fs0 q \<or> fs_get fs0 q = None \<and> fs_get fs' q = Some Dir \<and>
      (\<exists>ds. is_dir fs0 (area cwd ctx ''new'' @ ds) \<and>
        (q = area cwd ctx ''processing'' @ ds \<or> q = area cwd ctx ''done'' @ ds))"
    if q: "\<forall>r' c. file_at fs0 (area cwd ctx ''new'' @ r') c \<longrightarrow> r' \<in> insert r X \<longrightarrow>
      q \<noteq> area cwd ctx ''new'' @ r' \<and> q \<noteq> area cwd ctx ''processing'' @ r' \<and> q \<noteq> area cwd ctx ''done'' @ r'" for q
  proof -
    have "q \<noteq> area cwd ctx ''new'' @ r" "q \<noteq> area cwd ctx ''processing'' @ r" "q \<noteq> area cwd ctx ''done'' @ r"
      using q here by auto
    note step = frame [OF this]
    have "fs_get fs q = fs_get fs0 q \<or> fs_get fs0 q = None \<and> fs_get fs q = Some Dir \<and>
      (\<exists>ds. is_dir fs0 (area cwd ctx ''new'' @ ds) \<and>
        (q = area cwd ctx ''processing'' @ ds \<or> q = area cwd ctx ''done'' @ ds))"
      using q by (intro moved_frame [OF m]) blast
    then show ?thesis using step by auto
  qed
  ultimately show ?thesis unfolding moved_def by blast
qed

lemma sendFile_empty:
  assumes std: "std_context ctx" and nm: "proper name" "\<forall>d \<in> set ds. proper d"
    and here: "file_at (ft_fs st) (area cwd ctx ''processing'' @ ds @ [name]) []"
  shows "\<exists>es. sendFile cwd px e ctx \<lparr>fiName = name, fiPath = rel_path ds, fiSize = sz\<rparr> st
    = (emit es st, Ret (Some ''empty file''))"
proof -
  have "resolve cwd (path_Join [basedir ctx, processingdir ctx, rel_path ds, name])
      = area cwd ctx ''processing'' @ ds @ [name]"
    using area_file(1) [OF std _ nm(2,1), of "''processing''"] std_contextD [OF std] by simp
  then show ?thesis using here by (simp add: sendFile_def calcHash_def Let_def) (rule exI, rule refl)
qed

lemma not_dir_after:
  assumes "tidy cwd ctx fs0" and m: "moved cwd ctx X fs0 fs"
    and f: "file_at fs0 (area cwd ctx ''new'' @ r) c" "r \<notin> X" and sub: "sub \<in> {''processing'', ''done''}"
  shows "fs_get fs (area cwd ctx sub @ r) \<noteq> Some Dir"
proof -
  have "\<not> is_dir fs0 (area cwd ctx ''new'' @ r)" using f(1) by (simp add: is_dir_area)
  then show ?thesis
    using moved_frame [OF m, of "area cwd ctx sub @ r"] tidyD(8,9) [OF assms(1) f(1)] f(2) sub by fastforce
qed

lemma new_dir_place:
  assumes t: "tidy cwd ctx fs0" and m: "moved cwd ctx X fs0 fs" and d: "is_dir fs0 (area cwd ctx ''new'' @ ds)"
    and sub: "sub \<in> {''processing'', ''done''}"
    and none: "fs_get fs q = None" and q: "prefix q (area cwd ctx sub @ ds)" "q \<noteq> []"
  shows "\<exists>ds. is_dir fs0 (area cwd ctx ''new'' @ ds) \<and> q = area cwd ctx sub @ ds"
proof -
  obtain r where "q = area cwd ctx sub @ r \<and> prefix r ds \<or> prefix q (area cwd ctx sub)"
    using q(1) by (auto simp: prefix_append)
  moreover have "is_dir fs0 (area cwd ctx ''new'' @ r)" if "prefix r ds" for r
    using d is_dir_prefix_dir [OF t, of "area cwd ctx ''new'' @ r"] that by (auto simp: prefix_def)
  moreover have "\<not> prefix q (area cwd ctx sub)"
    using areas_dir [OF t, of q sub] moved_keeps_dir [OF t m, of q] q(2) none sub by (auto simp: is_dir_def)
  ultimately show ?thesis by blast
qed

lemma moved_mkdir:
  assumes t: "tidy cwd ctx fs0" and m: "moved cwd ctx X fs0 fs" and d: "is_dir fs0 (area cwd ctx ''new'' @ ds)"
  shows "moved cwd ctx X fs0 (MkdirAll (area cwd ctx ''processing'' @ ds) fs)"
    (is "moved _ _ _ _ ?fs")
proof -
  have new: "fs_get ?fs q = fs_get fs q \<or> fs_get fs q = None \<and> fs_get ?fs q = Some Dir \<and>
      (\<exists>ds. is_dir fs0 (area cwd ctx ''new'' @ ds) \<and> q = area cwd ctx ''processing'' @ ds)" for q
    using MkdirAll_get [of "area cwd ctx ''processing'' @ ds" fs q]
      new_dir_place [OF t m d, of "''processing''" q] by auto
  have "fs_get ?fs (area cwd ctx sub @ r) = fs_get fs (area cwd ctx sub @ r)"
    if "file_at fs0 (area cwd ctx ''new'' @ r) c" for sub r c
    using new [of "area cwd ctx sub @ r"] that by (auto simp: is_dir_area)
  then have "fs_get ?fs (area cwd ctx ''new'' @ r) = None \<and>
        (if c = [] then file_at ?fs (area cwd ctx ''processing'' @ r) []
         else fs_get ?fs (area cwd ctx ''processing'' @ r) = None \<and> file_at ?fs (area cwd ctx ''done'' @ r) c)"
    if "file_at fs0 (area cwd ctx ''new'' @ r) c" "r \<in> X" for r c
    using moved_files [OF m that] that by simp
  moreover have "fs_get ?fs q = fs_get fs0 q \<or> fs_get fs0 q = None \<and> fs_get ?fs q = Some Dir \<and>
      (\<exists>ds. is_dir fs0 (area cwd ctx ''new'' @ ds) \<and>
        (q = area cwd ctx ''processing'' @ ds \<or> q = area cwd ctx ''done'' @ ds))"
    if q: "\<forall>r c. file_at fs0 (area cwd ctx ''new'' @ r) c \<longrightarrow> r \<in> X \<longrightarrow>
      q \<noteq> area cwd ctx ''new'' @ r \<and> q \<noteq> area cwd ctx ''processing'' @ r \<and> q \<noteq> area cwd ctx ''done'' @ r" for q
  proof -
    have "fs_get fs q = fs_get fs0 q \<or> fs_get fs0 q = None \<and> fs_get fs q = Some Dir \<and>
      (\<exists>ds. is_dir fs0 (area cwd ctx ''new'' @ ds) \<and>
        (q = area cwd ctx ''processing'' @ ds \<or> q = area cwd ctx ''done'' @ ds))"
      using q by (intro moved_frame [OF m]) blast
    then show ?thesis using new [of q] by auto
  qed
  ultimately show ?thesis unfolding moved_def by blast
qed

lemma process_file:
  assumes std: "std_context ctx" and t: "tidy cwd ctx (ft_fs st0)" and e: "healthy (env (rel_path ds) n)"
    and p: "pass_at cwd ctx X st0 st"
    and f: "file_at (ft_fs st0) (area cwd ctx ''new'' @ ds @ [n]) c" "ds @ [n] \<notin> X"
    and dir: "is_dir (ft_fs st) (area cwd ctx ''processing'' @ ds)"
  shows "\<exists>st'. process_infos cwd px env ctx k (rel_path ds) ((n, File c) # infos) st
      = process_infos cwd px env ctx k (rel_path ds) infos st'
    \<and> pass_at cwd ctx (insert (ds @ [n]) X) st0 st'
    \<and> (\<forall>q. is_dir (ft_fs st) q \<longrightarrow> is_dir (ft_fs st') q)"
proof -
  note ctx = std_contextD [OF std]
  let ?r = "ds @ [n]" and ?fs = "ft_fs st"
  have nm: "proper n" "\<forall>d \<in> set ds. proper d" using tidyD(5) [OF t, of ?r] f(1) by auto
  obtain ws0 where m: "moved cwd ctx X (ft_fs st0) ?fs"
    and w0: "wire st = wire st0 @ ws0" "transmitted cwd ctx (ft_fs st0) X ws0"
    using p by (auto simp: pass_at_def)
  have dn: "is_dir (ft_fs st0) (area cwd ctx ''new'' @ ds)"
    using tidyD(1) [OF t, of "area cwd ctx ''new'' @ ds" n] f(1) by simp
  have here: "file_at ?fs (area cwd ctx ''new'' @ ?r) c" using moved_new [OF m, of ?r] f by simp
  have nodir: "fs_get ?fs (area cwd ctx ''processing'' @ ?r) \<noteq> Some Dir" "fs_get ?fs (area cwd ctx ''done'' @ ?r) \<noteq> Some Dir"
    using not_dir_after [OF t m f] by simp_all
  define fsA where "fsA = fs_put (area cwd ctx ''processing'' @ ?r) (File c) (fs_del (area cwd ctx ''new'' @ ?r) ?fs)"
  have ren: "Rename (area cwd ctx ''new'' @ ?r) (area cwd ctx ''processing'' @ ?r) ?fs = Some fsA"
    using here dir nodir by (simp add: Rename_def fsA_def butlast_append del: append_assoc add: append_assoc [symmetric])
  define stA where "stA = emit [Notified ''filetransfer.request''] (st\<lparr>ft_fs := fsA\<rparr>)"
  let ?info = "\<lparr>fiName = n, fiPath = rel_path ds, fiSize = int (length c)\<rparr>"
  have step: "process_infos cwd px env ctx k (rel_path ds) ((n, File c) # infos) st
      = process_infos cwd px env ctx k (rel_path ds) infos st'"
    if "sendFile cwd px (env (rel_path ds) n) ctx ?info stA = (st', Ret x)" for st' x
    using area_file(2) [OF std _ nm(2,1), of "''new''" cwd] area_file(2) [OF std _ nm(2,1), of "''processing''" cwd]
      ctx healthyD(1) [OF e] ren that
    by (simp add: stA_def)
  show ?thesis
  proof (cases "c = []")
    case True
    obtain es where "sendFile cwd px (env (rel_path ds) n) ctx ?info stA = (emit es stA, Ret (Some ''empty file''))"
      using sendFile_empty [OF std nm, of stA cwd px "env (rel_path ds) n" "int (length c)"] True
      by (auto simp: stA_def fsA_def)
    moreover have "moved cwd ctx (insert ?r X) (ft_fs st0) fsA"
      by (rule moved_insert [OF m f(1)]) (simp_all add: fsA_def True)
    moreover have "{(r, c). r \<in> X \<and> c \<noteq> [] \<and> file_at (ft_fs st0) (area cwd ctx ''new'' @ r) c}
        = {(r, c). r \<in> insert ?r X \<and> c \<noteq> [] \<and> file_at (ft_fs st0) (area cwd ctx ''new'' @ r) c}"
      using f(1) True by auto
    ultimately show ?thesis using w0 step nodir here
      by (intro exI [of _ "emit es stA"]) (auto simp: pass_at_def stA_def transmitted_def fsA_def is_dir_def)
  next
    case False
    have "file_at (ft_fs stA) (area cwd ctx ''processing'' @ ds @ [n]) c" by (simp add: stA_def fsA_def)
    moreover have "clear_way (ft_fs stA) (area cwd ctx ''done'' @ ds)"
    proof -
      have "fs_get fsA q = fs_get ?fs q" if "prefix q (area cwd ctx ''done'' @ ds)" for q
        using that by (auto simp: fsA_def prefix_def)
      then show ?thesis using moved_dirs [OF t m dn, of "''done''"] by (simp add: clear_way_def stA_def)
    qed
    moreover have "fs_get (ft_fs stA) (area cwd ctx ''done'' @ ds @ [n]) \<noteq> Some Dir"
      using nodir(2) by (simp add: stA_def fsA_def)
    ultimately obtain st' ps where st': "sendFile cwd px (env (rel_path ds) n) ctx ?info stA = (st', Ret None)"
      "ft_fs st' = fs_put (area cwd ctx ''done'' @ ?r) (File c) (fs_del (area cwd ctx ''processing'' @ ?r)
          (MkdirAll (area cwd ctx ''done'' @ ds) fsA))"
      and w: "wire st' = wire stA @ Packet (text_packet (header_text n (rel_path ds) (int (length c)) (sha256 c)))
        # concat (map (paced ctx) ps) @ [Packet (text_packet footer_text), Pause 1]"
      "map packet_data ps = pieces None c" "map packet_seq ps = count_from 0 (length ps)"
      "\<forall>p \<in> set ps. length p = 1200"
      using sendFile_ok [OF std healthy_sends [OF e] nm _ False, of stA cwd px "int (length c)"] healthyD(5) [OF e]
      by (auto simp: stA_def)
    have tr: "transmission ctx (?r, c) (Packet (text_packet (header_text n (rel_path ds) (int (length c)) (sha256 c)))
        # concat (map (paced ctx) ps) @ [Packet (text_packet footer_text), Pause 1])"
      using w(2-4) by (auto simp: transmission_def)
    have frame: "fs_get (ft_fs st') q = fs_get ?fs q \<or> fs_get ?fs q = None \<and> fs_get (ft_fs st') q = Some Dir \<and>
        (\<exists>ds. is_dir (ft_fs st0) (area cwd ctx ''new'' @ ds) \<and> q = area cwd ctx ''done'' @ ds)"
      if q: "q \<noteq> area cwd ctx ''new'' @ ?r" "q \<noteq> area cwd ctx ''processing'' @ ?r" "q \<noteq> area cwd ctx ''done'' @ ?r" for q
      using new_dir_place [OF t m dn, of "''done''" q] MkdirAll_get [of "area cwd ctx ''done'' @ ds" fsA q] q
      by (auto simp: st'(2) fsA_def)
    have "moved cwd ctx (insert ?r X) (ft_fs st0) (ft_fs st')"
    proof (rule moved_insert [OF m f(1) _ _ _ _ frame])
      have "fs_get (MkdirAll (area cwd ctx ''done'' @ ds) fsA) (area cwd ctx ''new'' @ ?r) = None"
        using MkdirAll_outside [of "area cwd ctx ''new'' @ ?r" "area cwd ctx ''done'' @ ds" fsA]
        by (auto simp: fsA_def prefix_def)
      then show "fs_get (ft_fs st') (area cwd ctx ''new'' @ ?r) = None" by (simp add: st'(2))
    qed (simp_all add: st'(2) False)
    moreover have "is_dir (ft_fs st') q" if "is_dir ?fs q" for q
      using that nodir here frame [of q] unfolding is_dir_def by fastforce
    ultimately show ?thesis
      using step [OF st'(1)] transmitted_insert [OF w0(2) f(2,1) False tr] w0(1) w(1)
      by (intro exI [of _ st']) (auto simp: pass_at_def stA_def)
  qed
qed

section \<open>The whole pass\<close>

lemma ReadDir_entry:
  assumes "(n, x) \<in> set (ReadDir fs d)"
  shows "fs_get fs (d @ [n]) = Some x"
  using assms set_children [of n fs d] by (auto simp: ReadDir_def split: if_splits option.splits)

lemma distinct_ReadDir: "distinct (map fst (ReadDir fs d))"
  by (simp add: ReadDir_def comp_def distinct_children)

lemma ReadDir_all:
  assumes "is_dir fs d" and "fs_get fs (d @ [n]) \<noteq> None"
  shows "n \<in> fst ` set (ReadDir fs d)"
  using assms set_children [of n fs d] by (force simp: ReadDir_def)

definition below :: "path \<Rightarrow> path set" where
  "below ds = {r. prefix ds r}"

lemma below_snoc: "ds @ [n] \<in> below (ds @ [m]) \<longleftrightarrow> n = m"
  by (auto simp: below_def)

text \<open>A pass over a part: every state it goes through keeps the directories it found.\<close>

definition done_part :: "path \<Rightarrow> ft_context \<Rightarrow> ft_state \<Rightarrow> path set \<Rightarrow> ft_state \<Rightarrow> ft_state \<times> unit outcome \<Rightarrow> bool" where
  "done_part cwd ctx st0 X st res \<longleftrightarrow> (\<exists>st'. res = (st', Ret ()) \<and> pass_at cwd ctx X st0 st' \<and>
     (\<forall>q. is_dir (ft_fs st) q \<longrightarrow> is_dir (ft_fs st') q))"

lemma process_infos_part:
  assumes std: "std_context ctx" and t: "tidy cwd ctx (ft_fs st0)" and e: "\<And>d n. healthy (env d n)"
    and sub: "\<And>n X st. fs_get (ft_fs st0) (area cwd ctx ''new'' @ ds @ [n]) = Some Dir \<Longrightarrow>
      pass_at cwd ctx X st0 st \<Longrightarrow>
      done_part cwd ctx st0 (X \<union> below (ds @ [n])) st (processDirectory cwd px env ctx k (rel_path (ds @ [n])) st)"
    and p: "pass_at cwd ctx X st0 st" and dir: "is_dir (ft_fs st) (area cwd ctx ''processing'' @ ds)"
    and infos: "distinct (map fst infos)"
      "\<And>n x. (n, x) \<in> set infos \<Longrightarrow> fs_get (ft_fs st0) (area cwd ctx ''new'' @ ds @ [n]) = Some x"
      "\<And>n c. (n, File c) \<in> set infos \<Longrightarrow> ds @ [n] \<notin> X"
  shows "done_part cwd ctx st0 (X \<union> (\<Union>n \<in> fst ` set infos. below (ds @ [n]))) st
    (process_infos cwd px env ctx k (rel_path ds) infos st)"
  using p dir infos
proof (induction infos arbitrary: X st)
  case Nil
  then show ?case by (simp add: done_part_def)
next
  case (Cons i infos)
  obtain n x where i: "i = (n, x)" by fastforce
  have x: "fs_get (ft_fs st0) (area cwd ctx ''new'' @ ds @ [n]) = Some x" using Cons.prems(4) i by simp
  have fresh: "(n, y) \<notin> set infos" for y using Cons.prems(3) i by force
  have goon: "done_part cwd ctx st0 (X \<union> (\<Union>n \<in> fst ` set (i # infos). below (ds @ [n]))) st
      (process_infos cwd px env ctx k (rel_path ds) infos st')"
    if st': "pass_at cwd ctx (X \<union> below (ds @ [n])) st0 st'" "\<forall>q. is_dir (ft_fs st) q \<longrightarrow> is_dir (ft_fs st') q" for st'
  proof -
    have "done_part cwd ctx st0 (X \<union> below (ds @ [n]) \<union> (\<Union>n \<in> fst ` set infos. below (ds @ [n]))) st'
        (process_infos cwd px env ctx k (rel_path ds) infos st')"
      using Cons.prems i fresh by (intro Cons.IH st'(1)) (auto simp: st'(2) below_snoc)
    then show ?thesis using st'(2) i by (auto simp: done_part_def Un_assoc)
  qed
  show ?case
  proof (cases x)
    case (File c)
    obtain st' where st': "process_infos cwd px env ctx k (rel_path ds) (i # infos) st
          = process_infos cwd px env ctx k (rel_path ds) infos st'"
        "pass_at cwd ctx (insert (ds @ [n]) X) st0 st'" "\<forall>q. is_dir (ft_fs st) q \<longrightarrow> is_dir (ft_fs st') q"
      using process_file [where px = px and k = k and infos = infos and env = env,
          OF std t e Cons.prems(1) x [unfolded File] _ Cons.prems(2)] Cons.prems(5) i File by auto
    have "r = ds @ [n]" if bel: "r \<in> below (ds @ [n])" and fil: "file_at (ft_fs st0) (area cwd ctx ''new'' @ r) c'" for r c'
    proof (rule ccontr)
      assume "r \<noteq> ds @ [n]"
      then obtain s where "r = (ds @ [n]) @ s" "s \<noteq> []" using bel by (auto simp: below_def prefix_def)
      then show False
        using is_dir_prefix [OF t, of "area cwd ctx ''new'' @ ds @ [n]" s] fil x File
        by (simp add: is_dir_def)
    qed
    moreover have "ds @ [n] \<in> below (ds @ [n])" by (simp add: below_def)
    ultimately have "pass_at cwd ctx (X \<union> below (ds @ [n])) st0 st'"
      using st'(2) by (subst pass_at_cong [of _ _ _ _ "insert (ds @ [n]) X"]) blast+
    then show ?thesis using goon st'(1,3) by simp
  next
    case Dir
    have nm: "\<forall>d \<in> set ds. proper d" "proper n" using tidyD(5) [OF t, of "ds @ [n]"] x by auto
    obtain st' where "processDirectory cwd px env ctx k (rel_path (ds @ [n])) st = (st', Ret ())"
        "pass_at cwd ctx (X \<union> below (ds @ [n])) st0 st'" "\<forall>q. is_dir (ft_fs st) q \<longrightarrow> is_dir (ft_fs st') q"
      using sub [OF x [unfolded Dir] Cons.prems(1)] by (auto simp: done_part_def)
    then show ?thesis using goon by (simp add: i Dir rel_path_Join [OF nm])
  qed
qed

lemma processDirectory_part:
  assumes std: "std_context ctx" and t: "tidy cwd ctx (ft_fs st0)" and e: "\<And>d n. healthy (env d n)"
    and "fs_get (ft_fs st0) (area cwd ctx ''new'' @ ds) = Some Dir"
    and "\<And>r. fs_get (ft_fs st0) (area cwd ctx ''new'' @ ds @ r) = Some Dir \<Longrightarrow> length r < k"
    and "pass_at cwd ctx X st0 st"
  shows "done_part cwd ctx st0 (X \<union> below ds) st (processDirectory cwd px env ctx k (rel_path ds) st)"
  using assms(4-)
proof (induction k arbitrary: ds X st)
  case 0
  then show ?case by (metis append_Nil2 not_less_zero)
next
  case (Suc k)
  note ctx = std_contextD [OF std]
  let ?fs0 = "ft_fs st0"
  define fs where "fs = MkdirAll (area cwd ctx ''processing'' @ ds) (ft_fs st)"
  define st1 where "st1 = st\<lparr>ft_fs := fs\<rparr>"
  define infos where "infos = ReadDir fs (area cwd ctx ''new'' @ ds)"
  have m0: "moved cwd ctx X ?fs0 (ft_fs st)" using Suc.prems(3) by (simp add: pass_at_def)
  have d: "is_dir ?fs0 (area cwd ctx ''new'' @ ds)" using Suc.prems(1) by (simp add: is_dir_def)
  have m: "moved cwd ctx X ?fs0 fs" unfolding fs_def by (rule moved_mkdir [OF t m0 d])
  have p: "pass_at cwd ctx X st0 st1" using Suc.prems(3) m by (simp add: pass_at_def st1_def)
  have nm: "\<forall>d \<in> set ds. proper d" using tidyD(5) [OF t] Suc.prems(1) by blast
  have pd: "processDirectory cwd px env ctx (Suc k) (rel_path ds) st
      = process_infos cwd px env ctx k (rel_path ds) infos st1"
    using area_dir(1) [OF std _ nm, of "''new''" cwd] area_dir(1) [OF std _ nm, of "''processing''" cwd] ctx
    by (simp add: Let_def st1_def infos_def fs_def)
  have entry: "fs_get fs (area cwd ctx ''new'' @ ds @ [n]) = Some x" if "(n, x) \<in> set infos" for n x
    using ReadDir_entry that unfolding infos_def by fastforce
  have old: "fs_get ?fs0 (area cwd ctx ''new'' @ ds @ [n]) = Some x" "x = File c \<Longrightarrow> ds @ [n] \<notin> X"
    if "(n, x) \<in> set infos" for n x c
    using entry [OF that] moved_new [OF m, of "ds @ [n]"] by (auto split: if_splits)
  have part: "done_part cwd ctx st0 (X \<union> (\<Union>n \<in> fst ` set infos. below (ds @ [n]))) st1
      (process_infos cwd px env ctx k (rel_path ds) infos st1)"
  proof (rule process_infos_part [OF std t e _ p])
    show "done_part cwd ctx st0 (X \<union> below (ds @ [n])) st (processDirectory cwd px env ctx k (rel_path (ds @ [n])) st)"
      if "fs_get ?fs0 (area cwd ctx ''new'' @ ds @ [n]) = Some Dir" "pass_at cwd ctx X st0 st" for n X st
      using that Suc.prems(2) [of "n # _"] by (intro Suc.IH) auto
    show "is_dir (ft_fs st1) (area cwd ctx ''processing'' @ ds)"
      using MkdirAll_makes [OF moved_dirs [OF t m0 d, of "''processing''"]] by (simp add: st1_def fs_def)
    show "distinct (map fst infos)" by (simp add: infos_def distinct_ReadDir)
  qed (use old in blast)+
  have covered: "r \<in> X \<union> (\<Union>n \<in> fst ` set infos. below (ds @ [n])) \<longleftrightarrow> r \<in> X \<union> below ds"
    if f: "file_at ?fs0 (area cwd ctx ''new'' @ r) c" for r c
  proof -
    have "r \<in> X \<or> (\<exists>n \<in> fst ` set infos. prefix (ds @ [n]) r)" if pre: "prefix ds r"
    proof (cases "r \<in> X")
      case False
      obtain s where s: "r = ds @ s" using pre by (auto simp: prefix_def)
      then obtain n s' where s': "s = n # s'" using f Suc.prems(1) by (cases s) auto
      have "fs_get ?fs0 (area cwd ctx ''new'' @ ds @ [n]) = Some (if s' = [] then File c else Dir)"
        using is_dir_prefix [OF t, of "area cwd ctx ''new'' @ ds @ [n]" s'] f by (auto simp: s s' is_dir_def)
      then have "fs_get fs (area cwd ctx ''new'' @ ds @ [n]) \<noteq> None"
        using moved_new [OF m, of "ds @ [n]"] False by (auto simp: s s')
      then have "n \<in> fst ` set infos"
        using ReadDir_all [of fs "area cwd ctx ''new'' @ ds" n] moved_keeps_dir [OF t m Suc.prems(1)]
        by (simp add: infos_def is_dir_def)
      then show ?thesis by (auto simp: s s')
    qed simp
    then show ?thesis by (auto simp: below_def prefix_def)
  qed
  have same: "pass_at cwd ctx (X \<union> (\<Union>n\<in>fst ` set infos. below (ds @ [n]))) st0 st'
      = pass_at cwd ctx (X \<union> below ds) st0 st'" for st'
    by (rule pass_at_cong) (rule covered)
  have "is_dir (ft_fs st) q \<Longrightarrow> is_dir (ft_fs st1) q" for q
    using is_dir_MkdirAll by (simp add: st1_def fs_def)
  then show ?case
    using part unfolding pd done_part_def same by blast
qed

end
