(* ===== verification/TransferTheorems.thy ===== *)
theory TransferTheorems imports TransferPass begin

text \<open>
  The properties of the file transfer: what a receiver can rebuild from the packets of a file,
  what a pass over \<^verbatim>\<open>new\<close> achieves when nothing is refused, and what the code does when a read
  fails, a file is empty, or the modulus is zero.
\<close>

section \<open>A healthy transfer\<close>

text \<open>
  C1. When nothing is refused, \<^verbatim>\<open>sendFile\<close> of a non-empty file in \<^verbatim>\<open>processing\<close> puts on the wire one
  header packet, from which a receiver that splits at blanks reads the name, the directory, the
  size and the SHA-256 digest; data packets numbered from 0 whose payloads, concatenated, are the
  file's bytes, \<open>\<lceil>n/1192\<rceil> + 1\<close> of them; and one footer packet. Every packet has 1200 bytes, and
  the file ends up in \<^verbatim>\<open>done\<close> with the same bytes.
\<close>

theorem sendFile_delivers:
  assumes "std_context ctx" and "healthy e" and "proper name" and "\<forall>d \<in> set ds. proper d"
    and "clean_word name" and "clean_word (rel_path ds)"
    and "file_at (ft_fs st) (area cwd ctx ''processing'' @ ds @ [name]) c" and "c \<noteq> []"
    and "length (header_text name (rel_path ds) (int (length c)) (sha256 c)) \<le> 1200"
    and "clear_way (ft_fs st) (area cwd ctx ''done'' @ ds)"
    and "fs_get (ft_fs st) (area cwd ctx ''done'' @ ds @ [name]) \<noteq> Some Dir"
  shows "\<exists>st' ws head ps foot.
    sendFile cwd px e ctx \<lparr>fiName = name, fiPath = rel_path ds, fiSize = int (length c)\<rparr> st = (st', Ret None)
    \<and> wire st' = wire st @ ws \<and> packets ws = head # ps @ [foot]
    \<and> header_fields head = [''DD-FILETRANSFER'', ''BEGIN'', ''v2'', name, rel_path ds,
          fmt_d (int (length c)), fmt_x (sha256 c)]
    \<and> concat (map packet_data ps) = c \<and> map packet_seq ps = count_from 0 (length ps)
    \<and> length ps = (length c + 1191) div 1192 + 1
    \<and> read_text foot = ''DD-FILETRANSFER END v2''
    \<and> (\<forall>p \<in> set (packets ws). length p = 1200)
    \<and> fs_get (ft_fs st') (area cwd ctx ''processing'' @ ds @ [name]) = None
    \<and> file_at (ft_fs st') (area cwd ctx ''done'' @ ds @ [name]) c"
proof -
  let ?head = "text_packet (header_text name (rel_path ds) (int (length c)) (sha256 c))"
  obtain st' ps where r: "sendFile cwd px e ctx \<lparr>fiName = name, fiPath = rel_path ds, fiSize = int (length c)\<rparr> st
        = (st', Ret None)"
      "ft_fs st' = fs_put (area cwd ctx ''done'' @ ds @ [name]) (File c)
        (fs_del (area cwd ctx ''processing'' @ ds @ [name]) (MkdirAll (area cwd ctx ''done'' @ ds) (ft_fs st)))"
      "wire st' = wire st @ Packet ?head # concat (map (paced ctx) ps) @ [Packet (text_packet footer_text), Pause 1]"
      "map packet_data ps = pieces None c" "map packet_seq ps = count_from 0 (length ps)"
      "\<forall>p \<in> set ps. length p = 1200"
    using sendFile_ok [OF assms(1) healthy_sends [OF assms(2)] assms(3,4,7,8,10,11)] 
    unfolding healthyD(5) [OF assms(2)] by blast
  have "length ps = length (pieces None c)" using r(4) by (metis length_map)
  moreover have "header_fields ?head = [''DD-FILETRANSFER'', ''BEGIN'', ''v2'', name, rel_path ds,
      fmt_d (int (length c)), fmt_x (sha256 c)]"
    by (rule header_fields_text) (use assms in simp_all)
  moreover have "read_text (text_packet footer_text) = footer_text"
    by (rule read_text_packet) (simp_all add: footer_text_def)
  ultimately show ?thesis
    using r by (intro exI [of _ st'] exI [of _ "Packet ?head # concat (map (paced ctx) ps) @
          [Packet (text_packet footer_text), Pause 1]"] exI [of _ ?head] exI [of _ ps] exI [of _ "text_packet footer_text"])
      (auto simp: concat_pieces length_pieces footer_text_def)
qed

text \<open>A concrete directory for the witnesses: two files and an empty one, in a subdirectory.\<close>

definition scene_ctx :: ft_context where
  "scene_ctx = \<lparr>basedir = ''outgoing'', newdir = ''new'', processingdir = ''processing'', donedir = ''done'',
     modulus = 20, msdelay = 20\<rparr>"

definition scene_fs :: fsys where
  "scene_fs = [([''w''], Dir), ([''w'', ''outgoing''], Dir), ([''w'', ''outgoing'', ''new''], Dir),
     ([''w'', ''outgoing'', ''processing''], Dir), ([''w'', ''outgoing'', ''done''], Dir),
     ([''w'', ''outgoing'', ''new'', ''a''], File [65, 66]), ([''w'', ''outgoing'', ''new'', ''sub''], Dir),
     ([''w'', ''outgoing'', ''new'', ''sub'', ''b''], File []),
     ([''w'', ''outgoing'', ''processing'', ''p''], File [67])]"

definition scene_st :: ft_state where
  "scene_st = \<lparr>ft_fs = scene_fs, wire = [], events = []\<rparr>"

definition calm :: ft_env where
  "calm = \<lparr>new_refused = False, dial_err = None, hash_refused = False, open_err = None, read_fails = None,
     head_lost = False, lost = (\<lambda>_. False), foot_lost = False, done_refused = False, os_text = []\<rparr>"

definition scene_px :: DiodeProxy where
  "scene_px = \<lparr>dpID = 1, dpName = ''p'', dpDescription = [], EndpointIP = ''10.0.0.1'', EndpointMAC = [],
     MetaPort = 4356, DataPort = 4357, FilePort = 4358, DataChan = None, MetaChan = None, FileChan = None,
     DataCon = True, MetaCon = True, FileCon = True\<rparr>"

lemma resolve_outgoing: "resolve [''w''] ''outgoing'' = [''w'', ''outgoing'']"
  by (simp add: resolve_def os_base_def os_step_def is_drive_def is_sep_def is_slash_def is_backslash_def)

lemma scene_area [simp]: "area [''w''] scene_ctx sub = [''w'', ''outgoing'', sub]"
  by (simp add: area_def scene_ctx_def resolve_outgoing)

lemma clean_outgoing: "clean_path ''outgoing''"
  using clean_path_Clean [of "''outgoing''"]
  by (simp add: path_Clean_def is_rooted_def clean_step_def build_path_def is_slash_def)

lemma scene_std [simp]: "std_context scene_ctx" "healthy calm"
  using clean_outgoing by (simp_all add: std_context_def scene_ctx_def healthy_def calm_def)

lemma sendFile_delivers_witness:
  "\<exists>st' ws head ps foot.
    sendFile [''w''] scene_px calm scene_ctx \<lparr>fiName = ''p'', fiPath = ''.'', fiSize = 1\<rparr> scene_st = (st', Ret None)
    \<and> wire st' = ws \<and> packets ws = head # ps @ [foot]
    \<and> header_fields head = [''DD-FILETRANSFER'', ''BEGIN'', ''v2'', ''p'', ''.'', fmt_d 1, fmt_x (sha256 [67])]
    \<and> concat (map packet_data ps) = [67] \<and> length ps = 2
    \<and> file_at (ft_fs st') [''w'', ''outgoing'', ''done'', ''p''] [67]"
proof -
  have f: "file_at (ft_fs scene_st) (area [''w''] scene_ctx ''processing'' @ [] @ [''p'']) [67]"
    by (simp add: scene_st_def scene_fs_def fs_get_def)
  have hx: "length (fmt_x (sha256 [67])) = 64" by (simp add: fmt_x_def length_concat comp_def sum_list_triv length_sha256)
  have w: "clear_way (ft_fs scene_st) (area [''w''] scene_ctx ''done'' @ [])"
    by (auto simp: clear_way_def scene_st_def scene_fs_def fs_get_def prefix_Cons)
  have d: "fs_get (ft_fs scene_st) (area [''w''] scene_ctx ''done'' @ [] @ [''p'']) \<noteq> Some Dir"
    by (simp add: scene_st_def scene_fs_def fs_get_def)
  have p: "proper ''p''" by (simp add: proper_def is_sep_def is_slash_def is_backslash_def)
  obtain st' ws head ps foot where r:
    "sendFile [''w''] scene_px calm scene_ctx \<lparr>fiName = ''p'', fiPath = ''.'', fiSize = 1\<rparr> scene_st = (st', Ret None)"
    "wire st' = wire scene_st @ ws" "packets ws = head # ps @ [foot]"
    "header_fields head = [''DD-FILETRANSFER'', ''BEGIN'', ''v2'', ''p'', ''.'', fmt_d 1, fmt_x (sha256 [67])]"
    "concat (map packet_data ps) = [67]" "length ps = 2" "file_at (ft_fs st') [''w'', ''outgoing'', ''done'', ''p''] [67]"
    using sendFile_delivers [OF scene_std p _ _ _ f _ _ w d, of scene_px] hx
    by (auto simp: clean_word_def header_text_eq fmt_d_def dec_nat.simps)
  moreover have "wire scene_st = []" by (simp add: scene_st_def)
  ultimately show ?thesis by (intro exI [of _ st'] exI [of _ ws] exI [of _ head] exI [of _ ps] exI [of _ foot]) simp
qed

section \<open>A whole pass\<close>

text \<open>
  A pass over a tidy outgoing directory in which nothing is refused returns (the fuel only has
  to exceed the depth of the tree). Every file below \<^verbatim>\<open>new\<close>, at any depth, has left it; each
  non-empty one is in \<^verbatim>\<open>done\<close> under the same relative path with the same bytes, each empty one
  stays in \<^verbatim>\<open>processing\<close>; nothing else in the file system changes except for new directories.
  The wire carries each non-empty file exactly once, header, data and footer, and nothing else.
\<close>

theorem pass_delivers:
  assumes "std_context ctx" and "tidy cwd ctx (ft_fs st)" and "\<And>d n. healthy (env d n)"
    and "\<And>r. fs_get (ft_fs st) (area cwd ctx ''new'' @ r) = Some Dir \<Longrightarrow> length r < k"
  shows "\<exists>st' ws. processDirectory cwd px env ctx k ''.'' st = (st', Ret ())
    \<and> moved cwd ctx UNIV (ft_fs st) (ft_fs st')
    \<and> wire st' = wire st @ ws \<and> transmitted cwd ctx (ft_fs st) UNIV ws"
proof -
  have "fs_get (ft_fs st) (area cwd ctx ''new'' @ []) = Some Dir"
    using tidyD(2) [OF assms(2)] is_dir_area [of "ft_fs st" cwd ctx "''new''" "[]"] by simp
  then have "done_part cwd ctx st ({} \<union> below []) st (processDirectory cwd px env ctx k (rel_path []) st)"
    using processDirectory_part [where env = env and px = px and ds = "[]" and X = "{}", OF assms(1-3) _ _ pass_at_start]
      assms(4) by simp
  moreover have "{} \<union> below [] = UNIV" by (auto simp: below_def)
  ultimately show ?thesis by (auto simp: done_part_def pass_at_def)
qed

lemma scene_get:
  "fs_get scene_fs p = (if p = [''w''] \<or> p = [''w'', ''outgoing''] \<or> p = [''w'', ''outgoing'', ''new''] \<or>
      p = [''w'', ''outgoing'', ''processing''] \<or> p = [''w'', ''outgoing'', ''done''] \<or>
      p = [''w'', ''outgoing'', ''new'', ''sub''] then Some Dir
    else if p = [''w'', ''outgoing'', ''new'', ''a''] then Some (File [65, 66])
    else if p = [''w'', ''outgoing'', ''new'', ''sub'', ''b''] then Some (File [])
    else if p = [''w'', ''outgoing'', ''processing'', ''p''] then Some (File [67]) else None)"
  by (auto simp: scene_fs_def fs_get_def)

lemma scene_new:
  "fs_get scene_fs ([''w'', ''outgoing'', ''new''] @ r) = (if r = [] \<or> r = [''sub''] then Some Dir
     else if r = [''a''] then Some (File [65, 66]) else if r = [''sub'', ''b''] then Some (File []) else None)"
  by (simp add: scene_get)

lemma scene_tidy: "tidy [''w''] scene_ctx scene_fs"
proof -
  have "is_dir scene_fs p" if "fs_get scene_fs (p @ [n]) \<noteq> None" for p n
  proof -
    have "\<forall>q \<in> set (map fst scene_fs). is_dir scene_fs (butlast q)"
      by (simp add: scene_fs_def is_dir_def fs_get_def)
    then show ?thesis using that unfolding fs_keys [symmetric] by (metis butlast_snoc)
  qed
  moreover have "proper ''a''" "proper ''b''" "proper ''sub''"
    by (simp_all add: proper_def is_sep_def is_slash_def is_backslash_def)
  ultimately show ?thesis
    unfolding tidy_def scene_area is_dir_def by (auto simp: scene_get split: if_splits)
qed

lemma pass_delivers_witness:
  "\<exists>st' ws. processDirectory [''w''] scene_px (\<lambda>_ _. calm) scene_ctx 2 ''.'' scene_st = (st', Ret ())
    \<and> fs_get (ft_fs st') [''w'', ''outgoing'', ''new'', ''a''] = None
    \<and> file_at (ft_fs st') [''w'', ''outgoing'', ''done'', ''a''] [65, 66]
    \<and> file_at (ft_fs st') [''w'', ''outgoing'', ''processing'', ''sub'', ''b''] []
    \<and> wire st' = ws \<and> transmitted [''w''] scene_ctx scene_fs UNIV ws"
proof -
  have fs: "ft_fs scene_st = scene_fs" "wire scene_st = []" by (simp_all add: scene_st_def)
  have depth: "length r < 2" if "fs_get (ft_fs scene_st) (area [''w''] scene_ctx ''new'' @ r) = Some Dir" for r
    using that unfolding fs scene_area scene_new by (auto split: if_splits)
  obtain st' ws where r: "processDirectory [''w''] scene_px (\<lambda>_ _. calm) scene_ctx 2 ''.'' scene_st = (st', Ret ())"
      "moved [''w''] scene_ctx UNIV scene_fs (ft_fs st')" "wire st' = ws" "transmitted [''w''] scene_ctx scene_fs UNIV ws"
    using pass_delivers [OF scene_std(1), of "[''w'']" scene_st "\<lambda>_ _. calm" 2 scene_px] scene_tidy depth
    by (auto simp: fs)
  then show ?thesis
    using moved_files [OF r(2), of "[''a'']" "[65, 66]"] moved_files(2) [OF r(2), of "[''sub'', ''b'']" "[]"]
    by (simp add: scene_get)
qed

section \<open>Pauses\<close>

lemma count_from_nth: "i < n \<Longrightarrow> count_from c n ! i = c + word_of_nat i"
  by (simp add: count_from_def)

lemma paced_count:
  assumes "map packet_seq ps = count_from 0 (length ps)" and "length ps < 2 ^ 32" and "0 < m" "m < 2 ^ 32"
    and "modulus ctx = int m"
  shows "concat (map (paced ctx) ps) = concat (map (\<lambda>i. Packet (ps ! i) #
    (if Suc i mod m = 0 then [Pause (msdelay ctx)] else [])) [0..<length ps])"
proof -
  have "paced ctx (ps ! i) = Packet (ps ! i) # (if Suc i mod m = 0 then [Pause (msdelay ctx)] else [])"
    if i: "i < length ps" for i
  proof -
    have "packet_seq (ps ! i) = map packet_seq ps ! i" using i by simp
    also have "\<dots> = word_of_nat i" using i by (simp add: assms(1) count_from_nth)
    finally have "packet_seq (ps ! i) + 1 = (word_of_nat (Suc i) :: u32)" by simp
    moreover have "((word_of_nat (Suc i) :: u32) mod word_of_nat m = 0) \<longleftrightarrow> Suc i mod m = 0"
    proof -
      have "unat ((word_of_nat (Suc i) :: u32) mod word_of_nat m) = Suc i mod m"
        unfolding unat_mod_distrib using i assms(2,4)
        by (simp add: unsigned_of_nat take_bit_nat_eq_self_iff [THEN iffD2] del: of_nat_Suc)
      then show ?thesis by (metis unat_eq_zero)
    qed
    ultimately show ?thesis by (simp add: paced_def assms(5) add.commute)
  qed
  then have "map (paced ctx) ps = map (\<lambda>i. Packet (ps ! i) # (if Suc i mod m = 0 then [Pause (msdelay ctx)] else []))
      [0..<length ps]"
    by (intro nth_equalityI) simp_all
  then show ?thesis by simp
qed

section \<open>When something goes wrong\<close>

text \<open>The file of a transfer, wherever its name resolves to.\<close>

definition processing_file :: "path \<Rightarrow> ft_context \<Rightarrow> FileInfo \<Rightarrow> ft_state \<Rightarrow> bytes \<Rightarrow> bool" where
  "processing_file cwd ctx info st c \<longleftrightarrow> c \<noteq> [] \<and>
     file_at (ft_fs st) (resolve cwd (path_Join [basedir ctx, processingdir ctx, fiPath info, fiName info])) c"

lemma zero_modulus_panic:
  assumes "(word_of_int (modulus ctx) :: u32) = 0" and "processing_file cwd ctx info st c"
    and "dial_err e = None" and "\<not> hash_refused e" and "open_err e = None"
  shows "\<exists>st' head p. sendFile cwd px e ctx info st = (st', Panic ''integer divide by zero'')
    \<and> ft_fs st' = ft_fs st \<and> wire st' = wire st @ sent (head_lost e) head @ sent (lost e 0) p \<and> packet_seq p = 0"
proof -
  let ?head = "text_packet (header_text (fiName info) (fiPath info) (fiSize info) (sha256 c))"
  let ?n = "if read_fails e = Some 0 then 0 else min 1192 (length c)"
  let ?p = "le32 0 @ le32 (word_of_nat ?n) @ take ?n c @ drop (8 + ?n) ?head"
  let ?st = "put_wire (sent (lost e 0) ?p) (put_wire (sent (head_lost e) ?head) st)"
  have "send_loop ctx (fiSize info) (read_fails e) (lost e) c ?head 0 0 (put_wire (sent (head_lost e) ?head) st)
      = (?st, Panic ''integer divide by zero'')"
    using assms(1) by (subst send_loop.simps) (simp add: Let_def split_def)
  then have "sendFile cwd px e ctx info st = (?st, Panic ''integer divide by zero'')"
    using assms by (simp add: sendFile_def calcHash_def processing_file_def Let_def split_def text_packet_def)
  moreover have "packet_seq ?p = 0" by (rule read_packet(1)) (rule refl)
  ultimately show ?thesis
    by (intro exI [of _ ?st] exI [of _ ?head] exI [of _ ?p]) simp
qed

text \<open>
  C22. With a modulus that is 0 as an \<^verbatim>\<open>uint32\<close> every transfer of a non-empty file panics with an
  integer division by zero after writing the header and the first data packet (each on the wire unless
  its write failed); the file stays in
  \<^verbatim>\<open>processing\<close>. (Nothing recovers the panic: it ends the program.)
\<close>

theorem zero_modulus_panics:
  assumes "(word_of_int (modulus ctx) :: u32) = 0" and "processing_file cwd ctx info st c"
    and "dial_err e = None" and "\<not> hash_refused e" and "open_err e = None"
  shows "\<exists>st' head p. sendFile cwd px e ctx info st = (st', Panic ''integer divide by zero'')
    \<and> ft_fs st' = ft_fs st \<and> wire st' = wire st @ sent (head_lost e) head @ sent (lost e 0) p \<and> packet_seq p = 0"
  by (rule zero_modulus_panic [OF assms])

lemma scene_p:
  "proper ''p''" "file_at (ft_fs scene_st) [''w'', ''outgoing'', ''processing'', ''p''] [67]"
  "clear_way (ft_fs scene_st) [''w'', ''outgoing'', ''done'']"
  "fs_get (ft_fs scene_st) [''w'', ''outgoing'', ''done'', ''p''] = None"
  by (auto simp: clear_way_def scene_st_def scene_get prefix_Cons proper_def is_sep_def is_slash_def is_backslash_def)

lemma scene_processing: "processing_file [''w''] scene_ctx \<lparr>fiName = ''p'', fiPath = ''.'', fiSize = 1\<rparr> scene_st [67]"
proof -
  have "proper ''p''" by (simp add: proper_def is_sep_def is_slash_def is_backslash_def)
  then have "resolve [''w''] (path_Join [basedir scene_ctx, ''processing'', ''.'', ''p'']) = [''w'', ''outgoing'', ''processing'', ''p'']"
    using area_file(1) [OF scene_std(1), of "''processing''" "[]" "''p''" "[''w'']"] by simp
  then show ?thesis by (simp add: processing_file_def scene_ctx_def scene_st_def scene_get)
qed

lemma zero_modulus_panics_witness:
  "\<exists>st' head p. sendFile [''w''] scene_px calm (scene_ctx\<lparr>modulus := 0\<rparr>) \<lparr>fiName = ''p'', fiPath = ''.'', fiSize = 1\<rparr> scene_st
      = (st', Panic ''integer divide by zero'')
    \<and> ft_fs st' = ft_fs scene_st \<and> wire st' = wire scene_st @ [Packet head, Packet p] \<and> packet_seq p = 0"
  using zero_modulus_panics [of "scene_ctx\<lparr>modulus := 0\<rparr>" "[''w'']" "\<lparr>fiName = ''p'', fiPath = ''.'', fiSize = 1\<rparr>" scene_st "[67]" calm scene_px]
    scene_processing by (simp add: processing_file_def calm_def)

lemma concat_pieces_fail: "concat (pieces (Some k) c) = take (1192 * k) c"
proof (induction k arbitrary: c)
  case 0
  then show ?case by (subst pieces.simps) simp
next
  case (Suc k)
  show ?case
  proof (cases "c = []")
    case False
    have "1192 * Suc k = 1192 + 1192 * k" by simp
    then have "take (1192 * Suc k) c = take 1192 c @ take (1192 * k) (drop 1192 c)" by (simp only: take_add)
    then show ?thesis
      using False Suc.IH [of "drop (min 1192 (length c)) c"]
      by (subst pieces.simps) (cases "length c \<le> 1192"; simp add: Let_def min_def)
  qed (subst pieces.simps, simp)
qed

text \<open>
  C23. A read that fails in the middle of a file goes unnoticed: the transfer still reports
  success, sends the footer and moves the file to \<^verbatim>\<open>done\<close>, while the payloads are only the
  first \<open>1192 * k\<close> bytes read before the failure, fewer than the size the header announces.
\<close>

theorem read_error_unnoticed:
  assumes "std_context ctx" and "sends e" and "read_fails e = Some k" and "1192 * k < length c"
    and "proper name" and "\<forall>d \<in> set ds. proper d"
    and "file_at (ft_fs st) (area cwd ctx ''processing'' @ ds @ [name]) c"
    and "clear_way (ft_fs st) (area cwd ctx ''done'' @ ds)"
    and "fs_get (ft_fs st) (area cwd ctx ''done'' @ ds @ [name]) \<noteq> Some Dir"
  shows "\<exists>st' ps ws.
    sendFile cwd px e ctx \<lparr>fiName = name, fiPath = rel_path ds, fiSize = int (length c)\<rparr> st = (st', Ret None)
    \<and> wire st' = wire st @ ws
    \<and> packets ws = text_packet (header_text name (rel_path ds) (int (length c)) (sha256 c)) # ps @ [text_packet footer_text]
    \<and> concat (map packet_data ps) = take (1192 * k) c \<and> concat (map packet_data ps) \<noteq> c
    \<and> file_at (ft_fs st') (area cwd ctx ''done'' @ ds @ [name]) c"
proof -
  have "c \<noteq> []" using assms(4) by auto
  then obtain st' ps where r: "sendFile cwd px e ctx \<lparr>fiName = name, fiPath = rel_path ds, fiSize = int (length c)\<rparr> st
        = (st', Ret None)"
      "file_at (ft_fs st') (area cwd ctx ''done'' @ ds @ [name]) c"
      "wire st' = wire st @ Packet (text_packet (header_text name (rel_path ds) (int (length c)) (sha256 c)))
        # concat (map (paced ctx) ps) @ [Packet (text_packet footer_text), Pause 1]"
      "map packet_data ps = pieces (Some k) c"
    using sendFile_ok [OF assms(1,2,5,6,7) _ assms(8,9)] assms(3) by fastforce
  have "length (take (1192 * k) c) < length c" using assms(4) by simp
  then have "take (1192 * k) c \<noteq> c" by (metis less_irrefl)
  then show ?thesis using r by (auto simp: concat_pieces_fail)
qed

lemma read_error_unnoticed_witness:
  "\<exists>st' ps ws.
    sendFile [''w''] scene_px (calm\<lparr>read_fails := Some 0\<rparr>) scene_ctx \<lparr>fiName = ''p'', fiPath = ''.'', fiSize = 1\<rparr> scene_st = (st', Ret None)
    \<and> wire st' = wire scene_st @ ws
    \<and> packets ws = text_packet (header_text ''p'' ''.'' 1 (sha256 [67])) # ps @ [text_packet footer_text]
    \<and> concat (map packet_data ps) = [] \<and> concat (map packet_data ps) \<noteq> [67]
    \<and> file_at (ft_fs st') [''w'', ''outgoing'', ''done'', ''p''] [67]"
proof -
  have "sends (calm\<lparr>read_fails := Some 0\<rparr>)" "read_fails (calm\<lparr>read_fails := Some 0\<rparr>) = Some 0"
    by (simp_all add: sends_def proceeds_def calm_def)
  then show ?thesis
    using read_error_unnoticed [OF scene_std(1), of "calm\<lparr>read_fails := Some 0\<rparr>" 0 "[67]" "''p''" "[]" scene_st "[''w'']" scene_px]
      scene_p by simp
qed

lemma packets_lossy: "packets (lossy ctx drops ps) = map snd (filter (\<lambda>(i, p). \<not> drops i) (enumerate 0 ps))"
proof (induction ps arbitrary: drops)
  case (Cons p ps)
  have "filter (\<lambda>(i, p). \<not> drops i) (enumerate (Suc 0) ps) =
      map (apfst Suc) (filter (\<lambda>(i, p). \<not> drops (Suc i)) (enumerate 0 ps))"
    by (simp add: enumerate_Suc_eq filter_map comp_def split_def apfst_def map_prod_def)
  then show ?case
    using Cons by (cases "drops 0") (simp_all add: paced_def comp_def split_def)
qed simp

text \<open>
  Nor is a packet missed whose write fails: the numbers of the data packets go on, the wire carries the
  others, and the transfer reports success and moves the file to \<^verbatim>\<open>done\<close>.
\<close>

theorem lost_packets_unnoticed:
  assumes "std_context ctx" and "proceeds e" and "read_fails e = None" and "c \<noteq> []"
    and "proper name" and "\<forall>d \<in> set ds. proper d"
    and "file_at (ft_fs st) (area cwd ctx ''processing'' @ ds @ [name]) c"
    and "clear_way (ft_fs st) (area cwd ctx ''done'' @ ds)"
    and "fs_get (ft_fs st) (area cwd ctx ''done'' @ ds @ [name]) \<noteq> Some Dir"
  shows "\<exists>st' ps ws.
    sendFile cwd px e ctx \<lparr>fiName = name, fiPath = rel_path ds, fiSize = int (length c)\<rparr> st = (st', Ret None)
    \<and> wire st' = wire st @ ws
    \<and> packets ws = packets (sent (head_lost e) (text_packet (header_text name (rel_path ds) (int (length c)) (sha256 c))))
        @ map snd (filter (\<lambda>(i, p). \<not> lost e i) (enumerate 0 ps)) @ packets (sent (foot_lost e) (text_packet footer_text))
    \<and> concat (map packet_data ps) = c \<and> map packet_seq ps = count_from 0 (length ps)
    \<and> file_at (ft_fs st') (area cwd ctx ''done'' @ ds @ [name]) c"
proof -
  let ?head = "text_packet (header_text name (rel_path ds) (int (length c)) (sha256 c))"
  obtain st' ps where r: "sendFile cwd px e ctx \<lparr>fiName = name, fiPath = rel_path ds, fiSize = int (length c)\<rparr> st
        = (st', Ret None)"
      "file_at (ft_fs st') (area cwd ctx ''done'' @ ds @ [name]) c"
      "wire st' = wire st @ sent (head_lost e) ?head @ lossy ctx (lost e) ps @ sent (foot_lost e) (text_packet footer_text) @ [Pause 1]"
      "map packet_data ps = pieces None c" "map packet_seq ps = count_from 0 (length ps)"
    using sendFile_run [OF assms(1,2,5,6,7,4,8,9)] assms(3) by fastforce
  then show ?thesis
    by (intro exI [of _ st'] exI [of _ ps]
        exI [of _ "sent (head_lost e) ?head @ lossy ctx (lost e) ps @ sent (foot_lost e) (text_packet footer_text) @ [Pause 1]"])
      (simp add: packets_lossy concat_pieces)
qed

lemma lost_packets_unnoticed_witness:
  "\<exists>st' ws. sendFile [''w''] scene_px (calm\<lparr>lost := (\<lambda>_. True)\<rparr>) scene_ctx \<lparr>fiName = ''p'', fiPath = ''.'', fiSize = 1\<rparr> scene_st
      = (st', Ret None) \<and> wire st' = wire scene_st @ ws \<and>
    packets ws = [text_packet (header_text ''p'' ''.'' 1 (sha256 [67])), text_packet footer_text] \<and>
    file_at (ft_fs st') [''w'', ''outgoing'', ''done'', ''p''] [67]"
proof -
  have e: "proceeds (calm\<lparr>lost := (\<lambda>_. True)\<rparr>)" "read_fails (calm\<lparr>lost := (\<lambda>_. True)\<rparr>) = None"
    by (simp_all add: proceeds_def calm_def)
  show ?thesis
    using lost_packets_unnoticed [OF scene_std(1) e, of "[67]" "''p''" "[]" scene_st "[''w'']" scene_px] scene_p
    by (fastforce simp: calm_def)
qed

section \<open>Pauses, header, directories\<close>

text \<open>
  C39. With a modulus \<open>m\<close> between 1 and \<open>2\<^sup>3\<^sup>2 - 1\<close> the data packets are paced exactly: the sender
  pauses for the configured delay after every \<open>m\<close>-th data packet and nowhere else between the
  header and the footer (for files of fewer than \<open>2\<^sup>3\<^sup>2\<close> packets).
\<close>

theorem pauses_exact:
  assumes "std_context ctx" and "healthy e" and "proper name" and "\<forall>d \<in> set ds. proper d"
    and "file_at (ft_fs st) (area cwd ctx ''processing'' @ ds @ [name]) c" and "c \<noteq> []"
    and "clear_way (ft_fs st) (area cwd ctx ''done'' @ ds)"
    and "fs_get (ft_fs st) (area cwd ctx ''done'' @ ds @ [name]) \<noteq> Some Dir"
    and "modulus ctx = int m" and "0 < m" and "m < 2 ^ 32" and "(length c + 1191) div 1192 + 1 < 2 ^ 32"
  shows "\<exists>st' ps head foot.
    sendFile cwd px e ctx \<lparr>fiName = name, fiPath = rel_path ds, fiSize = int (length c)\<rparr> st = (st', Ret None)
    \<and> length ps = (length c + 1191) div 1192 + 1
    \<and> wire st' = wire st @ Packet head # concat (map (\<lambda>i. Packet (ps ! i) #
          (if Suc i mod m = 0 then [Pause (msdelay ctx)] else [])) [0..<length ps]) @ [Packet foot, Pause 1]"
proof -
  obtain st' ps where r: "sendFile cwd px e ctx \<lparr>fiName = name, fiPath = rel_path ds, fiSize = int (length c)\<rparr> st
        = (st', Ret None)"
      "wire st' = wire st @ Packet (text_packet (header_text name (rel_path ds) (int (length c)) (sha256 c)))
        # concat (map (paced ctx) ps) @ [Packet (text_packet footer_text), Pause 1]"
      "map packet_data ps = pieces None c" "map packet_seq ps = count_from 0 (length ps)"
    using sendFile_ok [OF assms(1) healthy_sends [OF assms(2)] assms(3-8)]
    unfolding healthyD(5) [OF assms(2)] by blast
  have l: "length ps = (length c + 1191) div 1192 + 1" using r(3) by (metis length_map length_pieces)
  have "concat (map (paced ctx) ps) = concat (map (\<lambda>i. Packet (ps ! i) #
      (if Suc i mod m = 0 then [Pause (msdelay ctx)] else [])) [0..<length ps])"
    by (rule paced_count [OF r(4) _ assms(10,11,9)]) (use assms(12) l in simp)
  then show ?thesis using r(1,2) l
    by (intro exI [of _ st'] exI [of _ ps] exI [of _ "text_packet (header_text name (rel_path ds) (int (length c)) (sha256 c))"]
        exI [of _ "text_packet footer_text"]) simp
qed

lemma pauses_exact_witness:
  "\<exists>st' ps head foot.
    sendFile [''w''] scene_px calm (scene_ctx\<lparr>modulus := 1\<rparr>) \<lparr>fiName = ''p'', fiPath = ''.'', fiSize = 1\<rparr> scene_st = (st', Ret None)
    \<and> wire st' = wire scene_st @ [Packet head, Packet (ps ! 0), Pause 20, Packet (ps ! 1), Pause 20, Packet foot, Pause 1]"
proof -
  have c: "std_context (scene_ctx\<lparr>modulus := 1\<rparr>)" "\<And>sub. area [''w''] (scene_ctx\<lparr>modulus := 1\<rparr>) sub = [''w'', ''outgoing'', sub]"
    using scene_std(1) scene_area by (simp_all add: std_context_def area_def)
  show ?thesis
    using pauses_exact [OF c(1) scene_std(2) scene_p(1), of "[]" scene_st "[''w'']" "[67]" 1 scene_px] scene_p
    unfolding c(2) by (fastforce simp: scene_ctx_def)
qed

text \<open>
  C38. Headers of blank-free names are unambiguous: equal header packets mean equal name, directory,
  size and digest. With blanks they are not: a file \<^verbatim>\<open>x y\<close> in directory \<^verbatim>\<open>z\<close> and a file \<^verbatim>\<open>x\<close> in
  directory \<^verbatim>\<open>y z\<close> of the same content have the same header.
\<close>

theorem header_unambiguous:
  assumes "clean_word name" "clean_word dir" "clean_word name'" "clean_word dir'" "0 \<le> sz" "0 \<le> sz'"
    and "length (header_text name dir sz h) \<le> 1200" "length (header_text name' dir' sz' h') \<le> 1200"
    and "text_packet (header_text name dir sz h) = text_packet (header_text name' dir' sz' h')"
  shows "name = name' \<and> dir = dir' \<and> sz = sz' \<and> fmt_x h = fmt_x h' \<and>
    header_text (x @ '' '' @ y) z n k = header_text x (y @ '' '' @ z) n k"
proof -
  have "[''DD-FILETRANSFER'', ''BEGIN'', ''v2'', name, dir, fmt_d sz, fmt_x h]
      = [''DD-FILETRANSFER'', ''BEGIN'', ''v2'', name', dir', fmt_d sz', fmt_x h']"
    using header_fields_text [OF assms(1,2,5,7)] header_fields_text [OF assms(3,4,6,8)] assms(9) by metis
  then have eq: "name = name' \<and> dir = dir' \<and> fmt_d sz = fmt_d sz' \<and> fmt_x h = fmt_x h'" by simp
  moreover have "sz = sz'" using eq assms(5,6) by (auto simp: fmt_d_def)
  ultimately show ?thesis by (simp add: header_text_eq)
qed

lemma header_unambiguous_witness:
  "text_packet (header_text ''a'' ''b'' 1 [7]) = text_packet (header_text ''a'' ''b'' 1 [7]) \<and>
   header_text ''x y'' ''z'' 1 [7] = header_text ''x'' ''y z'' 1 [7]"
proof -
  have l: "length (header_text ''a'' ''b'' 1 [7]) \<le> 1200"
    by (simp add: header_text_eq fmt_x_def fmt_d_def dec_nat.simps)
  show ?thesis
    using header_unambiguous [OF _ _ _ _ _ _ l l refl, of "''x''" "''y''" "''z''" 1 "[7]"] by (simp add: clean_word_def)
qed

text \<open>
  \<^verbatim>\<open>initContext\<close> gives a context whose directories resolve below the working directory given, and
  creates the three areas when no file is in the way; a modulus that is not 0 as an \<^verbatim>\<open>uint32\<close>
  makes it one the transfer's properties apply to.
\<close>

theorem initContext_ready:
  assumes "initContext cwd m d wdir fs = (ctx, fs')"
    and "\<And>sub. sub \<in> {''new'', ''processing'', ''done''} \<Longrightarrow> clear_way fs (area cwd ctx sub)"
  shows "(std_context ctx \<longleftrightarrow> (word_of_int m :: u32) \<noteq> 0) \<and> modulus ctx = m \<and> msdelay ctx = d \<and>
    is_dir fs' (area cwd ctx ''new'') \<and> is_dir fs' (area cwd ctx ''processing'') \<and> is_dir fs' (area cwd ctx ''done'') \<and>
    (\<forall>p c. file_at fs p c \<longleftrightarrow> file_at fs' p c)"
proof -
  have ctx: "ctx = \<lparr>basedir = path_Join [wdir, ''outgoing''], newdir = ''new'', processingdir = ''processing'',
      donedir = ''done'', modulus = m, msdelay = d\<rparr>"
    using assms(1) by (simp add: initContext_def Let_def)
  have clean: "clean_path (path_Join [wdir, ''outgoing''])"
    by (cases "wdir = []") (simp_all add: path_Join.simps)
  have res: "resolve cwd (path_Join [basedir ctx, sub]) = area cwd ctx sub" if "proper sub" for sub
    using resolve_Join_name(1) [OF clean that] by (simp add: ctx area_def)
  let ?f1 = "MkdirAll (area cwd ctx ''new'') fs" and ?f2 = "MkdirAll (area cwd ctx ''processing'') (MkdirAll (area cwd ctx ''new'') fs)"
  have fs': "fs' = MkdirAll (area cwd ctx ''done'') ?f2"
    using assms(1) res by (simp add: initContext_def Let_def ctx)
  have keep: "clear_way g p \<Longrightarrow> clear_way (MkdirAll q g) p" for g p q
    unfolding clear_way_def using MkdirAll_get [of q g] by metis
  have "is_dir ?f1 (area cwd ctx ''new'')" using assms(2) by (simp add: MkdirAll_makes)
  moreover have "is_dir ?f2 (area cwd ctx ''processing'')" using assms(2) by (simp add: MkdirAll_makes keep)
  moreover have "is_dir fs' (area cwd ctx ''done'')" using assms(2) by (simp add: fs' MkdirAll_makes keep)
  moreover have "file_at (MkdirAll q g) p c \<longleftrightarrow> file_at g p c" for g p q c
    using MkdirAll_get [of q g p] by auto
  ultimately show ?thesis
    using clean by (simp add: fs' is_dir_MkdirAll std_context_def) (simp add: ctx)
qed

lemma initContext_ready_witness:
  "is_dir (snd (initContext [''w''] 20 20 '''' [([''w''], Dir)])) [''w'', ''outgoing'', ''done'']"
proof -
  let ?r = "initContext [''w''] 20 20 '''' [([''w''], Dir)]"
  have b: "basedir (fst ?r) = ''outgoing''"
    by (simp add: initContext_def Let_def path_Join.simps path_Clean_def is_rooted_def clean_step_def build_path_def is_slash_def)
  then have a: "area [''w''] (fst ?r) sub = [''w'', ''outgoing'', sub]" for sub
    by (simp add: area_def resolve_outgoing)
  have "clear_way [([''w''], Dir)] (area [''w''] (fst ?r) sub)" for sub
    unfolding a by (auto simp: clear_way_def fs_get_def prefix_Cons)
  then show ?thesis using initContext_ready [of "[''w'']" 20 20 "''''" "[([''w''], Dir)]" "fst ?r" "snd ?r"] by (simp add: a)
qed

end
