(* ===== verification/Gorm.thy ===== *)
theory Gorm imports Types begin

text \<open>
  The database library is not part of the repository: a table is a parameter of the model, the
  record of the calls the program makes on it. A condition such as \<^verbatim>\<open>key = ?\<close> is the predicate on
  rows it stands for; rows marked as deleted are not rows. \<open>gorm_table\<close> names the documented
  behaviour the properties use, \<open>gorm_reliable\<close> adds that no write is refused. The last section
  gives a concrete table, on which the hypotheses hold.
\<close>

section \<open>The calls\<close>

record ('r, 'd) gorm =
  g_first :: "('r \<Rightarrow> bool) \<Rightarrow> 'd \<Rightarrow> 'r option"
  g_find :: "('r \<Rightarrow> bool) \<Rightarrow> 'd \<Rightarrow> 'r list"
  g_create :: "'r \<Rightarrow> 'd \<Rightarrow> 'd \<times> 'r option"
  g_save :: "'r \<Rightarrow> 'd \<Rightarrow> 'd \<times> 'r option"
  g_delete :: "('r \<Rightarrow> bool) \<Rightarrow> 'd \<Rightarrow> 'd \<times> bool"

abbreviation rows :: "('r, 'd) gorm \<Rightarrow> 'd \<Rightarrow> 'r list" where
  "rows G d \<equiv> g_find G (\<lambda>_. True) d"

section \<open>Documented behaviour\<close>

lemma find_filter: "find P rs = (case filter P rs of [] \<Rightarrow> None | r # _ \<Rightarrow> Some r)"
  by (induction rs) simp_all

text \<open>
  \<open>pk\<close> reads the primary key and \<open>with_pk\<close> sets it. \<^verbatim>\<open>First\<close> and \<^verbatim>\<open>Find\<close> go by ascending primary
  key; \<^verbatim>\<open>Create\<close> of a row without a key gives it a fresh one above all others; \<^verbatim>\<open>Save\<close> of a row
  with a key in the table replaces that row, and without a key creates it; a refused write
  changes nothing.
\<close>

locale gorm_table =
  fixes G :: "('r, 'd) gorm" and pk :: "'r \<Rightarrow> nat" and with_pk :: "nat \<Rightarrow> 'r \<Rightarrow> 'r" and inv :: "'d \<Rightarrow> bool"
  assumes pk_with: "pk (with_pk k r) = k"
    and find: "inv d \<Longrightarrow> g_find G P d = filter P (rows G d)"
    and first: "inv d \<Longrightarrow> g_first G P d = (case g_find G P d of [] \<Rightarrow> None | r # _ \<Rightarrow> Some r)"
    and keys: "inv d \<Longrightarrow> sorted_wrt (<) (map pk (rows G d))" "inv d \<Longrightarrow> r \<in> set (rows G d) \<Longrightarrow> pk r \<noteq> 0"
    and create_inv: "inv d \<Longrightarrow> pk r = 0 \<Longrightarrow> inv (fst (g_create G r d))"
    and create_ok: "inv d \<Longrightarrow> pk r = 0 \<Longrightarrow> g_create G r d = (d', Some r') \<Longrightarrow>
        (\<exists>k. r' = with_pk k r) \<and> rows G d' = rows G d @ [r']"
    and create_no: "inv d \<Longrightarrow> pk r = 0 \<Longrightarrow> g_create G r d = (d', None) \<Longrightarrow> rows G d' = rows G d"
    and save_new: "inv d \<Longrightarrow> pk r = 0 \<Longrightarrow> g_save G r d = g_create G r d"
    and save_inv: "inv d \<Longrightarrow> pk r \<in> pk ` set (rows G d) \<Longrightarrow> inv (fst (g_save G r d))"
    and save_ok: "inv d \<Longrightarrow> pk r \<in> pk ` set (rows G d) \<Longrightarrow> g_save G r d = (d', Some r') \<Longrightarrow>
        r' = r \<and> rows G d' = map (\<lambda>x. if pk x = pk r then r else x) (rows G d)"
    and save_no: "inv d \<Longrightarrow> pk r \<in> pk ` set (rows G d) \<Longrightarrow> g_save G r d = (d', None) \<Longrightarrow> rows G d' = rows G d"
    and delete_inv: "inv d \<Longrightarrow> inv (fst (g_delete G P d))"
    and delete_ok: "inv d \<Longrightarrow> g_delete G P d = (d', True) \<Longrightarrow> rows G d' = filter (\<lambda>r. \<not> P r) (rows G d)"
    and delete_no: "inv d \<Longrightarrow> g_delete G P d = (d', False) \<Longrightarrow> rows G d' = rows G d"
begin

lemma first_find: "inv d \<Longrightarrow> g_first G P d = find P (rows G d)"
  using find [of d P] by (simp add: first find_filter)

lemma first_NoneD: "inv d \<Longrightarrow> g_first G P d = None \<longleftrightarrow> (\<forall>r \<in> set (rows G d). \<not> P r)"
  by (auto simp: first_find find_None_iff)

lemma first_SomeD: "inv d \<Longrightarrow> g_first G P d = Some r \<Longrightarrow> r \<in> set (rows G d) \<and> P r"
  by (auto simp: first_find find_Some_iff)

lemma distinct_keys: "inv d \<Longrightarrow> distinct (map pk (rows G d))"
  using keys(1) strict_sorted_iff by blast

end

locale gorm_reliable = gorm_table +
  assumes create_done: "inv d \<Longrightarrow> pk r = 0 \<Longrightarrow> snd (g_create G r d) \<noteq> None"
    and save_done: "inv d \<Longrightarrow> pk r \<in> pk ` set (rows G d) \<Longrightarrow> snd (g_save G r d) \<noteq> None"
    and delete_done: "inv d \<Longrightarrow> snd (g_delete G P d)"
begin

lemma create_rows:
  assumes "inv d" and "pk r = 0"
  obtains d' k where "g_create G r d = (d', Some (with_pk k r))" "rows G d' = rows G d @ [with_pk k r]" "inv d'"
  using create_done [OF assms] create_ok [OF assms] create_inv [OF assms] by (cases "g_create G r d") fastforce

lemma save_rows:
  assumes "inv d" and "pk r \<in> pk ` set (rows G d)"
  obtains d' where "g_save G r d = (d', Some r)" "inv d'"
    "rows G d' = map (\<lambda>x. if pk x = pk r then r else x) (rows G d)"
  using save_done [OF assms] save_ok [OF assms] save_inv [OF assms] by (cases "g_save G r d") fastforce

lemma delete_rows:
  assumes "inv d"
  obtains d' where "g_delete G P d = (d', True)" "inv d'" "rows G d' = filter (\<lambda>r. \<not> P r) (rows G d)"
  using delete_done [OF assms, of P] delete_ok [OF assms, of P] delete_inv [OF assms, of P]
  by (cases "g_delete G P d") fastforce

end

section \<open>A concrete table\<close>

definition next_key :: "('r \<Rightarrow> nat) \<Rightarrow> 'r list \<Rightarrow> nat" where
  "next_key pk rs = Suc (Max (insert 0 (pk ` set rs)))"

definition list_create :: "('r \<Rightarrow> nat) \<Rightarrow> (nat \<Rightarrow> 'r \<Rightarrow> 'r) \<Rightarrow> 'r \<Rightarrow> 'r list \<Rightarrow> 'r list \<times> 'r option" where
  "list_create pk with_pk r rs = (let r' = with_pk (next_key pk rs) r in (rs @ [r'], Some r'))"

definition list_table :: "('r \<Rightarrow> nat) \<Rightarrow> (nat \<Rightarrow> 'r \<Rightarrow> 'r) \<Rightarrow> ('r, 'r list) gorm" where
  "list_table pk with_pk = \<lparr>
     g_first = (\<lambda>P rs. find P rs),
     g_find = (\<lambda>P rs. filter P rs),
     g_create = list_create pk with_pk,
     g_save = (\<lambda>r rs. if pk r = 0 then list_create pk with_pk r rs
                      else (map (\<lambda>x. if pk x = pk r then r else x) rs, Some r)),
     g_delete = (\<lambda>P rs. (filter (\<lambda>r. \<not> P r) rs, True))\<rparr>"

definition list_inv :: "('r \<Rightarrow> nat) \<Rightarrow> 'r list \<Rightarrow> bool" where
  "list_inv pk rs \<longleftrightarrow> sorted_wrt (<) (map pk rs) \<and> (\<forall>r \<in> set rs. pk r \<noteq> 0)"

lemma next_key_above: "r \<in> set rs \<Longrightarrow> pk r < next_key pk rs"
  by (simp add: next_key_def less_Suc_eq_le)

lemma list_create_inv:
  "(\<And>k r. pk (with_pk k r) = k) \<Longrightarrow> list_inv pk rs \<Longrightarrow> list_inv pk (fst (list_create pk with_pk r rs))"
  using next_key_above [of _ rs pk] by (auto simp: list_create_def list_inv_def Let_def sorted_wrt_append next_key_def)

lemma list_save_inv: "list_inv pk rs \<Longrightarrow> pk r \<noteq> 0 \<Longrightarrow> list_inv pk (map (\<lambda>x. if pk x = pk r then r else x) rs)"
proof -
  have "map pk (map (\<lambda>x. if pk x = pk r then r else x) rs) = map pk rs" by simp
  then show "list_inv pk rs \<Longrightarrow> pk r \<noteq> 0 \<Longrightarrow> ?thesis" unfolding list_inv_def by (auto simp del: map_map)
qed

lemma list_delete_inv: "list_inv pk rs \<Longrightarrow> list_inv pk (filter P rs)"
  by (auto simp: list_inv_def sorted_wrt_filter sorted_wrt_map)

lemma list_table_reliable:
  assumes "\<And>k r. pk (with_pk k r) = k"
  shows "gorm_reliable (list_table pk with_pk) pk with_pk (list_inv pk)"
proof (unfold_locales, goal_cases)
  case (4 d) then show ?case by (simp add: list_table_def list_inv_def)
next
  case (5 d r) then show ?case by (simp add: list_table_def list_inv_def)
next
  case (6 d r) then show ?case using list_create_inv [of pk with_pk d r] assms by (simp add: list_table_def)
next
  case (10 d r) then show ?case using list_save_inv [of pk d r] by (auto simp: list_table_def list_inv_def)
next
  case (11 d r d' r') then show ?case by (auto simp: list_table_def list_inv_def)
next
  case (12 d r d') then show ?case by (auto simp: list_table_def list_inv_def)
next
  case (17 d r) then show ?case by (auto simp: list_table_def list_inv_def)
qed (use assms in \<open>auto simp: list_table_def find_filter list_create_def Let_def list_delete_inv\<close>)

lemma rows_list_table [simp]: "rows (list_table pk with_pk) rs = rs"
  by (simp add: list_table_def)

text \<open>The tables of the program on the concrete table.\<close>

definition settings_table :: "(KeyValuePair, KeyValuePair list) gorm" where
  "settings_table = list_table kvID (\<lambda>k r. r\<lparr>kvID := k\<rparr>)"

interpretation settings_rows: gorm_reliable settings_table kvID "\<lambda>k r. r\<lparr>kvID := k\<rparr>" "list_inv kvID"
  unfolding settings_table_def by (rule list_table_reliable) simp

end
