(* ===== verification/Settings.thy ===== *)
theory Settings imports Gorm begin

text \<open>
  The settings (\<^verbatim>\<open>engine/settings.go\<close>) on the table of key-value pairs. Under the documented
  behaviour of the table they are a key-value store; \<^verbatim>\<open>InitSetting\<close> stores the default of a missing
  setting but returns the empty pair of its failed lookup.
\<close>

definition zero_pair :: KeyValuePair where
  "zero_pair = \<lparr>kvID = 0, Key = '''', Value = '''', Extra = ''''\<rparr>"

text \<open>The error of \<^verbatim>\<open>First\<close> is \<open>None\<close>; the item is then the zero pair.\<close>

definition GetSetting :: "(KeyValuePair, 'd) gorm \<Rightarrow> string \<Rightarrow> 'd \<Rightarrow> KeyValuePair option" where
  "GetSetting G key d = g_first G (\<lambda>r. Key r = key) d"

definition PutSetting :: "(KeyValuePair, 'd) gorm \<Rightarrow> string \<Rightarrow> string \<Rightarrow> 'd \<Rightarrow> 'd" where
  "PutSetting G key val d =
     (case GetSetting G key d of
        Some item \<Rightarrow> fst (g_save G (item\<lparr>Value := val\<rparr>) d)
      | None \<Rightarrow> fst (g_create G (zero_pair\<lparr>Key := key, Value := val\<rparr>) d))"

text \<open>The \<^verbatim>\<open>item\<close> declared inside the \<^verbatim>\<open>if\<close> is another variable than the one returned.\<close>

definition InitSetting :: "(KeyValuePair, 'd) gorm \<Rightarrow> string \<Rightarrow> string \<Rightarrow> string \<Rightarrow> 'd \<Rightarrow> 'd \<times> KeyValuePair" where
  "InitSetting G key val description d =
     (case GetSetting G key d of
        Some item \<Rightarrow> (d, item)
      | None \<Rightarrow> (fst (g_create G \<lparr>kvID = 0, Key = key, Value = val, Extra = description\<rparr> d), zero_pair))"

definition setting_value :: "(KeyValuePair, 'd) gorm \<Rightarrow> 'd \<Rightarrow> string \<Rightarrow> string option" where
  "setting_value G d key = map_option Value (GetSetting G key d)"

section \<open>Settings are a key-value store\<close>

locale gorm_settings = gorm_reliable G kvID "\<lambda>k r. r\<lparr>kvID := k\<rparr>" inv
  for G :: "(KeyValuePair, 'd) gorm" and inv
begin

lemma find_append: "find P (xs @ ys) = (case find P xs of None \<Rightarrow> find P ys | Some x \<Rightarrow> Some x)"
  by (induction xs) simp_all

lemma find_save:
  assumes "distinct (map kvID rs)" and "find (\<lambda>r. Key r = key) rs = Some i"
  shows "map_option Value (find (\<lambda>r. Key r = k) (map (\<lambda>x. if kvID x = kvID i then i\<lparr>Value := v\<rparr> else x) rs))
    = (if k = key then Some v else map_option Value (find (\<lambda>r. Key r = k) rs))"
  using assms
proof (induction rs)
  case (Cons r rs)
  show ?case
  proof (cases "r = i")
    case True
    then have "map (\<lambda>x. if kvID x = kvID i then i\<lparr>Value := v\<rparr> else x) rs = rs"
      using Cons.prems(1) by (intro map_idI) (auto simp: image_iff)
    moreover have "Key i = key" using Cons.prems(2) unfolding find_Some_iff by blast
    ultimately show ?thesis using True by auto
  next
    case False
    then have "find (\<lambda>r. Key r = key) rs = Some i" "Key r \<noteq> key" using Cons.prems(2) by (auto split: if_splits)
    moreover from this have "kvID r \<noteq> kvID i"
      using Cons.prems(1) by (auto simp: find_Some_iff image_iff)
    ultimately show ?thesis using Cons by auto
  qed
qed simp

lemma put_value:
  assumes "inv d"
  shows "setting_value G (PutSetting G key v d) = (setting_value G d)(key \<mapsto> v)" and "inv (PutSetting G key v d)"
proof -
  have "setting_value G (PutSetting G key v d) = (setting_value G d)(key \<mapsto> v) \<and> inv (PutSetting G key v d)"
  proof (cases "GetSetting G key d")
    case None
    obtain d' k where d': "g_create G (zero_pair\<lparr>Key := key, Value := v\<rparr>) d =
          (d', Some (zero_pair\<lparr>Key := key, Value := v\<rparr>\<lparr>kvID := k\<rparr>))"
        "rows G d' = rows G d @ [zero_pair\<lparr>Key := key, Value := v\<rparr>\<lparr>kvID := k\<rparr>]" "inv d'"
      using create_rows [OF assms, of "zero_pair\<lparr>Key := key, Value := v\<rparr>"] by (auto simp: zero_pair_def)
    show ?thesis
      using None d' first_find [OF assms] first_find [OF d'(3)]
      by (auto simp: PutSetting_def setting_value_def GetSetting_def find_append fun_eq_iff split: option.splits)
  next
    case (Some item)
    then have i: "item \<in> set (rows G d)" "find (\<lambda>r. Key r = key) (rows G d) = Some item"
      using first_SomeD [OF assms] first_find [OF assms] by (auto simp: GetSetting_def)
    then obtain d' where d': "g_save G (item\<lparr>Value := v\<rparr>) d = (d', Some (item\<lparr>Value := v\<rparr>))" "inv d'"
        "rows G d' = map (\<lambda>x. if kvID x = kvID item then item\<lparr>Value := v\<rparr> else x) (rows G d)"
      using save_rows [OF assms, of "item\<lparr>Value := v\<rparr>"] by auto
    show ?thesis
      using Some d' first_find [OF assms] first_find [OF d'(2)] find_save [OF distinct_keys [OF assms] i(2)]
      by (auto simp: PutSetting_def setting_value_def GetSetting_def fun_eq_iff)
  qed
  then show "setting_value G (PutSetting G key v d) = (setting_value G d)(key \<mapsto> v)" and "inv (PutSetting G key v d)"
    by auto
qed

lemma init_present: "GetSetting G key d = Some item \<Longrightarrow> InitSetting G key v x d = (d, item)"
  by (simp add: InitSetting_def)

lemma init_absent:
  assumes "inv d" and "GetSetting G key d = None"
  obtains d' k where "InitSetting G key v x d = (d', zero_pair)" "inv d'"
    "rows G d' = rows G d @ [\<lparr>kvID = k, Key = key, Value = v, Extra = x\<rparr>]"
    "GetSetting G key d' = Some \<lparr>kvID = k, Key = key, Value = v, Extra = x\<rparr>"
    "\<And>key'. key' \<noteq> key \<Longrightarrow> GetSetting G key' d' = GetSetting G key' d"
proof -
  obtain d' k where d': "g_create G \<lparr>kvID = 0, Key = key, Value = v, Extra = x\<rparr> d =
        (d', Some \<lparr>kvID = k, Key = key, Value = v, Extra = x\<rparr>)"
      "rows G d' = rows G d @ [\<lparr>kvID = k, Key = key, Value = v, Extra = x\<rparr>]" "inv d'"
    using create_rows [OF assms(1), of "\<lparr>kvID = 0, Key = key, Value = v, Extra = x\<rparr>"] by auto
  show thesis
    by (rule that [of d' k])
      (use assms d' first_find [OF assms(1)] first_find [OF d'(3)] in
        \<open>auto simp: InitSetting_def GetSetting_def find_append split: option.splits\<close>)
qed

end

sublocale gorm_settings \<subseteq> store: kv_store "setting_value G" "PutSetting G" inv
  by unfold_locales (simp_all add: put_value)

interpretation settings: gorm_settings settings_table "list_inv kvID"
  by (rule gorm_settings.intro) (rule settings_rows.gorm_reliable_axioms)

section \<open>Properties\<close>

text \<open>
  C24. On a table that keeps its documented behaviour and refuses no write, \<^verbatim>\<open>PutSetting\<close> changes
  exactly the value \<^verbatim>\<open>GetSetting\<close> finds under its key, whether the key was there or not.
\<close>

theorem PutSetting_updates:
  assumes "gorm_settings G ok" and "ok d"
  shows "setting_value G (PutSetting G key v d) = (setting_value G d)(key \<mapsto> v) \<and> ok (PutSetting G key v d)"
  using gorm_settings.put_value [OF assms] by blast

lemma PutSetting_updates_witness:
  "setting_value settings_table (PutSetting settings_table ''k'' ''v'' []) = Map.empty(''k'' \<mapsto> ''v'')"
  using PutSetting_updates [OF settings.gorm_settings_axioms, of "[]" "''k''" "''v''"]
  by (simp add: list_inv_def) (simp add: setting_value_def [abs_def] GetSetting_def settings_table_def list_table_def)

text \<open>
  \<^verbatim>\<open>InitSetting\<close> of a missing key stores the default, so that the next call returns it; but
  the call itself returns the empty pair, not the default.
\<close>

theorem InitSetting_first_run:
  assumes "gorm_settings G ok" and "ok d" and "GetSetting G key d = None"
    and "InitSetting G key v x d = (d', item)" and "InitSetting G key v' x' d' = (d'', item')"
  shows "Value item = '''' \<and> Value item' = v \<and> Extra item' = x \<and> setting_value G d' key = Some v \<and> d'' = d'"
proof -
  obtain e k where e: "InitSetting G key v x d = (e, zero_pair)"
      "GetSetting G key e = Some \<lparr>kvID = k, Key = key, Value = v, Extra = x\<rparr>"
    using gorm_settings.init_absent [OF assms(1-3)] by metis
  then have "d' = e" "item = zero_pair" using assms(4) by simp_all
  moreover from this have "d'' = e" "item' = \<lparr>kvID = k, Key = key, Value = v, Extra = x\<rparr>"
    using gorm_settings.init_present [OF assms(1) e(2)] assms(5) by simp_all
  ultimately show ?thesis using e(2) by (simp add: zero_pair_def setting_value_def)
qed

lemma InitSetting_first_run_witness:
  "Value (snd (InitSetting settings_table ''k'' ''20'' ''d'' [])) = '''' \<and>
   Value (snd (InitSetting settings_table ''k'' ''20'' ''d'' (fst (InitSetting settings_table ''k'' ''20'' ''d'' [])))) = ''20''"
proof -
  have "GetSetting settings_table ''k'' [] = None" "list_inv kvID []"
    by (simp_all add: GetSetting_def settings_table_def list_table_def list_inv_def)
  then show ?thesis
    using InitSetting_first_run [OF settings.gorm_settings_axioms, of "[]" "''k''" "''20''" "''d''" _ _ "''20''" "''d''"]
    by (metis prod.collapse)
qed

end
