(* ===== verification/Proxy.thy ===== *)
theory Proxy imports Types GoFmt "HOL-Library.AList" begin

text \<open>
  The diode proxies (\<^verbatim>\<open>engine/diodeproxy.go\<close>): opening the three UDP connections of a proxy with
  their channels and senders, the senders' loop, and the proxy the engine uses. Dialling is the
  parameter \<open>dial\<close>, giving the error text or success for a target. A new channel gets the next
  number; a job is a running \<^verbatim>\<open>sendJob\<close>: its channel, \<open>None\<close> for a nil one, and its connection's
  target. The table \<^verbatim>\<open>proxies\<close> is an association list; Go leaves the order of iteration over a
  map open, so \<^verbatim>\<open>FirstProxy\<close> takes a number that picks the entry.
\<close>

record px_state =
  proxies :: "(nat \<times> DiodeProxy) list"
  next_chan :: chan
  jobs :: "(chan option \<times> string) list"
  px_events :: "event list"

section \<open>Operations\<close>

definition px_log :: "string \<Rightarrow> string \<Rightarrow> string \<Rightarrow> px_state \<Rightarrow> px_state" where
  "px_log cat title msg s = s\<lparr>px_events := px_events s @ [Logged cat title msg]\<rparr>"

definition px_target :: "DiodeProxy \<Rightarrow> int \<Rightarrow> string" where
  "px_target p port = Sprintf ''%s:%d'' [AStr (EndpointIP p), AInt port]"

definition dial_failed :: "string \<Rightarrow> string \<Rightarrow> string \<Rightarrow> px_state \<Rightarrow> px_state" where
  "dial_failed kind target e = px_log ''error'' (''Failed to open '' @ kind @ '' emitter'')
     (Sprintf (''UDP '' @ kind @ '' emitter to IP: %s could not be opened, error: %s'') [AStr target, AStr e])"

definition init_data :: "(string \<Rightarrow> string option) \<Rightarrow> DiodeProxy \<times> px_state \<Rightarrow> DiodeProxy \<times> px_state" where
  "init_data dial ps = (case ps of (p, s) \<Rightarrow>
     let target = px_target p (DataPort p) in
     case dial target of
       Some e \<Rightarrow> (p\<lparr>DataCon := False\<rparr>, dial_failed ''data'' target e s)
     | None \<Rightarrow> let c = next_chan s; s = px_log ''trace'' ''Setting up outgoing DATA'' target s
               in (p\<lparr>DataCon := True, DataChan := Some c\<rparr>,
                   s\<lparr>next_chan := c + 1, jobs := jobs s @ [(Some c, target)]\<rparr>))"

definition init_meta :: "(string \<Rightarrow> string option) \<Rightarrow> DiodeProxy \<times> px_state \<Rightarrow> DiodeProxy \<times> px_state" where
  "init_meta dial ps = (case ps of (p, s) \<Rightarrow>
     let target = px_target p (MetaPort p) in
     case dial target of
       Some e \<Rightarrow> (p\<lparr>MetaCon := False\<rparr>, dial_failed ''meta'' target e s)
     | None \<Rightarrow> let c = next_chan s; s = px_log ''trace'' ''Setting up outgoing META'' target s
               in (p\<lparr>MetaCon := True, MetaChan := Some c\<rparr>,
                   s\<lparr>next_chan := c + 1, jobs := jobs s @ [(Some c, target)]\<rparr>))"

text \<open>The new channel of the file connection is assigned to \<^verbatim>\<open>MetaChan\<close>; its sender reads \<^verbatim>\<open>FileChan\<close>.\<close>

definition init_file :: "(string \<Rightarrow> string option) \<Rightarrow> DiodeProxy \<times> px_state \<Rightarrow> DiodeProxy \<times> px_state" where
  "init_file dial ps = (case ps of (p, s) \<Rightarrow>
     let target = px_target p (FilePort p) in
     case dial target of
       Some e \<Rightarrow> (p\<lparr>FileCon := False\<rparr>, dial_failed ''file'' target e s)
     | None \<Rightarrow> let c = next_chan s; s = px_log ''trace'' ''Setting up outgoing FILE'' target s
               in (p\<lparr>FileCon := True, MetaChan := Some c\<rparr>,
                   s\<lparr>next_chan := c + 1, jobs := jobs s @ [(FileChan p, target)]\<rparr>))"

definition set_proxy :: "nat \<Rightarrow> DiodeProxy \<Rightarrow> (nat \<times> DiodeProxy) list \<Rightarrow> (nat \<times> DiodeProxy) list" where
  "set_proxy i p ps = AList.update i p ps"

text \<open>The error returned is the one of the last connection.\<close>

definition initProxy :: "(string \<Rightarrow> string option) \<Rightarrow> DiodeProxy \<Rightarrow> px_state \<Rightarrow> DiodeProxy \<times> px_state \<times> string option" where
  "initProxy dial p s =
     (let (p', s') = init_file dial (init_meta dial (init_data dial (p, s)));
          s'' = px_log ''trace'' ''Proxy'' (Sprintf ''Proxy with ID %d initialized'' [AInt (int (dpID p'))]) s'
      in (p', s''\<lparr>proxies := set_proxy (dpID p') p' (proxies s'')\<rparr>, dial (px_target p (FilePort p))))"

definition FirstProxy :: "nat \<Rightarrow> px_state \<Rightarrow> DiodeProxy option" where
  "FirstProxy pick s = (if proxies s = [] then None else Some (snd (proxies s ! (pick mod length (proxies s)))))"

text \<open>\<^verbatim>\<open>%#v\<close> of a byte slice.\<close>

definition hex_trim :: "byte \<Rightarrow> string" where
  "hex_trim b = (if unat b < 16 then [hex_digit (unat b)] else fmt_x [b])"

fun comma_join :: "string list \<Rightarrow> string" where
  "comma_join [] = ''''"
| "comma_join [x] = x"
| "comma_join (x # xs) = x @ '', '' @ comma_join xs"

definition go_bytes :: "bytes \<Rightarrow> string" where
  "go_bytes bs = ''[]byte{'' @ comma_join (map (\<lambda>b. ''0x'' @ hex_trim b) bs) @ ''}''"

text \<open>The loop of a sender over the messages its channel delivers: what is written, what is logged.\<close>

fun sendJob :: "(bytes \<Rightarrow> string option) \<Rightarrow> bytes list \<Rightarrow> bytes list \<times> event list" where
  "sendJob write [] = ([], [])"
| "sendJob write (data # ds) =
     (let (sent, es) = sendJob write ds in
      case write data of
        None \<Rightarrow> (data # sent, es)
      | Some e \<Rightarrow> (sent, error_events ''Proxy''
          (''Failed to send '' @ go_bytes data @ '', error: '' @ e) @ es))"

section \<open>Lemmas\<close>

lemma px_log_simps [simp]:
  "proxies (px_log c t m s) = proxies s" "next_chan (px_log c t m s) = next_chan s" "jobs (px_log c t m s) = jobs s"
  by (simp_all add: px_log_def)

lemma dial_failed_simps [simp]:
  "proxies (dial_failed k t e s) = proxies s" "next_chan (dial_failed k t e s) = next_chan s"
  "jobs (dial_failed k t e s) = jobs s"
  by (simp_all add: dial_failed_def)

interpretation proxy_table: kv_store map_of set_proxy "\<lambda>_. True"
  by unfold_locales (simp_all add: set_proxy_def update_conv')

lemma sendJob_sent: "fst (sendJob write ds) = filter (\<lambda>d. write d = None) ds"
  by (induction ds) (auto split: prod.splits option.splits)

section \<open>Properties\<close>

text \<open>
  C33. When the three connections open, \<^verbatim>\<open>initProxy\<close> enters the proxy under its ID, leaves other
  proxies alone, and the data channel is fresh and read by the sender of the data connection. But
  the meta channel is read by no sender, so a message put on it is never taken, and the sender
  of the file connection reads the channel the proxy came with, nil for a proxy from the
  database.
\<close>

theorem initProxy_channels:
  assumes "initProxy dial p s = (p', s', err)"
    and "\<And>t. dial t = None" and "\<forall>j \<in> set (jobs s). \<forall>c. fst j = Some c \<longrightarrow> c < next_chan s" and "FileChan p = None"
  shows "err = None \<and> map_of (proxies s') = (map_of (proxies s))(dpID p \<mapsto> p') \<and>
    jobs s' = jobs s @ [(DataChan p', px_target p (DataPort p)), (Some (next_chan s + 1), px_target p (MetaPort p)),
      (None, px_target p (FilePort p))] \<and>
    DataChan p' = Some (next_chan s) \<and> FileChan p' = None \<and>
    (\<exists>c. MetaChan p' = Some c \<and> (\<forall>j \<in> set (jobs s'). fst j \<noteq> Some c))"
  using assms
  by (auto simp: initProxy_def init_data_def init_meta_def init_file_def Let_def px_target_def proxy_table.get_put)
    (drule (1) bspec, simp)

definition plain_proxy :: DiodeProxy where
  "plain_proxy = \<lparr>dpID = 1, dpName = ''p'', dpDescription = [], EndpointIP = ''10.0.0.1'', EndpointMAC = [],
     MetaPort = 4356, DataPort = 4357, FilePort = 4358, DataChan = None, MetaChan = None, FileChan = None,
     DataCon = False, MetaCon = False, FileCon = False\<rparr>"

definition no_proxies :: px_state where
  "no_proxies = \<lparr>proxies = [], next_chan = 0, jobs = [], px_events = []\<rparr>"

lemma initProxy_channels_witness:
  "\<exists>p' s'. initProxy (\<lambda>_. None) plain_proxy no_proxies = (p', s', None) \<and> map_of (proxies s') 1 = Some p' \<and>
    DataChan p' = Some 0 \<and> MetaChan p' = Some 2 \<and> map fst (jobs s') = [Some 0, Some 1, None]"
proof -
  obtain p' s' err where r: "initProxy (\<lambda>_. None) plain_proxy no_proxies = (p', s', err)" by (metis prod_cases3)
  have "MetaChan p' = Some 2"
    using r by (auto simp: initProxy_def init_data_def init_meta_def init_file_def Let_def no_proxies_def)
  then show ?thesis
    using initProxy_channels [OF r] r by (simp add: no_proxies_def plain_proxy_def)
qed

text \<open>
  \<^verbatim>\<open>FirstProxy\<close> finds no proxy exactly when none is initialised, whichever entry the iteration
  over the map begins with, and then returns one of the table.
\<close>

theorem FirstProxy_some:
  "(FirstProxy pick s = None \<longleftrightarrow> proxies s = []) \<and>
   (\<forall>p. FirstProxy pick s = Some p \<longrightarrow> p \<in> snd ` set (proxies s)) \<and>
   FirstProxy pick (fst (snd (initProxy dial q s))) \<noteq> None"
proof -
  have "set_proxy i p ps \<noteq> []" for i p ps
    by (cases ps) (auto simp: set_proxy_def)
  then show ?thesis
    by (auto simp: FirstProxy_def initProxy_def Let_def split: prod.splits if_splits)
qed

lemma FirstProxy_some_witness:
  "FirstProxy 5 no_proxies = None \<and> FirstProxy 5 (fst (snd (initProxy (\<lambda>_. None) plain_proxy no_proxies))) \<noteq> None"
  using FirstProxy_some [of 5 no_proxies] FirstProxy_some [of _ no_proxies "\<lambda>_. None" plain_proxy]
  by (simp add: no_proxies_def)

text \<open>
  A sender writes the messages of its channel in the order they come; one whose write fails
  is dropped, logged once, and the sender goes on.
\<close>

theorem sendJob_order:
  "fst (sendJob write ds) = filter (\<lambda>d. write d = None) ds \<and>
   snd (sendJob write ds) = concat (map (\<lambda>d. case write d of None \<Rightarrow> [] | Some e \<Rightarrow>
     [Logged ''error'' ''Proxy'' (''Failed to send '' @ go_bytes d @ '', error: '' @ e), Notified ''logger.error'']) ds)"
  by (induction ds) (auto simp: error_events_def split: prod.splits option.splits)

end
