(* ===== verification/TransferStart.thy ===== *)
theory TransferStart imports TransferTheorems Settings Proxy begin

text \<open>
  How the file transfer starts (\<^verbatim>\<open>InitFileTransfer\<close> of \<^verbatim>\<open>engine/filetransfer.go\<close>): the settings,
  the proxy and the context of the monitor, and what that means for the first run.
\<close>

text \<open>
  The result is the context and proxy of the monitor started, or the error returned. Conversion
  errors of the two settings are ignored by the code.
\<close>

datatype started = Monitor ft_context DiodeProxy | NotStarted string

definition InitFileTransfer :: "(KeyValuePair, 'd) gorm \<Rightarrow> path \<Rightarrow> Context \<Rightarrow> DiodeProxy option \<Rightarrow> 'd \<Rightarrow> fsys \<Rightarrow>
    'd \<times> fsys \<times> started \<times> event list" where
  "InitFileTransfer G cwd gctx first d fs =
     (let (d1, sm) = InitSetting G ''filetransfer.modulus'' ''20'' ''Number of packets to send before quick pause'' d;
          (d2, sd) = InitSetting G ''filetransfer.msdelay'' ''20''
             ''Number of milliseconds to pause before start sending again'' d1;
          m = fst (Atoi (Value sm)); k = fst (Atoi (Value sd))
      in case first of
           Some px \<Rightarrow> (let (ctx, fs') = initContext cwd m k (Wdir gctx) fs in (d2, fs', Monitor ctx px, []))
         | None \<Rightarrow> (d2, fs, NotStarted ''error: file transfer disabled, No proxy defined. At least one proxy must be defined'',
             error_events ''file transfer disabled'' ''No proxy defined. At least one proxy must be defined''))"

lemma start_eq:
  assumes "InitSetting G ''filetransfer.modulus'' ''20'' ''Number of packets to send before quick pause'' d = (d1, sm)"
    and "InitSetting G ''filetransfer.msdelay'' ''20'' ''Number of milliseconds to pause before start sending again'' d1 = (d2, sd)"
    and "InitFileTransfer G cwd gctx (Some px) d fs = (d', fs', Monitor ctx px', es)"
  shows "d' = d2" "modulus ctx = fst (Atoi (Value sm))" "msdelay ctx = fst (Atoi (Value sd))"
proof -
  define c where "c = initContext cwd (fst (Atoi (Value sm))) (fst (Atoi (Value sd))) (Wdir gctx) fs"
  have "InitFileTransfer G cwd gctx (Some px) d fs = (d2, snd c, Monitor (fst c) px, [])"
    by (simp add: InitFileTransfer_def assms(1,2) Let_def c_def [symmetric] split_beta)
  moreover have "modulus (fst c) = fst (Atoi (Value sm))" "msdelay (fst c) = fst (Atoi (Value sd))"
    by (simp_all add: c_def initContext_def Let_def)
  ultimately show "d' = d2" "modulus ctx = fst (Atoi (Value sm))" "msdelay ctx = fst (Atoi (Value sd))"
    using assms(3) by simp_all
qed

lemma two_settings:
  assumes "gorm_settings G ok" and "ok d" and "GetSetting G k1 d = None" and "GetSetting G k2 d = None" and "k1 \<noteq> k2"
  shows "\<exists>d1 d2 p1 p2. InitSetting G k1 v1 x1 d = (d1, zero_pair) \<and> InitSetting G k2 v2 x2 d1 = (d2, zero_pair) \<and>
    InitSetting G k1 v1 x1 d2 = (d2, p1) \<and> InitSetting G k2 v2 x2 d2 = (d2, p2) \<and> Value p1 = v1 \<and> Value p2 = v2"
proof -
  obtain d1 n1 where d1: "InitSetting G k1 v1 x1 d = (d1, zero_pair)" "ok d1"
      "GetSetting G k1 d1 = Some \<lparr>kvID = n1, Key = k1, Value = v1, Extra = x1\<rparr>" "GetSetting G k2 d1 = None"
    using gorm_settings.init_absent [OF assms(1-3), where v = v1 and x = x1] assms(4,5) by metis
  obtain d2 n2 where d2: "InitSetting G k2 v2 x2 d1 = (d2, zero_pair)"
      "GetSetting G k2 d2 = Some \<lparr>kvID = n2, Key = k2, Value = v2, Extra = x2\<rparr>"
      "GetSetting G k1 d2 = GetSetting G k1 d1"
    using gorm_settings.init_absent [OF assms(1) d1(2,4), where v = v2 and x = x2] assms(5) by metis
  then show ?thesis using d1 gorm_settings.init_present [OF assms(1)] by simp
qed

text \<open>
  C21. On a start with neither setting in the database but a proxy, the monitor starts with a modulus of
  0, so the first non-empty file it sends panics with a division by zero (no matter what
  is refused); the next start has the defaults 20 and 20. Without a proxy, as in a new database, the
  transfer is not started, but the settings are stored: a later start with a proxy has the defaults.
\<close>

theorem first_run_modulus:
  assumes "gorm_settings G ok" and "ok d"
    and "GetSetting G ''filetransfer.modulus'' d = None" and "GetSetting G ''filetransfer.msdelay'' d = None"
    and "InitFileTransfer G cwd gctx (Some px) d fs = (d', fs', Monitor ctx px', es)"
    and "InitFileTransfer G cwd gctx (Some px) d' fs' = (d'', fs'', Monitor ctx'' px'', es'')"
  shows "modulus ctx = 0 \<and> msdelay ctx = 0 \<and> modulus ctx'' = 20 \<and> msdelay ctx'' = 20 \<and>
    (\<forall>info st c e. processing_file cwd ctx info st c \<and> dial_err e = None \<and> \<not> hash_refused e \<and> open_err e = None \<longrightarrow>
       snd (sendFile cwd px' e ctx info st) = Panic ''integer divide by zero'') \<and>
    (\<forall>d1 fs1 m es1 d2 fs2 c q es2. InitFileTransfer G cwd gctx None d fs = (d1, fs1, m, es1) \<longrightarrow>
       InitFileTransfer G cwd gctx (Some px) d1 fs1 = (d2, fs2, Monitor c q, es2) \<longrightarrow>
       (\<exists>e. m = NotStarted e) \<and> fs1 = fs \<and> modulus c = 20 \<and> msdelay c = 20)"
proof -
  obtain d1 d2 p1 p2 where p:
      "InitSetting G ''filetransfer.modulus'' ''20'' ''Number of packets to send before quick pause'' d = (d1, zero_pair)"
      "InitSetting G ''filetransfer.msdelay'' ''20'' ''Number of milliseconds to pause before start sending again'' d1 = (d2, zero_pair)"
      "InitSetting G ''filetransfer.modulus'' ''20'' ''Number of packets to send before quick pause'' d2 = (d2, p1)"
      "InitSetting G ''filetransfer.msdelay'' ''20'' ''Number of milliseconds to pause before start sending again'' d2 = (d2, p2)"
      "Value p1 = ''20''" "Value p2 = ''20''"
    using two_settings [OF assms(1-4)] by fastforce
  note one = start_eq [OF p(1,2) assms(5)]
  note two = start_eq [OF p(3,4) assms(6) [unfolded one(1)]]
  have "fst (Atoi ''20'') = 20"
    by (simp add: Atoi_def strip_sign_def is_digit_def digit_val_def clamp64_def)
  then have "modulus ctx = 0" "msdelay ctx = 0" "modulus ctx'' = 20" "msdelay ctx'' = 20"
    using one(2,3) two(2,3) by (simp_all add: zero_pair_def p(5,6))
  moreover have "(\<exists>e. m = NotStarted e) \<and> fs1 = fs \<and> modulus c = 20 \<and> msdelay c = 20"
    if "InitFileTransfer G cwd gctx None d fs = (b1, fs1, m, es1)" "InitFileTransfer G cwd gctx (Some px) b1 fs1 = (b2, fs2, Monitor c q, es2)"
    for b1 fs1 m es1 b2 fs2 c q es2
  proof -
    have none: "b1 = d2" "fs1 = fs" "\<exists>e. m = NotStarted e" using that(1) by (auto simp: InitFileTransfer_def p(1,2))
    note later = start_eq [OF p(3,4) that(2) [unfolded none(1)]]
    show ?thesis using none(2,3) later(2,3) \<open>fst (Atoi ''20'') = 20\<close> by (simp add: p(5,6))
  qed
  moreover have "snd (sendFile cwd px' e ctx info st) = Panic ''integer divide by zero''"
    if "processing_file cwd ctx info st c" "dial_err e = None" "\<not> hash_refused e" "open_err e = None" for info st c e
    using zero_modulus_panic [of ctx cwd info st c e px'] that \<open>modulus ctx = 0\<close> by auto
  ultimately show ?thesis by blast
qed

lemma start_some:
  obtains d' fs' ctx where "InitFileTransfer G cwd g (Some px) d fs = (d', fs', Monitor ctx px, [])"
  by (simp add: InitFileTransfer_def Let_def split_beta)

definition plain_context :: Context where
  "plain_context = \<lparr>Cmd = '''', Wdir = '''', Trace = False, TraceOpc = False, ShowVersion = False\<rparr>"

lemma first_run_modulus_witness:
  "\<exists>d' fs' ctx. InitFileTransfer settings_table [''w''] plain_context (Some scene_px) [] scene_fs = (d', fs', Monitor ctx scene_px, [])
    \<and> modulus ctx = 0"
proof -
  have n: "GetSetting settings_table k [] = None" "list_inv kvID []" for k
    by (simp_all add: GetSetting_def settings_table_def list_table_def list_inv_def)
  obtain d' fs' ctx where a: "InitFileTransfer settings_table [''w''] plain_context (Some scene_px) [] scene_fs = (d', fs', Monitor ctx scene_px, [])"
    by (rule start_some)
  obtain d'' fs'' ctx'' where b: "InitFileTransfer settings_table [''w''] plain_context (Some scene_px) d' fs' = (d'', fs'', Monitor ctx'' scene_px, [])"
    by (rule start_some)
  show ?thesis using first_run_modulus [OF settings.gorm_settings_axioms n(2) n(1) n(1) a b] a by blast
qed

end
