(* ===== verification/GoTime.thy ===== *)
theory GoTime imports Prelude "HOL-Library.List_Lexorder" begin

text \<open>
  The parts of Go's \<^verbatim>\<open>time\<close> package the program uses. An instant in UTC is kept as its civil
  date and clock (\<open>gotime\<close>), which is what \<^verbatim>\<open>time.Now().UTC()\<close> gives the program through
  \<^verbatim>\<open>Year()\<close>, \<^verbatim>\<open>Month()\<close> and so on; \<open>instant\<close> is its count of nanoseconds since 1 January of
  year 1, the package's internal reading. \<open>Date\<close> is \<^verbatim>\<open>time.Date(..., time.UTC)\<close> with its
  normalisation of out-of-range arguments and 64-bit wrap-around, \<open>Sub\<close> the saturating
  difference. The main lemma: civil order and instant order agree.
\<close>

section \<open>64-bit readings\<close>

definition int64 :: "int \<Rightarrow> int" where
  "int64 x = (x + 2 ^ 63) mod 2 ^ 64 - 2 ^ 63"

definition uint64 :: "int \<Rightarrow> int" where
  "uint64 x = x mod 2 ^ 64"

lemma int64_id: "- (2 ^ 63) \<le> x \<Longrightarrow> x < 2 ^ 63 \<Longrightarrow> int64 x = x"
  by (simp add: int64_def)

lemma uint64_id: "0 \<le> x \<Longrightarrow> x < 2 ^ 64 \<Longrightarrow> uint64 x = x"
  by (simp add: uint64_def)

section \<open>Civil dates\<close>

datatype gotime = GoTime (Year: int) (Month: int) (Day: int) (Hour: int) (Minute: int)
  (Second: int) (Nanosecond: int)

definition is_leap :: "int \<Rightarrow> bool" where
  "is_leap y \<longleftrightarrow> 4 dvd y \<and> (\<not> 100 dvd y \<or> 400 dvd y)"

definition days_before :: "int \<Rightarrow> int" where
  "days_before m = [0, 31, 59, 90, 120, 151, 181, 212, 243, 273, 304, 334] ! nat (m - 1)"

definition days_in :: "int \<Rightarrow> int \<Rightarrow> int" where
  "days_in m y = (if m = 2 then (if is_leap y then 29 else 28)
                  else if m = 4 \<or> m = 6 \<or> m = 9 \<or> m = 11 then 30 else 31)"

definition valid_time :: "gotime \<Rightarrow> bool" where
  "valid_time t \<longleftrightarrow> 0 \<le> Year t \<and> Year t \<le> 9999 \<and> 1 \<le> Month t \<and> Month t \<le> 12 \<and>
     1 \<le> Day t \<and> Day t \<le> days_in (Month t) (Year t) \<and> 0 \<le> Hour t \<and> Hour t < 24 \<and>
     0 \<le> Minute t \<and> Minute t < 60 \<and> 0 \<le> Second t \<and> Second t < 60 \<and>
     0 \<le> Nanosecond t \<and> Nanosecond t < 1000000000"

text \<open>Times are ordered field by field.\<close>

definition time_key :: "gotime \<Rightarrow> int list" where
  "time_key t = [Year t, Month t, Day t, Hour t, Minute t, Second t, Nanosecond t]"

lemma time_key_inject: "time_key t = time_key u \<longleftrightarrow> t = u"
  by (cases t; cases u) (simp add: time_key_def)

instantiation gotime :: linorder
begin

definition less_eq_gotime :: "gotime \<Rightarrow> gotime \<Rightarrow> bool" where
  "less_eq_gotime t u \<longleftrightarrow> time_key t \<le> time_key u"

definition less_gotime :: "gotime \<Rightarrow> gotime \<Rightarrow> bool" where
  "less_gotime t u \<longleftrightarrow> time_key t < time_key u"

instance
proof
  fix x y z :: gotime
  show "x < y \<longleftrightarrow> x \<le> y \<and> \<not> y \<le> x"
    by (simp add: less_eq_gotime_def less_gotime_def less_le_not_le)
  show "x \<le> x" and "x \<le> y \<or> y \<le> x" by (auto simp: less_eq_gotime_def)
  show "x \<le> y \<Longrightarrow> y \<le> z \<Longrightarrow> x \<le> z" by (auto simp: less_eq_gotime_def)
  show "x \<le> y \<Longrightarrow> y \<le> x \<Longrightarrow> x = y"
    by (metis less_eq_gotime_def time_key_inject order.antisym)
qed

end

section \<open>time.Date\<close>

definition absoluteZeroYear :: int where
  "absoluteZeroYear = -292277022399"

definition daysSinceEpoch :: "int \<Rightarrow> int" where
  "daysSinceEpoch year =
     (let y = uint64 (year - absoluteZeroYear);
          n = y div 400; y = y - 400 * n; d = 146097 * n;
          n = y div 100; y = y - 100 * n; d = d + 36524 * n;
          n = y div 4; y = y - 4 * n; d = d + 1461 * n
      in d + 365 * y)"

definition absoluteToInternal :: int where
  "absoluteToInternal = -9223371966579724800"

text \<open>
  Seconds, minutes and hours overflow into the next unit, months into years; the day may be any
  number. The result is the internal reading in nanoseconds.
\<close>

definition Date :: "int \<Rightarrow> int \<Rightarrow> int \<Rightarrow> int \<Rightarrow> int \<Rightarrow> int \<Rightarrow> int \<Rightarrow> int" where
  "Date year month day hour mi sec nsec =
     (let m = month - 1;
          year = int64 (year + m div 12); month = m mod 12 + 1;
          sec = sec + nsec div 1000000000; nsec = nsec mod 1000000000;
          mi = mi + sec div 60; sec = sec mod 60;
          hour = hour + mi div 60; mi = mi mod 60;
          day = day + hour div 24; hour = hour mod 24;
          d = daysSinceEpoch year + days_before month
              + (if is_leap year \<and> 3 \<le> month then 1 else 0) + (day - 1);
          abs = uint64 (d * 86400 + hour * 3600 + mi * 60 + sec)
      in int64 (int64 abs + absoluteToInternal) * 1000000000 + nsec)"

definition instant :: "gotime \<Rightarrow> int" where
  "instant t = Date (Year t) (Month t) (Day t) (Hour t) (Minute t) (Second t) (Nanosecond t)"

text \<open>\<^verbatim>\<open>t.Sub(u)\<close>: the difference, or the nearest 64-bit \<^verbatim>\<open>Duration\<close> if it does not fit.\<close>

definition Sub :: "int \<Rightarrow> int \<Rightarrow> int" where
  "Sub t u = max (- (2 ^ 63)) (min (2 ^ 63 - 1) (t - u))"

section \<open>Valid dates: no wrap-around, and order is preserved\<close>

definition days_to :: "int \<Rightarrow> int" where
  "days_to y = 365 * y + y div 4 - y div 100 + y div 400"

lemma div_step: "0 < k \<Longrightarrow> (n + 1) div k = n div k + (if k dvd n + 1 then 1 else 0)" for n k :: int
proof -
  assume k: "0 < k"
  show ?thesis
  proof (cases "k dvd n + 1")
    case True
    then obtain q where q: "n + 1 = k * q" by (auto elim: dvdE)
    then have "n = k * (q - 1) + (k - 1)" by (simp add: algebra_simps)
    then have "n div k = q - 1" using k
      by (metis add_diff_cancel_left' add.right_neutral diff_ge_0_iff_ge div_pos_pos_trivial
          div_mult_self4 int_one_le_iff_zero_less less_irrefl diff_less_eq less_add_one)
    with q True k show ?thesis by simp
  next
    case False
    define q r where "q = n div k" and "r = n mod k"
    have n: "n = k * q + r" and r: "0 \<le> r" "r < k" using k by (simp_all add: q_def r_def)
    have "r + 1 \<noteq> k" using False n by (metis add.assoc dvd_def mult.commute distrib_left mult_1_right)
    then have "(r + 1) div k = 0" using r by (simp add: div_pos_pos_trivial)
    moreover have "(n + 1) div k = q + (r + 1) div k"
      using k n by (simp add: add.assoc)
    ultimately show ?thesis using False by (simp add: q_def)
  qed
qed

lemma days_to_step: "days_to (y + 1) = days_to y + 365 + (if is_leap (y + 1) then 1 else 0)"
  by (auto simp: days_to_def div_step is_leap_def elim: dvd_trans [rotated])

lemma days_to_mono: "y < z \<Longrightarrow> days_to y + 365 + (if is_leap (y + 1) then 1 else 0) \<le> days_to z"
proof -
  have step: "days_to a \<le> days_to (a + 1)" for a by (simp add: days_to_step)
  have "days_to (y + 1) \<le> days_to (y + 1 + int k)" for k
    by (induction k) (use step order_trans in \<open>fastforce simp: ac_simps\<close>)+
  then show "y < z \<Longrightarrow> ?thesis"
    using days_to_step [of y] by (metis add.commute zle_iff_zadd zless_imp_add1_zle)
qed

lemma daysSinceEpoch_days_to:
  assumes "0 \<le> year" and "year \<le> 9999"
  shows "daysSinceEpoch year = days_to (year - 1) + 146097 * 730692556"
proof -
  define y where "y = year + 292277022399"
  have y: "uint64 (year - absoluteZeroYear) = y" "0 \<le> y"
    using assms by (simp_all add: y_def uint64_def absoluteZeroYear_def)
  define a r1 where "a = y div 400" and "r1 = y - 400 * a"
  define b r2 where "b = r1 div 100" and "r2 = r1 - 100 * b"
  define c e where "c = r2 div 4" and "e = r2 - 4 * c"
  have r1: "0 \<le> r1" "r1 < 400" unfolding r1_def a_def by presburger+
  have r2: "0 \<le> r2" "r2 < 100" unfolding r2_def b_def by presburger+
  have b: "0 \<le> b" "b \<le> 3" using r1 unfolding b_def by presburger+
  have e: "0 \<le> e" "e < 4" unfolding e_def c_def by presburger+
  have c: "0 \<le> c" "c \<le> 24" using r2 unfolding c_def by presburger+
  have yy: "y = 400 * a + 100 * b + 4 * c + e" by (simp add: r1_def r2_def e_def)
  have q4: "y div 4 = 100 * a + 25 * b + c"
    by (rule int_div_pos_eq [where r = e]) (use yy e in simp_all)
  have q100: "y div 100 = 4 * a + b"
    by (rule int_div_pos_eq [where r = "4 * c + e"]) (use yy c e in simp_all)
  have q400: "y div 400 = a" by (simp add: a_def)
  have "daysSinceEpoch year = 146097 * a + 36524 * b + 1461 * c + 365 * e"
    unfolding daysSinceEpoch_def y(1) Let_def a_def r1_def b_def r2_def c_def e_def by (rule refl)
  also have "\<dots> = days_to y"
    unfolding days_to_def q4 q100 q400 using yy by linarith
  finally have "daysSinceEpoch year = days_to y" .
  moreover have cycle: "days_to (n + 400 * k) = days_to n + 146097 * k" for n k :: int
  proof -
    have "(n + 400 * k) div 4 = n div 4 + 100 * k" "(n + 400 * k) div 100 = n div 100 + 4 * k"
      "(n + 400 * k) div 400 = n div 400 + k"
      using div_mult_self4 [of 4 "100 * k" n] div_mult_self4 [of 100 "4 * k" n] by (simp_all add: ac_simps)
    then show ?thesis by (simp add: days_to_def)
  qed
  have "y = (year - 1) + 400 * 730692556" by (simp add: y_def)
  then have "days_to y = days_to (year - 1) + 146097 * 730692556"
    using cycle [of "year - 1" 730692556] by simp
  ultimately show ?thesis by simp
qed

text \<open>The day of a date, counted from a fixed day, grows with the date.\<close>

definition month_start :: "int \<Rightarrow> int \<Rightarrow> int" where
  "month_start y m = days_before m + (if is_leap y \<and> 3 \<le> m then 1 else 0)"

definition day_number :: "int \<Rightarrow> int \<Rightarrow> int \<Rightarrow> int" where
  "day_number y m d = days_to (y - 1) + month_start y m + (d - 1)"

lemma month_cases:
  assumes "1 \<le> m" and "m \<le> (12::int)"
  obtains "m = 1" | "m = 2" | "m = 3" | "m = 4" | "m = 5" | "m = 6" | "m = 7" | "m = 8" | "m = 9"
    | "m = 10" | "m = 11" | "m = 12"
proof -
  have "m = 1 \<or> m = 2 \<or> m = 3 \<or> m = 4 \<or> m = 5 \<or> m = 6 \<or> m = 7 \<or> m = 8 \<or> m = 9 \<or> m = 10 \<or>
    m = 11 \<or> m = 12"
    using assms by presburger
  then show ?thesis using that by blast
qed

lemma days_before_simps [simp]:
  "days_before 1 = 0" "days_before 2 = 31" "days_before 3 = 59" "days_before 4 = 90"
  "days_before 5 = 120" "days_before 6 = 151" "days_before 7 = 181" "days_before 8 = 212"
  "days_before 9 = 243" "days_before 10 = 273" "days_before 11 = 304" "days_before 12 = 334"
  by (simp_all add: days_before_def)

lemma month_start_mono:
  assumes "1 \<le> m" and "m < n" and "n \<le> 12"
  shows "month_start y m + days_in m y \<le> month_start y n"
proof -
  have "1 \<le> n" "m \<le> 12" using assms by simp_all
  show ?thesis
    by (rule month_cases [OF \<open>1 \<le> m\<close> \<open>m \<le> 12\<close>]; rule month_cases [OF \<open>1 \<le> n\<close> \<open>n \<le> 12\<close>];
        use \<open>m < n\<close> in \<open>simp add: month_start_def days_in_def\<close>)
qed

lemma month_start_bounds:
  assumes "1 \<le> m" and "m \<le> 12"
  shows "0 \<le> month_start y m" and "month_start y m + days_in m y \<le> 365 + (if is_leap y then 1 else 0)"
  using assms by (cases rule: month_cases; simp add: month_start_def days_in_def)+

lemma day_number_mono:
  assumes "1 \<le> m" "m \<le> 12" "1 \<le> d" "d \<le> days_in m y"
    and "1 \<le> n" "n \<le> 12" "1 \<le> e" "e \<le> days_in n z"
    and less: "y < z \<or> y = z \<and> (m < n \<or> m = n \<and> d < e)"
  shows "day_number y m d < day_number z n e"
proof (cases "y < z")
  case True
  have "day_number y m d < days_to (y - 1) + 365 + (if is_leap y then 1 else 0)"
    using month_start_bounds(2) [OF assms(1,2), of y] assms(4) unfolding day_number_def by linarith
  also have "\<dots> \<le> days_to (z - 1)" using days_to_mono [of "y - 1" "z - 1"] True by simp
  also have "\<dots> \<le> day_number z n e"
    using month_start_bounds(1) [OF assms(5,6), of z] assms(7) by (simp add: day_number_def)
  finally show ?thesis .
next
  case False
  then have y: "y = z" using less by blast
  show ?thesis
  proof (cases "m < n")
    case True
    then show ?thesis
      using month_start_mono [OF assms(1) True assms(6), of y] assms(4,7) y
      by (simp add: day_number_def)
  next
    case False
    then show ?thesis using less y by (auto simp: day_number_def)
  qed
qed

lemma day_number_bounds:
  assumes "0 \<le> y" "y \<le> 9999" "1 \<le> m" "m \<le> 12" "1 \<le> d" "d \<le> days_in m y"
  shows "-400 \<le> day_number y m d" and "day_number y m d \<le> 3652425"
proof -
  have "days_to (-1) \<le> days_to (y - 1)" "days_to (y - 1) \<le> days_to 9998"
    using assms days_to_mono [of "-1" "y - 1"] days_to_mono [of "y - 1" 9998]
    by (cases "y = 0"; cases "y = 9999"; simp split: if_splits)+
  moreover have "days_to (-1) = -366" "days_to 9998 = 3651694" by (simp_all add: days_to_def)
  ultimately show "-400 \<le> day_number y m d" and "day_number y m d \<le> 3652425"
    using month_start_bounds [OF assms(3,4), of y] assms(5,6) unfolding day_number_def
    by (auto split: if_splits)
qed

definition seconds_of :: "gotime \<Rightarrow> int" where
  "seconds_of t = day_number (Year t) (Month t) (Day t) * 86400
     + Hour t * 3600 + Minute t * 60 + Second t"

lemma instant_eq:
  assumes "valid_time t"
  shows "instant t = seconds_of t * 1000000000 + Nanosecond t"
proof -
  define K :: int where "K = 146097 * 730692556"
  note v = assms [unfolded valid_time_def]
  have norm: "(Month t - 1) div 12 = 0" "(Month t - 1) mod 12 = Month t - 1"
    "Nanosecond t div 1000000000 = 0" "Nanosecond t mod 1000000000 = Nanosecond t"
    "Second t div 60 = 0" "Second t mod 60 = Second t"
    "Minute t div 60 = 0" "Minute t mod 60 = Minute t"
    "Hour t div 24 = 0" "Hour t mod 24 = Hour t"
    using v by simp_all
  have y: "int64 (Year t) = Year t" using v by (simp add: int64_def)
  have D: "daysSinceEpoch (Year t) = days_to (Year t - 1) + K"
    using daysSinceEpoch_days_to v by (simp add: K_def)
  have b: "-400 \<le> day_number (Year t) (Month t) (Day t)" "day_number (Year t) (Month t) (Day t) \<le> 3652425"
    using day_number_bounds v by blast+
  define a where "a = K * 86400 + seconds_of t"
  have a: "9223371966579724800 - 400 * 86400 \<le> a" "a \<le> 9223371966579724800 + 3652426 * 86400"
    using b v unfolding a_def K_def seconds_of_def by linarith+
  have w: "int64 (int64 (uint64 a) + absoluteToInternal) = seconds_of t"
  proof -
    have "int64 (int64 (uint64 a) + absoluteToInternal) = int64 (a + absoluteToInternal)"
      unfolding int64_def uint64_def by (simp add: mod_simps algebra_simps)
    also have "a + absoluteToInternal = seconds_of t"
      by (simp add: a_def K_def absoluteToInternal_def)
    also have "int64 (seconds_of t) = seconds_of t"
      using a unfolding a_def K_def by (simp add: int64_def)
    finally show ?thesis .
  qed
  have E: "(daysSinceEpoch (Year t) + days_before (Month t) +
      (if is_leap (Year t) \<and> 3 \<le> Month t then 1 else 0) + (Day t - 1)) * 86400 +
      Hour t * 3600 + Minute t * 60 + Second t = a"
    unfolding D a_def seconds_of_def day_number_def month_start_def by simp
  show ?thesis
    unfolding instant_def Date_def Let_def by (simp only: norm y add_0_right diff_add_cancel E w)
qed

text \<open>Valid instants are ordered as their dates and clocks are.\<close>

lemma instant_less:
  assumes t: "valid_time t" and u: "valid_time u" and "t < u"
  shows "instant t < instant u"
proof -
  note v = t [unfolded valid_time_def] and w = u [unfolded valid_time_def]
  let ?d = "day_number (Year t) (Month t) (Day t)" and ?e = "day_number (Year u) (Month u) (Day u)"
  from \<open>t < u\<close> consider
      "Year t < Year u \<or> Year t = Year u \<and> (Month t < Month u \<or> Month t = Month u \<and> Day t < Day u)"
    | "Year t = Year u" "Month t = Month u" "Day t = Day u"
      "Hour t < Hour u \<or> Hour t = Hour u \<and> (Minute t < Minute u \<or> Minute t = Minute u \<and>
        (Second t < Second u \<or> Second t = Second u \<and> Nanosecond t < Nanosecond u))"
    by (auto simp: less_gotime_def time_key_def)
  then show ?thesis
  proof cases
    case 1
    then have "?d < ?e" using day_number_mono v w by blast
    then have "?d * 86400 + 86400 \<le> ?e * 86400" by simp
    then have "seconds_of t < seconds_of u" using v w unfolding seconds_of_def by linarith
    then show ?thesis using v w by (simp add: instant_eq t u)
  next
    case 2
    then have "seconds_of t < seconds_of u \<or>
        seconds_of t = seconds_of u \<and> Nanosecond t < Nanosecond u"
      using v w unfolding seconds_of_def by fastforce
    then show ?thesis using v w by (auto simp: instant_eq t u)
  qed
qed

lemma instant_less_iff: "valid_time t \<Longrightarrow> valid_time u \<Longrightarrow> instant t < instant u \<longleftrightarrow> t < u"
  by (metis instant_less less_asym linorder_neqE)

lemma instant_le_iff: "valid_time t \<Longrightarrow> valid_time u \<Longrightarrow> instant t \<le> instant u \<longleftrightarrow> t \<le> u"
  by (metis instant_less_iff linorder_not_le)

end
