(* ===== verification/Cache.thy ===== *)
theory Cache imports Settings GoFmt GoTime GoPath FileSys begin

text \<open>
  The message cache (\<^verbatim>\<open>engine/cache.go\<close>): the file being written, its rotation, the index of the
  cached files, their retention, and copying them to the outgoing directory. The state holds the
  package's variables and the file system. Reading the clock, the gzip coding and the JSON text of a
  message are parameters. The two writers above the file hold back part of what is written: a \<open>coder\<close> tells
  which bytes reach the file with each write, and which when the file is closed.
\<close>

section \<open>State\<close>

record CacheItem =
  Filename :: string
  itemTime :: int
  itemSize :: int

record CacheInfo =
  cacheSize :: int
  cacheCount :: int
  FirstTime :: int
  LastTime :: int
  Items :: "CacheItem list"

text \<open>
  The three variables \<^verbatim>\<open>file\<close>, \<^verbatim>\<open>gzw\<close> and \<^verbatim>\<open>fw\<close>: not yet made; open on a file (\<open>None\<close> if it could not be
  opened) with the writes to \<^verbatim>\<open>fw\<close> so far; or closed, when further writes have no effect.
\<close>

datatype writer = NoWriter | Writer "path option" "bytes list" | Closed

text \<open>
  \<^verbatim>\<open>bufio.Writer\<close> over \<^verbatim>\<open>gzip.Writer\<close>: the bytes that come out at the bottom when \<open>b\<close> is written after the
  writes \<open>ws\<close>, and those that come out when both are flushed and closed after \<open>ws\<close>.
\<close>

record coder =
  gz_write :: "bytes list \<Rightarrow> bytes \<Rightarrow> bytes"
  gz_close :: "bytes list \<Rightarrow> bytes"

record cache_state =
  c_fs :: fsys
  cacheInfo :: CacheInfo
  cacheMutex :: bool
  fw :: writer
  firstWrite :: bool
  prevRemainder :: int
  c_events :: "event list"

definition c_emit :: "event list \<Rightarrow> cache_state \<Rightarrow> cache_state" where
  "c_emit es s = s\<lparr>c_events := c_events s @ es\<rparr>"

section \<open>The file being written\<close>

text \<open>Bytes that come out at the bottom are appended to the file, if there is one.\<close>

definition to_file :: "path option \<Rightarrow> bytes \<Rightarrow> cache_state \<Rightarrow> cache_state" where
  "to_file f c s = (case f of Some p \<Rightarrow> s\<lparr>c_fs := Append p c (c_fs s)\<rparr> | None \<Rightarrow> s)"

definition fw_Write :: "coder \<Rightarrow> bytes \<Rightarrow> cache_state \<Rightarrow> cache_state" where
  "fw_Write gz b s = (case fw s of
       Writer f ws \<Rightarrow> to_file f (gz_write gz ws b) (s\<lparr>fw := Writer f (ws @ [b])\<rparr>)
     | NoWriter \<Rightarrow> s | Closed \<Rightarrow> s)"

definition fw_Close :: "coder \<Rightarrow> cache_state \<Rightarrow> cache_state" where
  "fw_Close gz s = (case fw s of
       Writer f ws \<Rightarrow> to_file f (gz_close gz ws) (s\<lparr>fw := Closed\<rparr>)
     | NoWriter \<Rightarrow> s | Closed \<Rightarrow> s)"

definition CloseCache :: "coder \<Rightarrow> cache_state \<Rightarrow> cache_state" where
  "CloseCache gz s = (if fw s \<noteq> NoWriter then fw_Close gz (fw_Write gz (bytes_of '']'') s) else s)"

definition cache_dir :: "gotime \<Rightarrow> string" where
  "cache_dir now = Sprintf ''cache/%d/%02d/%02d'' [AInt (Year now), AInt (Month now), AInt (Day now)]"

definition cache_name :: "gotime \<Rightarrow> string" where
  "cache_name now = Sprintf ''dd_%d_%02d_%02d-%02d_%02d.json.gz''
     [AInt (Year now), AInt (Month now), AInt (Day now), AInt (Hour now), AInt (Minute now)]"

definition createFile :: "coder \<Rightarrow> path \<Rightarrow> gotime \<Rightarrow> cache_state \<Rightarrow> cache_state" where
  "createFile gz cwd now s =
     (let dirpath = cache_dir now; filename = cache_name now;
          fullname = path_Join [dirpath, filename];
          s1 = s\<lparr>c_fs := MkdirAll (resolve cwd dirpath) (c_fs s)\<rparr>;
          s2 = CloseCache gz s1
      in case OpenAppend (resolve cwd fullname) (c_fs s2) of
           Some fs \<Rightarrow> s2\<lparr>c_fs := fs, fw := Writer (Some (resolve cwd fullname)) [], firstWrite := True\<rparr>
         | None \<Rightarrow> s2\<lparr>fw := Writer None [], firstWrite := True\<rparr>)"

text \<open>
  One message through the loop of \<^verbatim>\<open>processMessages\<close>. The clock is read once for the remainder and
  again in \<^verbatim>\<open>createFile\<close>.
\<close>

definition processMessage :: "coder \<Rightarrow> ('m \<Rightarrow> string) \<Rightarrow> path \<Rightarrow> gotime \<Rightarrow> gotime \<Rightarrow> 'm \<Rightarrow> cache_state \<Rightarrow> cache_state" where
  "processMessage gz json cwd now now' msg s =
     (let remainder = Minute now mod 5;
          s1 = (if remainder = 0 \<and> remainder \<noteq> prevRemainder s then createFile gz cwd now' s else s);
          s2 = s1\<lparr>prevRemainder := remainder\<rparr>
      in if fw s2 \<noteq> NoWriter
         then let s3 = fw_Write gz (bytes_of (if firstWrite s2 then ''['' else '','')) s2;
                  s4 = fw_Write gz (bytes_of (json msg)) s3
              in s4\<lparr>firstWrite := False\<rparr>
         else s2)"

fun processMessages :: "coder \<Rightarrow> ('m \<Rightarrow> string) \<Rightarrow> path \<Rightarrow> (gotime \<times> gotime \<times> 'm) list \<Rightarrow> cache_state \<Rightarrow> cache_state" where
  "processMessages gz json cwd [] s = s"
| "processMessages gz json cwd ((now, now', msg) # ms) s =
     processMessages gz json cwd ms (processMessage gz json cwd now now' msg s)"

definition InitCache :: "(KeyValuePair, 'd) gorm \<Rightarrow> coder \<Rightarrow> path \<Rightarrow> gotime \<Rightarrow> 'd \<times> cache_state \<Rightarrow> 'd \<times> cache_state" where
  "InitCache G gz cwd now ds = (case ds of (d, s) \<Rightarrow>
     (fst (InitSetting G ''cache.retention'' ''7'' ''Number of days to retain cached files'' d),
      (createFile gz cwd now s)\<lparr>prevRemainder := -1\<rparr>))"

section \<open>The index\<close>

definition getTimeFromFilename :: "string \<Rightarrow> int" where
  "getTimeFromFilename filename =
     (let vs = Sscanf filename ''dd_%d_%02d_%02d-%02d_%02d.json.gz''
      in Date (scanned vs 0) (scanned vs 1) (scanned vs 2) (scanned vs 3) (scanned vs 4) 0 0)"

text \<open>The name \<^verbatim>\<open>filepath.Walk\<close> gives an entry below its root: joined with backslashes.\<close>

definition walk_name :: "string \<Rightarrow> path \<Rightarrow> string" where
  "walk_name root rel = root @ concat (map (\<lambda>n. CHR 0x5C # n) rel)"

definition indexer :: "path \<Rightarrow> fsys \<Rightarrow> path \<Rightarrow> CacheItem list" where
  "indexer root fs p = (case fs_get fs p of
       Some (File c) \<Rightarrow> [\<lparr>Filename = walk_name ''cache'' (drop (length root) p),
                         itemTime = getTimeFromFilename (last p), itemSize = int (length c)\<rparr>]
     | _ \<Rightarrow> [])"

text \<open>
  With no \<^verbatim>\<open>cache\<close> directory the walk hands \<^verbatim>\<open>indexer\<close> a nil \<^verbatim>\<open>FileInfo\<close>; the mutex is then held.
\<close>

definition refreshCache :: "path \<Rightarrow> cache_state \<Rightarrow> cache_state \<times> unit outcome" where
  "refreshCache cwd s =
     (if cacheMutex s then (s, NoReturn)
      else let root = resolve cwd ''cache'';
               s1 = s\<lparr>cacheMutex := True, cacheInfo := (cacheInfo s)\<lparr>Items := [], cacheSize := 0\<rparr>\<rparr>
      in if fs_get (c_fs s) root = None
         then (s1, Panic ''invalid memory address or nil pointer dereference'')
         else let items = concat (map (indexer root (c_fs s)) (Walk (c_fs s) root));
                  i = (cacheInfo s1)\<lparr>Items := items, cacheSize := sum_list (map itemSize items),
                        cacheCount := int (length items)\<rparr>
              in (s1\<lparr>cacheInfo := i, cacheMutex := False\<rparr>, Ret ()))"

definition GetCacheInfo :: "path \<Rightarrow> cache_state \<Rightarrow> cache_state \<times> CacheInfo outcome" where
  "GetCacheInfo cwd s = (case refreshCache cwd s of
       (s', Ret _) \<Rightarrow>
         (let i = cacheInfo s';
              i' = (if cacheCount i > 0
                    then i\<lparr>FirstTime := itemTime (Items i ! 0), LastTime := itemTime (Items i ! nat (cacheCount i - 1))\<rparr>
                    else i)
          in (s'\<lparr>cacheInfo := i'\<rparr>, Ret i'))
     | (s', Panic m) \<Rightarrow> (s', Panic m)
     | (s', Fatal m) \<Rightarrow> (s', Fatal m)
     | (s', NoReturn) \<Rightarrow> (s', NoReturn))"

section \<open>Retention\<close>

definition retention_days :: "(KeyValuePair, 'd) gorm \<Rightarrow> 'd \<Rightarrow> int \<Rightarrow> int" where
  "retention_days G d days = (case GetSetting G ''cache.retention'' d of
       Some s \<Rightarrow> (let n = fst (Atoi (Value s)) in if n < 1 then 7 else n)
     | None \<Rightarrow> days)"

text \<open>\<^verbatim>\<open>time.Duration(uint64(days)*24*uint64(time.Hour))\<close>\<close>

definition retention :: "int \<Rightarrow> int" where
  "retention days = int64 (uint64 (uint64 days * 24 * 3600000000000))"

text \<open>
  The file being written cannot be removed while it is open; \<open>refused\<close> are the files whose removal the system
  refuses for another reason. The error is not looked at.
\<close>

definition remove_item :: "(path \<Rightarrow> bool) \<Rightarrow> path \<Rightarrow> CacheItem \<Rightarrow> cache_state \<Rightarrow> cache_state" where
  "remove_item refused cwd item s =
     (let p = resolve cwd (Filename item) in
      if (\<exists>ws. fw s = Writer (Some p) ws) \<or> refused p then s
      else case Remove p (c_fs s) of Some fs \<Rightarrow> s\<lparr>c_fs := fs\<rparr> | None \<Rightarrow> s)"

text \<open>One tick of \<^verbatim>\<open>pruneCache\<close>, with the number of days it remembers.\<close>

definition pruneCache :: "(KeyValuePair, 'd) gorm \<Rightarrow> (path \<Rightarrow> bool) \<Rightarrow> path \<Rightarrow> gotime \<Rightarrow> 'd \<Rightarrow> int \<Rightarrow> cache_state \<Rightarrow> cache_state \<times> int outcome" where
  "pruneCache G refused cwd now d days s =
     (let days' = retention_days G d days in
      case refreshCache cwd s of
        (s1, Ret _) \<Rightarrow>
          (let old = filter (\<lambda>i. Sub (instant now) (itemTime i) > retention days') (Items (cacheInfo s1));
               s2 = fold (remove_item refused cwd) old s1;
               count = length old
           in (if count > 0
               then c_emit (trace_events ''Cache pruned'' (Sprintf ''%d files pruned from cache'' [AInt (int count)])) s2
               else s2, Ret days'))
      | (s1, Panic m) \<Rightarrow> (s1, Panic m)
      | (s1, Fatal m) \<Rightarrow> (s1, Fatal m)
      | (s1, NoReturn) \<Rightarrow> (s1, NoReturn))"

section \<open>Copying to the outgoing directory\<close>

text \<open>
  \<^verbatim>\<open>copyFile\<close>: the state and whether it succeeded. Creating the target empties it before the copy
  reads the source.
\<close>

definition copyFile :: "path \<Rightarrow> string \<Rightarrow> string \<Rightarrow> cache_state \<Rightarrow> cache_state \<times> bool" where
  "copyFile cwd src dst s =
     (if fs_get (c_fs s) (resolve cwd src) = None then (s, False)
      else let dir = path_Dir (to_slashes dst);
               s1 = c_emit (trace_events ''Cache'' (Sprintf ''Creating directory %s'' [AStr dir])) s;
               fs1 = MkdirAll (resolve cwd dir) (c_fs s1)
      in case WriteFile (resolve cwd dst) [] fs1 of
           None \<Rightarrow> (s1\<lparr>c_fs := fs1\<rparr>, False)
         | Some fs2 \<Rightarrow>
             (case ReadFile (resolve cwd src) fs2 of
                None \<Rightarrow> (s1\<lparr>c_fs := fs2\<rparr>, False)
              | Some c \<Rightarrow> (s1\<lparr>c_fs := fs_put (resolve cwd dst) (File c) fs2\<rparr>, True)))"

definition resendCacheItem :: "path \<Rightarrow> string \<Rightarrow> CacheItem \<Rightarrow> cache_state \<Rightarrow> cache_state \<times> int" where
  "resendCacheItem cwd os_text item s =
     (let newFilename = path_Join [''outgoing'', ''new'', Filename item];
          (s1, ok) = copyFile cwd (Filename item) newFilename s
      in (if ok then s1
          else c_emit (error_events ''Cache'' (Sprintf ''Failed to copy file %s to %s, error: %s''
             [AStr (Filename item), AStr newFilename, AStr os_text])) s1, 1))"

fun resend_loop :: "path \<Rightarrow> string \<Rightarrow> CacheItem list \<Rightarrow> cache_state \<Rightarrow> int \<Rightarrow> cache_state \<times> int" where
  "resend_loop cwd os_text [] s count = (s, count)"
| "resend_loop cwd os_text (item # items) s count =
     (if \<exists>fi \<in> set (Items (cacheInfo s)). Filename fi = Filename item
      then let (s', n) = resendCacheItem cwd os_text item s in resend_loop cwd os_text items s' (count + n)
      else resend_loop cwd os_text items s count)"

text \<open>\<open>px\<close> is the file transfer's proxy variable.\<close>

definition ResendCacheItems :: "path \<Rightarrow> string \<Rightarrow> DiodeProxy option \<Rightarrow> CacheItem list \<Rightarrow> cache_state \<Rightarrow> cache_state \<times> int outcome" where
  "ResendCacheItems cwd os_text px items s =
     (let (s0, r) = (if cacheSize (cacheInfo s) \<le> 0
                     then (case GetCacheInfo cwd s of (s', Ret _) \<Rightarrow> (s', Ret ()) | (s', Panic m) \<Rightarrow> (s', Panic m)
                            | (s', Fatal m) \<Rightarrow> (s', Fatal m) | (s', NoReturn) \<Rightarrow> (s', NoReturn))
                     else (s, Ret ()))
      in case r of
           Ret _ \<Rightarrow>
             (if px = None then (c_emit (trace_events ''Cache error'' ''No proxy defined'') s0, Ret 0)
              else let (s1, n) = resend_loop cwd os_text items s0 0 in (s1, Ret n))
         | Panic m \<Rightarrow> (s0, Panic m) | Fatal m \<Rightarrow> (s0, Fatal m) | NoReturn \<Rightarrow> (s0, NoReturn))"

text \<open>
  One entry of the walk of \<^verbatim>\<open>copyDir\<close>, at the path \<open>rel\<close> below the source; the walk stops at the first
  failure. A missing source gives the walk function its root only, which it passes over.
\<close>

definition copy_entry :: "path \<Rightarrow> path \<Rightarrow> path \<Rightarrow> fsys \<Rightarrow> fsys \<times> bool" where
  "copy_entry src dst rel fs =
     (if rel = [] then (fs, True)
      else case fs_get fs (src @ rel) of
        Some Dir \<Rightarrow> (let fs' = MkdirAll (dst @ rel) fs in (fs', is_dir fs' (dst @ rel)))
      | Some (File c) \<Rightarrow> (case WriteFile (dst @ rel) c fs of Some fs' \<Rightarrow> (fs', True) | None \<Rightarrow> (fs, False))
      | None \<Rightarrow> (fs, False))"

fun copy_walk :: "path \<Rightarrow> path \<Rightarrow> path list \<Rightarrow> fsys \<Rightarrow> fsys \<times> bool" where
  "copy_walk src dst [] fs = (fs, True)"
| "copy_walk src dst (rel # rels) fs =
     (case copy_entry src dst rel fs of (fs', True) \<Rightarrow> copy_walk src dst rels fs' | (fs', False) \<Rightarrow> (fs', False))"

definition copyDir :: "path \<Rightarrow> string \<Rightarrow> string \<Rightarrow> string \<Rightarrow> cache_state \<Rightarrow> cache_state \<times> bool" where
  "copyDir cwd os_text source destination s =
     (let src = resolve cwd source;
          (fs, ok) = copy_walk src (resolve cwd destination)
             (map (drop (length src)) (Walk (c_fs s) src)) (c_fs s);
          s' = s\<lparr>c_fs := fs\<rparr>
      in (if ok then s' else c_emit (error_events ''Cache'' (Sprintf ''copy command failed: %s'' [AStr os_text])) s', ok))"

definition SendFullCache :: "path \<Rightarrow> string \<Rightarrow> cache_state \<Rightarrow> cache_state \<times> bool" where
  "SendFullCache cwd os_text s = copyDir cwd os_text ''cache'' ''outgoing/new'' s"

end
