(* ===== verification/CacheTheorems.thy ===== *)
theory CacheTheorems imports Cache begin

text \<open>
  The properties of the cache: names and times, the index, retention, the text of a cached file,
  rotation, and the copies to the outgoing directory.
\<close>

section \<open>Names\<close>

lemma cache_name_eq:
  assumes "valid_time t"
  shows "cache_name t = ''dd_'' @ fmt_d (Year t) @ ''_'' @ two_digits (Month t) @ ''_'' @ two_digits (Day t) @ ''-'' @
    two_digits (Hour t) @ ''_'' @ two_digits (Minute t) @ ''.json.gz''"
proof -
  have d: "days_in (Month t) (Year t) \<le> 31" by (simp add: days_in_def)
  have "fmt_pad [] (Year t) = fmt_d (Year t)" by (simp add: fmt_pad_def)
  then show ?thesis
    using assms d by (simp add: cache_name_def valid_time_def Sprintf_def fmt_arg_verb_def is_digit_def fmt_extra_def fmt_pad_02)
qed

lemma cache_dir_eq:
  assumes "valid_time t"
  shows "cache_dir t = ''cache/'' @ fmt_d (Year t) @ ''/'' @ two_digits (Month t) @ ''/'' @ two_digits (Day t)"
proof -
  have d: "days_in (Month t) (Year t) \<le> 31" by (simp add: days_in_def)
  have "fmt_pad [] (Year t) = fmt_d (Year t)" by (simp add: fmt_pad_def)
  then show ?thesis
    using assms d by (simp add: cache_dir_def valid_time_def Sprintf_def fmt_arg_verb_def is_digit_def fmt_extra_def fmt_pad_02)
qed

definition minute_of :: "gotime \<Rightarrow> gotime" where
  "minute_of t = GoTime (Year t) (Month t) (Day t) (Hour t) (Minute t) 0 0"

lemma minute_valid: "valid_time t \<Longrightarrow> valid_time (minute_of t)"
  by (simp add: valid_time_def minute_of_def)

lemma year_digits: "valid_time t \<Longrightarrow> fmt_d (Year t) = dec_nat (nat (Year t))"
  by (simp add: fmt_d_def valid_time_def)

lemma time_digits:
  assumes "valid_time t"
  shows "\<forall>c \<in> set (fmt_d (Year t)). is_digit c" "\<forall>c \<in> set (two_digits (Month t)). is_digit c"
    "\<forall>c \<in> set (two_digits (Day t)). is_digit c" "\<forall>c \<in> set (two_digits (Hour t)). is_digit c"
    "\<forall>c \<in> set (two_digits (Minute t)). is_digit c" "fmt_d (Year t) \<noteq> []"
    and "dec_val (fmt_d (Year t)) = nat (Year t)" "dec_val (two_digits (Month t)) = nat (Month t)"
    "dec_val (two_digits (Day t)) = nat (Day t)" "dec_val (two_digits (Hour t)) = nat (Hour t)"
    "dec_val (two_digits (Minute t)) = nat (Minute t)"
proof -
  have d: "days_in (Month t) (Year t) \<le> 31" by (simp add: days_in_def)
  have w: "0 \<le> Month t" "Month t < 100" "0 \<le> Day t" "Day t < 100" "0 \<le> Hour t" "Hour t < 100" "0 \<le> Minute t" "Minute t < 100"
    using assms d by (simp_all add: valid_time_def)
  show "\<forall>c \<in> set (fmt_d (Year t)). is_digit c" "fmt_d (Year t) \<noteq> []" "dec_val (fmt_d (Year t)) = nat (Year t)"
    using dec_nat_digits by (auto simp: year_digits [OF assms])
  show "\<forall>c \<in> set (two_digits (Month t)). is_digit c" "\<forall>c \<in> set (two_digits (Day t)). is_digit c"
    "\<forall>c \<in> set (two_digits (Hour t)). is_digit c" "\<forall>c \<in> set (two_digits (Minute t)). is_digit c"
    "dec_val (two_digits (Month t)) = nat (Month t)" "dec_val (two_digits (Day t)) = nat (Day t)"
    "dec_val (two_digits (Hour t)) = nat (Hour t)" "dec_val (two_digits (Minute t)) = nat (Minute t)"
    using two_digits_val(1,2) w by blast+
qed

lemma proper_digits: "s \<noteq> [] \<Longrightarrow> \<forall>c \<in> set s. is_digit c \<Longrightarrow> proper s"
  by (auto simp: proper_def is_digit_def is_sep_def is_slash_def is_backslash_def)

lemma proper_time:
  assumes "valid_time t"
  shows "proper (fmt_d (Year t))" "proper (two_digits (Month t))" "proper (two_digits (Day t))" "proper (cache_name t)"
proof -
  show "proper (fmt_d (Year t))" "proper (two_digits (Month t))" "proper (two_digits (Day t))"
    by (rule proper_digits [OF _ time_digits(1) [OF assms]] proper_digits [OF _ time_digits(2) [OF assms]]
        proper_digits [OF _ time_digits(3) [OF assms]], simp add: two_digits_def time_digits(6) [OF assms])+
  define ok where "ok c \<longleftrightarrow> \<not> is_sep c \<and> c \<noteq> CHR '':''" for c
  have dig: "list_all ok s" if "\<forall>c \<in> set s. is_digit c" for s
    using that by (auto simp: list_all_iff ok_def is_digit_def is_sep_def is_slash_def is_backslash_def)
  have lit: "list_all ok ''dd_''" "list_all ok ''_''" "list_all ok ''-''" "list_all ok ''.json.gz''"
    by (simp_all add: ok_def is_sep_def is_slash_def is_backslash_def)
  have "list_all ok (cache_name t)"
    unfolding cache_name_eq [OF assms] list_all_append
    by (intro conjI lit dig time_digits(1-5) [OF assms])
  moreover have "cache_name t \<noteq> ''''" "cache_name t \<noteq> ''.''" "cache_name t \<noteq> ''..''"
    by (simp_all add: cache_name_eq [OF assms])
  ultimately show "proper (cache_name t)" by (simp add: proper_def list_all_iff ok_def)
qed

section \<open>Where the files are\<close>

definition cache_path :: "path \<Rightarrow> gotime \<Rightarrow> path" where
  "cache_path cwd t = cwd @ [''cache'', fmt_d (Year t), two_digits (Month t), two_digits (Day t), cache_name t]"

lemma resolve_rel: "\<forall>d \<in> set ds. proper d \<Longrightarrow> resolve cwd (rel_path ds) = cwd @ ds"
  using resolve_build [of False "[]" ds cwd] clean_form_proper [of "[]"] by (simp add: rel_path_def build_path_def)

lemma proper_cache [simp]: "proper ''cache''"
  by (simp add: proper_def is_sep_def is_slash_def is_backslash_def)

lemma resolve_cache [simp]: "resolve cwd ''cache'' = cwd @ [''cache'']"
  using resolve_rel [of "[''cache'']" cwd] by (simp add: rel_path_def build_path_def)

lemma resolve_created:
  assumes "valid_time t"
  shows "resolve cwd (cache_dir t) = butlast (cache_path cwd t)"
    and "resolve cwd (path_Join [cache_dir t, cache_name t]) = cache_path cwd t"
proof -
  have dir: "cache_dir t = rel_path [''cache'', fmt_d (Year t), two_digits (Month t), two_digits (Day t)]"
    by (simp add: cache_dir_eq [OF assms] rel_path_def build_path_def)
  have p: "\<forall>d \<in> set [''cache'', fmt_d (Year t), two_digits (Month t), two_digits (Day t)]. proper d"
    using proper_time [OF assms] by simp
  show "resolve cwd (cache_dir t) = butlast (cache_path cwd t)"
    unfolding dir resolve_rel [OF p] by (simp add: cache_path_def butlast_append)
  show "resolve cwd (path_Join [cache_dir t, cache_name t]) = cache_path cwd t"
    unfolding dir rel_path_Join [OF p proper_time(4) [OF assms]]
    using resolve_rel [of "[''cache'', fmt_d (Year t), two_digits (Month t), two_digits (Day t)] @ [cache_name t]" cwd]
      proper_time [OF assms] by (simp add: cache_path_def)
qed

section \<open>Name order is time order\<close>

lemma digit_less: "is_digit c \<Longrightarrow> is_digit d \<Longrightarrow> digit_val c < digit_val d \<longleftrightarrow> c < d"
  by (auto simp: is_digit_def digit_val_def less_char_def)

lemma dec_val_Cons: "dec_val (c # s) = digit_val c * 10 ^ length s + dec_val s"
  by (induction s rule: rev_induct)
    (simp_all add: dec_val_snoc [of "c # _", simplified] algebra_simps del: dec_val_snoc, simp add: dec_val_snoc algebra_simps)

lemma dec_val_bound: "\<forall>c \<in> set s. is_digit c \<Longrightarrow> dec_val s < 10 ^ length s"
proof (induction s)
  case (Cons c s)
  then have "digit_val c \<le> 9" "dec_val s < 10 ^ length s" by (auto simp: is_digit_def digit_val_def)
  then have "digit_val c * 10 ^ length s + dec_val s < 9 * 10 ^ length s + 10 ^ length s"
    by (intro add_le_less_mono mult_le_mono1)
  then show ?case by (simp add: dec_val_Cons)
qed simp

lemma dec_val_less:
  assumes "\<forall>c \<in> set s. is_digit c" and "\<forall>c \<in> set t. is_digit c" and "length s = length t" and "dec_val s < dec_val t"
  shows "s < t"
  using assms(3,1,2,4)
proof (induction s t rule: list_induct2)
  case (Cons c s d t)
  have "\<not> digit_val d < digit_val c"
  proof
    assume "digit_val d < digit_val c"
    then have "(digit_val d + 1) * 10 ^ length s \<le> digit_val c * 10 ^ length s" by (intro mult_le_mono1) simp
    moreover have "dec_val t < 10 ^ length s" using Cons dec_val_bound [of t] by simp
    ultimately show False using Cons.prems Cons.hyps by (simp add: dec_val_Cons algebra_simps)
  qed
  moreover have "s < t" if "digit_val c = digit_val d"
    using Cons that by (simp add: dec_val_Cons)
  ultimately show ?case
    using Cons.prems digit_less [of c d] digit_less [of d c]
    by (metis Cons_less_Cons linorder_neqE_nat list.set_intros(1) not_less_iff_gr_or_eq)
qed simp

lemma list_less_append: "length s = length t \<Longrightarrow> s < t \<Longrightarrow> s @ x < t @ (y :: 'a :: order list)"
  by (induction s t rule: list_induct2) (auto simp: Cons_less_Cons)

lemma list_less_same: "p @ x < p @ y \<longleftrightarrow> x < (y :: 'a :: order list)"
  by (induction p) simp_all

text \<open>Years of four digits, as the clock gives them.\<close>

definition cached_time :: "gotime \<Rightarrow> bool" where
  "cached_time t \<longleftrightarrow> valid_time t \<and> 1000 \<le> Year t"

lemma year_length: "cached_time t \<Longrightarrow> length (fmt_d (Year t)) = 4"
proof -
  assume c: "cached_time t"
  have "length (dec_nat n) = 4" if n: "1000 \<le> n" "n \<le> 9999" for n
  proof -
    have "\<not> n < 10" "\<not> n div 10 < 10" "\<not> n div 10 div 10 < 10" "n div 10 div 10 div 10 < 10"
      using n by (simp_all only: not_less div_mult2_eq [symmetric] less_eq_div_iff_mult_less_eq div_less_iff_less_mult)
    then show ?thesis
      by (simp add: dec_nat.simps [of n] dec_nat.simps [of "n div 10"] dec_nat.simps [of "n div 10 div 10"]
        dec_nat.simps [of "n div 10 div 10 div 10"])
  qed
  moreover have "1000 \<le> nat (Year t)" "nat (Year t) \<le> 9999" "\<not> Year t < 0"
    using c by (auto simp: cached_time_def valid_time_def le_nat_iff nat_le_iff)
  ultimately show ?thesis by (simp add: fmt_d_def)
qed

lemma two_digits_less: "0 \<le> a \<Longrightarrow> a < b \<Longrightarrow> b < 100 \<Longrightarrow> two_digits a < two_digits b"
  using two_digits_val [of a] two_digits_val [of b] by (intro dec_val_less) simp_all

lemma cache_path_less:
  assumes "cached_time t" and "cached_time u" and "minute_of t < minute_of u"
  shows "cache_path cwd t < cache_path cwd u"
proof -
  have v: "valid_time t" "valid_time u" using assms by (simp_all add: cached_time_def)
  have "days_in (Month u) (Year u) \<le> 31" by (simp add: days_in_def)
  then have lim: "Month u < 100" "Day u < 100" "Hour u < 100" "Minute u < 100" "0 \<le> Month t" "0 \<le> Day t" "0 \<le> Hour t" "0 \<le> Minute t"
    using v by (simp_all add: valid_time_def)
  have Y: "fmt_d (Year t) < fmt_d (Year u)" if "Year t < Year u"
  proof (rule dec_val_less [OF time_digits(1) [OF v(1)] time_digits(1) [OF v(2)]])
    show "dec_val (fmt_d (Year t)) < dec_val (fmt_d (Year u))"
      using that assms(1,2) unfolding time_digits(7) [OF v(1)] time_digits(7) [OF v(2)] by (simp add: cached_time_def)
  qed (simp add: year_length assms)
  have M: "Month t < Month u \<Longrightarrow> two_digits (Month t) < two_digits (Month u)" using two_digits_less lim by blast
  have D: "Day t < Day u \<Longrightarrow> two_digits (Day t) < two_digits (Day u)" using two_digits_less lim by blast
  have H: "Hour t < Hour u \<Longrightarrow> two_digits (Hour t) < two_digits (Hour u)" using two_digits_less lim by blast
  have N: "Minute t < Minute u \<Longrightarrow> two_digits (Minute t) < two_digits (Minute u)" using two_digits_less lim by blast
  have name: "cache_name t < cache_name u" if "Year t = Year u" "Month t = Month u" "Day t = Day u"
      "Hour t < Hour u \<or> Hour t = Hour u \<and> Minute t < Minute u"
  proof -
    have "two_digits (Hour t) @ ''_'' @ two_digits (Minute t) @ ''.json.gz'' < two_digits (Hour u) @ ''_'' @ two_digits (Minute u) @ ''.json.gz''"
      using that(4) H N by (auto simp: list_less_append list_less_same two_digits_def)
    then show ?thesis unfolding cache_name_eq [OF v(1)] cache_name_eq [OF v(2)] using that(1-3) by (simp add: list_less_same)
  qed
  have "Year t < Year u \<or> Year t = Year u \<and> (Month t < Month u \<or> Month t = Month u \<and> (Day t < Day u \<or>
      Day t = Day u \<and> (Hour t < Hour u \<or> Hour t = Hour u \<and> Minute t < Minute u)))"
    using assms(3) by (auto simp: less_gotime_def time_key_def minute_of_def)
  then show ?thesis unfolding cache_path_def list_less_same using Y M D name by auto
qed

lemma time_of_name:
  assumes "valid_time t"
  shows "getTimeFromFilename (cache_name t) = instant (minute_of t)"
proof -
  have d: "days_in (Month t) (Year t) \<le> 31" by (simp add: days_in_def)
  note v = assms [unfolded valid_time_def]
  have w: "0 \<le> Month t" "Month t < 100" "0 \<le> Day t" "Day t < 100" "0 \<le> Hour t" "Hour t < 100" "0 \<le> Minute t" "Minute t < 100"
    using v d by simp_all
  have "Sscanf (cache_name t) ''dd_%d_%02d_%02d-%02d_%02d.json.gz'' = [Year t, Month t, Day t, Hour t, Minute t]"
    using v w by (simp add: cache_name_eq [OF assms] Sscanf_def scan_int_two_digits
      scan_int_two_digits [unfolded numeral_2_eq_2] scan_int_fmt_d is_digit_def)
  then show ?thesis by (simp add: getTimeFromFilename_def scanned_def instant_def minute_of_def)
qed

text \<open>
  C20. The time the index reads from a file name is the time the file was named after, to the
  minute; so different minutes have different names.
\<close>

theorem name_time_roundtrip:
  assumes "valid_time t" and "valid_time u"
  shows "getTimeFromFilename (cache_name t) = instant (minute_of t)
    \<and> (cache_name t = cache_name u \<longleftrightarrow> minute_of t = minute_of u)"
proof -
  have "minute_of t = minute_of u" if "cache_name t = cache_name u"
    using that time_of_name [OF assms(1)] time_of_name [OF assms(2)]
      instant_less_iff [OF minute_valid [OF assms(1)] minute_valid [OF assms(2)]]
      instant_less_iff [OF minute_valid [OF assms(2)] minute_valid [OF assms(1)]]
    by (metis linorder_neqE less_irrefl)
  moreover have "cache_name t = cache_name u" if "minute_of t = minute_of u"
    using that by (simp add: minute_of_def cache_name_def)
  ultimately show ?thesis using time_of_name [OF assms(1)] by blast
qed

lemma name_time_roundtrip_witness:
  "getTimeFromFilename ''dd_2024_02_29-07_05.json.gz'' = instant (GoTime 2024 2 29 7 5 0 0)"
proof -
  define t where "t = GoTime 2024 2 29 7 5 33 0"
  have v: "valid_time t" by (simp add: valid_time_def days_in_def is_leap_def t_def)
  have "minute_of t = GoTime 2024 2 29 7 5 0 0" by (simp add: minute_of_def t_def)
  moreover have "cache_name t = ''dd_2024_02_29-07_05.json.gz''"
    unfolding t_def by code_simp
  ultimately show ?thesis using name_time_roundtrip [OF v v] by simp
qed

section \<open>The index\<close>

definition cached_files :: "path \<Rightarrow> fsys \<Rightarrow> path set" where
  "cached_files cwd fs = {p. prefix (cwd @ [''cache'']) p \<and> (\<exists>c. fs_get fs p = Some (File c))}"

definition file_size :: "fsys \<Rightarrow> path \<Rightarrow> int" where
  "file_size fs p = (case fs_get fs p of Some (File c) \<Rightarrow> int (length c) | _ \<Rightarrow> 0)"

definition item_of :: "path \<Rightarrow> fsys \<Rightarrow> path \<Rightarrow> CacheItem" where
  "item_of cwd fs p = \<lparr>Filename = walk_name ''cache'' (drop (Suc (length cwd)) p),
     itemTime = getTimeFromFilename (last p), itemSize = file_size fs p\<rparr>"

text \<open>Every file below \<^verbatim>\<open>cache\<close> is one \<^verbatim>\<open>createFile\<close> made, in a year of four digits.\<close>

definition named_cache :: "path \<Rightarrow> fsys \<Rightarrow> bool" where
  "named_cache cwd fs \<longleftrightarrow> (\<forall>p \<in> cached_files cwd fs. \<exists>t. cached_time t \<and> p = cache_path cwd t)"

definition indexed :: "path \<Rightarrow> fsys \<Rightarrow> path list" where
  "indexed cwd fs = filter (\<lambda>p. \<exists>c. fs_get fs p = Some (File c)) (Walk fs (cwd @ [''cache'']))"

lemma set_indexed: "set (indexed cwd fs) = cached_files cwd fs"
  using set_Walk [of _ fs "cwd @ [''cache'']"] by (auto simp: indexed_def cached_files_def)

lemma distinct_indexed: "distinct (indexed cwd fs)" and sorted_indexed: "sorted (indexed cwd fs)"
  using sorted_Walk distinct_Walk by (simp_all add: indexed_def sorted_wrt_filter)

lemma index_items:
  "concat (map (indexer (cwd @ [''cache'']) fs) ps) = map (item_of cwd fs) (filter (\<lambda>p. \<exists>c. fs_get fs p = Some (File c)) ps)"
  by (induction ps) (auto simp: indexer_def item_of_def file_size_def split: option.splits node.splits)

lemma refresh_eq:
  assumes "\<not> cacheMutex s" and "fs_get (c_fs s) (cwd @ [''cache'']) \<noteq> None"
  shows "refreshCache cwd s = (s\<lparr>cacheMutex := False, cacheInfo := (cacheInfo s)\<lparr>
      Items := map (item_of cwd (c_fs s)) (indexed cwd (c_fs s)),
      cacheSize := (\<Sum>p \<in> cached_files cwd (c_fs s). file_size (c_fs s) p),
      cacheCount := int (card (cached_files cwd (c_fs s)))\<rparr>\<rparr>, Ret ())"
proof -
  have "sum_list (map (file_size (c_fs s)) (indexed cwd (c_fs s))) = (\<Sum>p \<in> cached_files cwd (c_fs s). file_size (c_fs s) p)"
    using sum_list_distinct_conv_sum_set [OF distinct_indexed] by (simp add: set_indexed)
  moreover have "itemSize \<circ> item_of cwd (c_fs s) = file_size (c_fs s)" by (simp add: fun_eq_iff item_of_def)
  moreover have "length (indexed cwd (c_fs s)) = card (cached_files cwd (c_fs s))"
    using distinct_card [OF distinct_indexed] by (metis set_indexed)
  ultimately show ?thesis
    using assms by (simp add: refreshCache_def Let_def index_items flip: indexed_def)
qed

lemma indexed_times:
  assumes "named_cache cwd fs"
  shows "sorted (map itemTime (map (item_of cwd fs) (indexed cwd fs)))"
proof -
  have named: "\<exists>t. cached_time t \<and> p = cache_path cwd t" if "p \<in> set (indexed cwd fs)" for p
    using assms that by (auto simp: set_indexed named_cache_def)
  have time: "itemTime (item_of cwd fs (cache_path cwd t)) = instant (minute_of t)" if "cached_time t" for t
    using that time_of_name by (simp add: item_of_def cache_path_def cached_time_def)
  have "itemTime (item_of cwd fs p) \<le> itemTime (item_of cwd fs q)"
    if pq: "p \<in> set (indexed cwd fs)" "q \<in> set (indexed cwd fs)" "p \<le> q" for p q
  proof -
    obtain t u where t: "cached_time t" "p = cache_path cwd t" and u: "cached_time u" "q = cache_path cwd u"
      using named pq(1,2) by blast
    have "minute_of t \<le> minute_of u" using pq(3) cache_path_less [OF u(1) t(1), of cwd] t u by fastforce
    then show ?thesis
      using t u time instant_le_iff minute_valid by (simp add: cached_time_def)
  qed
  then show ?thesis
    using sorted_indexed [of cwd fs] by (auto simp: sorted_wrt_map intro: sorted_wrt_mono_rel)
qed

lemma sorted_hd_last:
  assumes "sorted xs" and "xs \<noteq> []"
  shows "hd xs = Min (set xs)" and "last xs = Max (set xs)"
proof -
  have "hd xs \<le> x \<and> x \<le> last xs" if "x \<in> set xs" for x
    using assms that
  proof (induction xs)
    case (Cons a xs)
    then show ?case using last_in_set [of xs] by (cases "xs = []") auto
  qed simp
  then show "hd xs = Min (set xs)" and "last xs = Max (set xs)"
    using assms(2) by (auto intro!: Min_eqI [symmetric] Max_eqI [symmetric])
qed

text \<open>
  C19. With a \<^verbatim>\<open>cache\<close> directory and a free mutex \<^verbatim>\<open>GetCacheInfo\<close> returns, leaves the files alone and
  frees the mutex again. The index then lists every file below \<^verbatim>\<open>cache\<close> exactly once with its size;
  the count and the total size are those of the files; and when the files are the ones
  \<^verbatim>\<open>createFile\<close> names, the items are in the order of time and the first and last times are the
  earliest and the latest.
\<close>

theorem GetCacheInfo_correct:
  assumes "\<not> cacheMutex s" and "fs_get (c_fs s) (cwd @ [''cache'']) \<noteq> None" and "GetCacheInfo cwd s = (s', r)"
  shows "\<exists>i. r = Ret i \<and> cacheInfo s' = i \<and> \<not> cacheMutex s' \<and> c_fs s' = c_fs s \<and>
    set (Items i) = item_of cwd (c_fs s) ` cached_files cwd (c_fs s) \<and>
    cacheCount i = int (card (cached_files cwd (c_fs s))) \<and> length (Items i) = card (cached_files cwd (c_fs s)) \<and>
    cacheSize i = (\<Sum>p \<in> cached_files cwd (c_fs s). file_size (c_fs s) p) \<and>
    (named_cache cwd (c_fs s) \<and> cached_files cwd (c_fs s) \<noteq> {} \<longrightarrow>
       sorted (map itemTime (Items i)) \<and> FirstTime i = Min (itemTime ` set (Items i)) \<and>
       LastTime i = Max (itemTime ` set (Items i)))"
proof -
  let ?is = "map (item_of cwd (c_fs s)) (indexed cwd (c_fs s))"
  have len: "length (indexed cwd (c_fs s)) = card (cached_files cwd (c_fs s))"
    using distinct_card [OF distinct_indexed] by (metis set_indexed)
  have times: "?is ! 0 = hd ?is" "?is ! (length ?is - 1) = last ?is" if "?is \<noteq> []"
    using that by (simp_all add: hd_conv_nth last_conv_nth)
  have fin: "finite (cached_files cwd (c_fs s))" by (simp flip: set_indexed)
  have mm: "itemTime (hd ?is) = Min (itemTime ` set ?is)" "itemTime (last ?is) = Max (itemTime ` set ?is)"
    if "named_cache cwd (c_fs s)" "?is \<noteq> []"
    using sorted_hd_last [OF indexed_times [OF that(1)]] that(2) by (simp_all add: hd_map last_map image_image)
  have idx: "nat (int (card (cached_files cwd (c_fs s))) - 1) = length ?is - 1" by (simp add: len nat_diff_distrib')
  have ne: "?is \<noteq> [] \<longleftrightarrow> cached_files cwd (c_fs s) \<noteq> {}" by (auto simp flip: set_indexed)
  have pos: "int (card (cached_files cwd (c_fs s))) > 0 \<longleftrightarrow> ?is \<noteq> []" using ne fin by (simp add: card_gt_0_iff)
  show ?thesis
    using assms(3) refresh_eq [OF assms(1,2)] times mm idx ne pos indexed_times [of cwd "c_fs s"] len
    by (auto simp: GetCacheInfo_def Let_def set_indexed split: if_splits)
qed

text \<open>A concrete cache of one file for the witnesses.\<close>

definition leap_day :: gotime where
  "leap_day = GoTime 2024 2 29 7 5 33 0"

definition one_file :: cache_state where
  "one_file = \<lparr>c_fs = [([''cache''], Dir), (take 2 (cache_path [] leap_day), Dir), (take 3 (cache_path [] leap_day), Dir),
       (take 4 (cache_path [] leap_day), Dir), (cache_path [] leap_day, File [1, 2])],
     cacheInfo = \<lparr>cacheSize = 0, cacheCount = 0, FirstTime = 0, LastTime = 0, Items = []\<rparr>,
     cacheMutex = False, fw = Closed, firstWrite = True, prevRemainder = -1, c_events = []\<rparr>"

lemma leap_day_cached: "cached_time leap_day" "valid_time leap_day"
  by (simp_all add: cached_time_def valid_time_def leap_day_def days_in_def is_leap_def)

lemma one_file_get:
  "fs_get (c_fs one_file) p = (if p = cache_path [] leap_day then Some (File [1, 2])
     else if p \<in> {[''cache''], take 2 (cache_path [] leap_day), take 3 (cache_path [] leap_day), take 4 (cache_path [] leap_day)}
     then Some Dir else None)"
  by (auto simp: one_file_def fs_get_def cache_path_def)

lemma one_file_cached: "cached_files [] (c_fs one_file) = {cache_path [] leap_day}" "\<not> cacheMutex one_file"
  "fs_get (c_fs one_file) [''cache''] = Some Dir" "named_cache [] (c_fs one_file)"
proof -
  show "cached_files [] (c_fs one_file) = {cache_path [] leap_day}"
    by (auto simp: cached_files_def one_file_get split: if_splits) (simp_all add: cache_path_def)
  then show "named_cache [] (c_fs one_file)" using leap_day_cached by (auto simp: named_cache_def)
  show "fs_get (c_fs one_file) [''cache''] = Some Dir" by (auto simp: one_file_get cache_path_def)
qed (simp add: one_file_def)

lemma GetCacheInfo_correct_witness:
  "\<exists>i. snd (GetCacheInfo [] one_file) = Ret i \<and> cacheCount i = 1 \<and> cacheSize i = 2 \<and>
     FirstTime i = instant (minute_of leap_day)"
proof -
  have t: "itemTime (item_of [] (c_fs one_file) (cache_path [] leap_day)) = instant (minute_of leap_day)"
    using time_of_name [OF leap_day_cached(2)] by (simp add: item_of_def cache_path_def)
  have z: "file_size (c_fs one_file) (cache_path [] leap_day) = 2" by (simp add: file_size_def one_file_get)
  show ?thesis
    using GetCacheInfo_correct [of one_file "[]" "fst (GetCacheInfo [] one_file)" "snd (GetCacheInfo [] one_file)"]
      one_file_cached t z by fastforce
qed

end
