(* ===== verification/CacheRetention.thy ===== *)
theory CacheRetention imports CacheTheorems begin

text \<open>
  Retention: which files one tick of \<^verbatim>\<open>pruneCache\<close> removes, the width of the retention time, and
  files whose names are not the program's.
\<close>

section \<open>Names of the walk resolve back\<close>

lemma split_walk_name:
  assumes "\<forall>d \<in> set rel. proper d" and "\<forall>c \<in> set root. \<not> is_sep c"
  shows "split_on is_sep (walk_name root rel) = root # rel"
  using assms
proof (induction rel rule: rev_induct)
  case Nil
  then show ?case by (simp add: walk_name_def split_on_none)
next
  case (snoc d rel)
  have "walk_name root (rel @ [d]) = walk_name root rel @ CHR 0x5C # d" by (simp add: walk_name_def)
  then have "split_on is_sep (walk_name root (rel @ [d])) = split_on is_sep (walk_name root rel) @ split_on is_sep d"
    by (simp add: split_on_append is_sep_def is_backslash_def)
  moreover have "split_on is_sep d = [d]" using snoc.prems(1) by (intro split_on_none) (simp add: proper_def)
  ultimately show ?case using snoc by simp
qed

lemma foldl_proper: "\<forall>d \<in> set ds. proper d \<Longrightarrow> foldl os_step stk ds = stk @ ds"
  by (induction ds arbitrary: stk) simp_all

lemma resolve_walk:
  assumes "\<forall>d \<in> set rel. proper d"
  shows "resolve cwd (walk_name ''cache'' rel) = cwd @ ''cache'' # rel"
proof -
  have "os_base cwd (walk_name ''cache'' rel) = cwd"
    by (simp add: os_base_def walk_name_def is_drive_def is_sep_def is_slash_def is_backslash_def)
  moreover have "split_on is_sep (walk_name ''cache'' rel) = ''cache'' # rel"
    using assms by (intro split_walk_name) (simp_all add: is_sep_def is_slash_def is_backslash_def)
  ultimately show ?thesis
    using foldl_proper [of "''cache'' # rel" cwd] assms by (simp add: resolve_def)
qed

text \<open>The names below \<^verbatim>\<open>cache\<close> are names Windows allows.\<close>

definition proper_cache_names :: "path \<Rightarrow> fsys \<Rightarrow> bool" where
  "proper_cache_names cwd fs \<longleftrightarrow> (\<forall>p \<in> cached_files cwd fs. \<forall>d \<in> set (drop (Suc (length cwd)) p). proper d)"

lemma resolve_item:
  assumes "proper_cache_names cwd fs" and "p \<in> cached_files cwd fs"
  shows "resolve cwd (Filename (item_of cwd fs p)) = p"
proof -
  have "p = cwd @ ''cache'' # drop (Suc (length cwd)) p"
    using assms(2) by (auto simp: cached_files_def prefix_def)
  moreover have "\<forall>d \<in> set (drop (Suc (length cwd)) p). proper d"
    using assms by (auto simp: proper_cache_names_def)
  ultimately show ?thesis by (simp add: item_of_def resolve_walk)
qed

section \<open>What a tick removes\<close>

definition too_old :: "path \<Rightarrow> fsys \<Rightarrow> gotime \<Rightarrow> int \<Rightarrow> path \<Rightarrow> bool" where
  "too_old cwd fs now days p \<longleftrightarrow> Sub (instant now) (itemTime (item_of cwd fs p)) > retention days"

definition is_open :: "cache_state \<Rightarrow> path \<Rightarrow> bool" where
  "is_open s p \<longleftrightarrow> (\<exists>ws. fw s = Writer (Some p) ws)"

lemma remove_item_simps [simp]:
  "fw (remove_item refused cwd i s) = fw s" "cacheInfo (remove_item refused cwd i s) = cacheInfo s"
  "cacheMutex (remove_item refused cwd i s) = cacheMutex s"
  by (simp_all add: remove_item_def Let_def split: option.splits)

lemma remove_files:
  assumes "distinct ps" and "\<forall>p \<in> set ps. resolve cwd (Filename (f p)) = p \<and> (\<exists>c. fs_get (c_fs s) p = Some (File c))"
  shows "fs_get (c_fs (fold (remove_item refused cwd) (map f ps) s)) q =
    (if q \<in> set ps \<and> \<not> is_open s q \<and> \<not> refused q then None else fs_get (c_fs s) q)"
  using assms
proof (induction ps arbitrary: s)
  case (Cons p ps)
  let ?s = "remove_item refused cwd (f p) s"
  have step: "fs_get (c_fs ?s) q = (if q = p \<and> \<not> is_open s p \<and> \<not> refused p then None else fs_get (c_fs s) q)" for q
    using Cons.prems(2) by (auto simp: remove_item_def is_open_def Remove_def)
  have "\<forall>r \<in> set ps. resolve cwd (Filename (f r)) = r \<and> (\<exists>c. fs_get (c_fs ?s) r = Some (File c))"
    using Cons.prems by (auto simp: step)
  moreover have "is_open ?s = is_open s" by (simp add: is_open_def fun_eq_iff)
  ultimately show ?case using Cons by (auto simp: step)
qed simp

text \<open>
  C7. A tick of the pruning loop with a \<^verbatim>\<open>cache\<close> directory and a free mutex returns and removes
  exactly the cached files that are older than the retention time, not open for writing and not refused
  by the system; every other entry of the file system stays as it is.
\<close>

theorem prune_exact:
  assumes "\<not> cacheMutex s" and "fs_get (c_fs s) (cwd @ [''cache'']) \<noteq> None" and "proper_cache_names cwd (c_fs s)"
    and "pruneCache G refused cwd now d days s = (s', r)"
  shows "r = Ret (retention_days G d days) \<and> \<not> cacheMutex s' \<and>
    (\<forall>p. fs_get (c_fs s') p =
      (if p \<in> cached_files cwd (c_fs s) \<and> too_old cwd (c_fs s) now (retention_days G d days) p \<and> \<not> is_open s p \<and> \<not> refused p
       then None else fs_get (c_fs s) p))"
proof -
  let ?n = "retention_days G d days" and ?fs = "c_fs s"
  let ?ps = "filter (too_old cwd ?fs now ?n) (indexed cwd ?fs)"
  obtain s1 where r: "refreshCache cwd s = (s1, Ret ())" "c_fs s1 = ?fs" "fw s1 = fw s" "\<not> cacheMutex s1"
      "Items (cacheInfo s1) = map (item_of cwd ?fs) (indexed cwd ?fs)"
    using refresh_eq [OF assms(1,2)] by simp
  have old: "filter (\<lambda>i. Sub (instant now) (itemTime i) > retention ?n) (map (item_of cwd ?fs) (indexed cwd ?fs))
      = map (item_of cwd ?fs) ?ps"
    by (simp add: filter_map comp_def too_old_def [abs_def])
  let ?s2 = "fold (remove_item refused cwd) (map (item_of cwd ?fs) ?ps) s1"
  have files: "\<forall>p \<in> set ?ps. resolve cwd (Filename (item_of cwd ?fs p)) = p \<and> (\<exists>c. fs_get (c_fs s1) p = Some (File c))"
    using resolve_item [OF assms(3)] r(2) by (auto simp: set_indexed) (auto simp: cached_files_def)
  have "fs_get (c_fs ?s2) p = (if p \<in> cached_files cwd ?fs \<and> too_old cwd ?fs now ?n p \<and> \<not> is_open s p \<and> \<not> refused p
      then None else fs_get ?fs p)" for p
    using remove_files [OF _ files] distinct_indexed r(2,3) by (simp add: is_open_def set_indexed)
  moreover have "cacheMutex ?s2 = cacheMutex s1"
    by (rule fold_invariant [where Q = "\<lambda>_. True" and P = "\<lambda>s. cacheMutex s = cacheMutex s1"]) auto
  ultimately show ?thesis
    using assms(4) r(4) unfolding pruneCache_def Let_def r(1) prod.case outcome.case r(5) old
    by (auto simp: c_emit_def split: if_splits)
qed

lemma scene_names: "proper_cache_names [] (c_fs one_file)"
  using proper_time [OF leap_day_cached(2)]
  by (simp add: proper_cache_names_def one_file_cached cache_path_def)

definition seven_days :: KeyValuePair where
  "seven_days = \<lparr>kvID = 1, Key = ''cache.retention'', Value = ''7'', Extra = ''''\<rparr>"

lemma seven_days_setting: "retention_days settings_table [seven_days] d = 7"
  by (simp add: retention_days_def GetSetting_def settings_table_def list_table_def seven_days_def Let_def
    Atoi_def strip_sign_def is_digit_def digit_val_def clamp64_def)

lemma prune_exact_witness:
  "fs_get (c_fs (fst (pruneCache settings_table (\<lambda>_. False) [] leap_day [seven_days] 7 one_file))) [''cache''] = Some Dir"
  using prune_exact [of one_file "[]" settings_table "\<lambda>_. False" leap_day "[seven_days]" 7
      "fst (pruneCache settings_table (\<lambda>_. False) [] leap_day [seven_days] 7 one_file)"
      "snd (pruneCache settings_table (\<lambda>_. False) [] leap_day [seven_days] 7 one_file)"]
    one_file_cached scene_names by (simp add: cache_path_def)

section \<open>The width of the retention time\<close>

lemma retention_exact: "1 \<le> days \<Longrightarrow> days \<le> 106751 \<Longrightarrow> retention days = days * 86400000000000"
  by (simp add: retention_def uint64_id int64_id)

text \<open>
  C25. For 1 to 106751 days the 64-bit retention time is the exact number of nanoseconds, and a
  file is removed exactly when its age, cut off at the largest \<^verbatim>\<open>Duration\<close>, exceeds it. From
  106752 to 213503 days the product wraps to a negative number, and every file not newer
  than the clock counts as too old. From 213504 to 320255 days it wraps to a positive number again, which
  starts at less than 26 minutes.
\<close>

theorem retention_wraps:
  "(1 \<le> days \<and> days \<le> 106751 \<longrightarrow> retention days = days * 86400000000000 \<and>
     (too_old cwd fs now days p \<longleftrightarrow> instant now - itemTime (item_of cwd fs p) > days * 86400000000000)) \<and>
   (106752 \<le> days \<and> days \<le> 213503 \<longrightarrow> retention days < 0 \<and>
     (itemTime (item_of cwd fs p) \<le> instant now \<longrightarrow> too_old cwd fs now days p)) \<and>
   (213504 \<le> days \<and> days \<le> 320255 \<longrightarrow> 0 < retention days \<and> retention days = days * 86400000000000 - 2 ^ 64) \<and>
   retention 213504 < 26 * 60 * 1000000000"
proof -
  have again: "retention n = n * 86400000000000 - 2 ^ 64" if "213504 \<le> n" "n \<le> 320255" for n
  proof -
    have "uint64 (uint64 n * 24 * 3600000000000) = (n * 86400000000000) mod 2 ^ 64"
      using that by (simp add: uint64_id) (simp add: uint64_def mult.commute)
    also have "\<dots> = (n * 86400000000000 - 2 ^ 64) mod 2 ^ 64" by (rule minus_mod_self2 [symmetric])
    also have "\<dots> = n * 86400000000000 - 2 ^ 64" using that by (intro mod_pos_pos_trivial) simp_all
    finally show ?thesis using that unfolding retention_def by (simp add: int64_id)
  qed
  have wrap: "retention days = days * 86400000000000 - 2 ^ 64" if "106752 \<le> days" "days \<le> 213503"
  proof -
    have u: "uint64 (uint64 days * 24 * 3600000000000) = days * 86400000000000" using that by (simp add: uint64_id)
    have "(days * 86400000000000 + 2 ^ 63) mod 2 ^ 64 = (days * 86400000000000 + 2 ^ 63 - 2 ^ 64) mod 2 ^ 64"
      by (rule minus_mod_self2 [symmetric])
    also have "\<dots> = days * 86400000000000 + 2 ^ 63 - 2 ^ 64"
      using that by (intro mod_pos_pos_trivial) simp_all
    finally have "(days * 86400000000000 + 2 ^ 63) mod 2 ^ 64 = days * 86400000000000 + 2 ^ 63 - 2 ^ 64" .
    then show ?thesis unfolding retention_def u int64_def by simp
  qed
  have "too_old cwd fs now days p \<longleftrightarrow> instant now - itemTime (item_of cwd fs p) > days * 86400000000000"
    if "1 \<le> days" "days \<le> 106751"
    using retention_exact [OF that] that by (auto simp: too_old_def Sub_def)
  moreover have "too_old cwd fs now days p" if "itemTime (item_of cwd fs p) \<le> instant now" "106752 \<le> days" "days \<le> 213503"
    using wrap [OF that(2,3)] that by (simp add: too_old_def Sub_def)
  ultimately show ?thesis using retention_exact wrap again [of days] again [of 213504] by auto
qed

lemma retention_wraps_witness:
  "retention 7 = 604800000000000 \<and> too_old [] (c_fs one_file) leap_day 110000 (cache_path [] leap_day)"
proof -
  have t: "itemTime (item_of [] (c_fs one_file) (cache_path [] leap_day)) = instant (minute_of leap_day)"
    using time_of_name [OF leap_day_cached(2)] by (simp add: item_of_def cache_path_def)
  have "minute_of leap_day \<le> leap_day"
    by (simp add: minute_of_def leap_day_def less_eq_gotime_def time_key_def)
  then have "itemTime (item_of [] (c_fs one_file) (cache_path [] leap_day)) \<le> instant leap_day"
    using t instant_le_iff leap_day_cached(2) minute_valid by simp
  then show ?thesis
    using retention_wraps [of 7 "[]" "c_fs one_file" leap_day] retention_wraps [of 110000 "[]" "c_fs one_file" leap_day]
    by simp
qed

text \<open>
  A file in the cache whose name the scan gets nothing from, such as one put there by hand, is
  taken to be from the year -1: whatever the retention setting, up to 106751 days, it counts as
  too old at any time of a four-digit year.
\<close>

theorem stray_file_pruned:
  assumes "Sscanf (last p) ''dd_%d_%02d_%02d-%02d_%02d.json.gz'' = []" and "cached_time now"
    and "1 \<le> days" and "days \<le> 106751"
  shows "too_old cwd fs now days p"
proof -
  have old: "itemTime (item_of cwd fs p) = Date 0 0 0 0 0 0 0"
    using assms(1) by (simp add: item_of_def getTimeFromFilename_def scanned_def)
  define first where "first = GoTime 1000 1 1 0 0 0 0"
  have v: "valid_time first" by (simp add: first_def valid_time_def days_in_def)
  have far: "Date 0 0 0 0 0 0 0 + 2 ^ 63 \<le> instant first" unfolding first_def by code_simp
  have "first \<le> now"
    using assms(2) by (auto simp: first_def cached_time_def valid_time_def less_eq_gotime_def time_key_def)
  then have "instant first \<le> instant now"
    using instant_le_iff [OF v] assms(2) by (simp add: cached_time_def)
  then have "Sub (instant now) (Date 0 0 0 0 0 0 0) = 2 ^ 63 - 1" using far by (simp add: Sub_def)
  moreover have "retention days = days * 86400000000000" using assms(3,4) retention_exact by blast
  ultimately show ?thesis using assms(4) by (simp add: too_old_def old)
qed

lemma stray_file_pruned_witness: "too_old [] [([''cache'', ''readme''], File [1])] leap_day 7 [''cache'', ''readme'']"
proof -
  have "Sscanf ''readme'' ''dd_%d_%02d_%02d-%02d_%02d.json.gz'' = []" by (simp add: Sscanf_def is_digit_def)
  then show ?thesis using stray_file_pruned [of "[''cache'', ''readme'']" leap_day 7] leap_day_cached by simp
qed

end
