(* ===== verification/CacheText.thy ===== *)
theory CacheText imports CacheTheorems begin

text \<open>
  What the cached files hold. The abstract view of the writer is a list of segments, each the
  messages between the opening of a file and the next rotation or the close, with the file's
  path; \<open>writing\<close> ties the concrete state to it, and every operation keeps that tie.
\<close>

section \<open>The text of a segment\<close>

definition json_text :: "('m \<Rightarrow> string) \<Rightarrow> 'm list \<Rightarrow> string" where
  "json_text json ms = (case ms of [] \<Rightarrow> '''' | m # ms' \<Rightarrow> ''['' @ json m @ concat (map (\<lambda>x. '','' @ json x) ms'))"

text \<open>The writes of a segment, and the bytes that come out at the bottom: of some writes, and of all with the close.\<close>

definition json_writes :: "('m \<Rightarrow> string) \<Rightarrow> 'm list \<Rightarrow> bytes list" where
  "json_writes json ms = (case ms of [] \<Rightarrow> []
     | m # ms' \<Rightarrow> [bytes_of ''['', bytes_of (json m)] @ concat (map (\<lambda>x. [bytes_of '','', bytes_of (json x)]) ms'))"

fun gz_out :: "coder \<Rightarrow> bytes list \<Rightarrow> bytes list \<Rightarrow> bytes" where
  "gz_out gz ws [] = []"
| "gz_out gz ws (b # bs) = gz_write gz ws b @ gz_out gz (ws @ [b]) bs"

definition gz_all :: "coder \<Rightarrow> bytes list \<Rightarrow> bytes" where
  "gz_all gz ws = gz_out gz [] ws @ gz_close gz ws"

definition coded :: "coder \<Rightarrow> ('m \<Rightarrow> string) \<Rightarrow> 'm list \<Rightarrow> bytes" where
  "coded gz json ms = gz_all gz (json_writes json ms @ [bytes_of '']''])"

lemma gz_out_append: "gz_out gz ws (as @ bs) = gz_out gz ws as @ gz_out gz (ws @ as) bs"
  by (induction as arbitrary: ws) simp_all

lemma gz_out_snoc: "gz_out gz [] (ws @ [b]) = gz_out gz [] ws @ gz_write gz ws b"
  by (simp add: gz_out_append)

lemma json_writes_snoc:
  "json_writes json (ms @ [m]) = json_writes json ms @ [bytes_of (if ms = [] then ''['' else '',''), bytes_of (json m)]"
  by (cases ms) (simp_all add: json_writes_def)

lemma bytes_append: "bytes_of (s @ t) = bytes_of s @ bytes_of t"
  by (simp add: bytes_of_def)

lemma concat_json_writes: "concat (json_writes json ms) = bytes_of (json_text json ms)"
proof -
  have "concat (concat (map (\<lambda>x. [bytes_of '','', bytes_of (json x)]) ms')) = bytes_of (concat (map (\<lambda>x. '','' @ json x) ms'))" for ms'
    by (induction ms') (simp_all add: bytes_append bytes_of_def)
  then show ?thesis by (cases ms) (simp_all add: json_writes_def json_text_def bytes_append bytes_of_def)
qed

definition content :: "fsys \<Rightarrow> path \<Rightarrow> bytes" where
  "content fs p = (case fs_get fs p of Some (File c) \<Rightarrow> c | _ \<Rightarrow> [])"

definition segments_at :: "coder \<Rightarrow> ('m \<Rightarrow> string) \<Rightarrow> (path \<times> 'm list) list \<Rightarrow> path \<Rightarrow> bytes" where
  "segments_at gz json segs p = concat (map (\<lambda>(q, ms). coded gz json ms) (filter (\<lambda>s. fst s = p) segs))"

lemma segments_at_simps [simp]:
  "segments_at gz json [] p = []"
  "segments_at gz json (segs @ [(q, ms)]) p = segments_at gz json segs p @ (if q = p then coded gz json ms else [])"
  by (simp_all add: segments_at_def)

section \<open>Nothing in the way of the cache files\<close>

definition cache_clear :: "path \<Rightarrow> fsys \<Rightarrow> bool" where
  "cache_clear cwd fs \<longleftrightarrow> (\<forall>t. valid_time t \<longrightarrow>
     clear_way fs (butlast (cache_path cwd t)) \<and> fs_get fs (cache_path cwd t) \<noteq> Some Dir)"

lemma cache_path_lengths: "length (cache_path cwd t) = length cwd + 5" "length (butlast (cache_path cwd t)) = length cwd + 4"
  by (simp_all add: cache_path_def)

lemma clear_way_MkdirAll: "clear_way fs p \<Longrightarrow> clear_way (MkdirAll q fs) p"
  unfolding clear_way_def using MkdirAll_get [of q fs] by metis

lemma cache_path_below: "\<not> prefix (cache_path cwd u) (butlast (cache_path cwd t))"
  using prefix_length_le [of "cache_path cwd u" "butlast (cache_path cwd t)"] by (auto simp: cache_path_lengths)

lemma cache_clear_mkdir: "cache_clear cwd fs \<Longrightarrow> cache_clear cwd (MkdirAll (butlast (cache_path cwd u)) fs)"
  by (simp add: cache_clear_def clear_way_MkdirAll MkdirAll_outside cache_path_below)

lemma cache_clear_put: "cache_clear cwd fs \<Longrightarrow> cache_clear cwd (fs_put (cache_path cwd u) (File c) fs)"
  using cache_path_below by (auto simp: cache_clear_def clear_way_def)

lemma content_mkdir [simp]: "content (MkdirAll q fs) p = content fs p"
  using MkdirAll_get [of q fs p] by (auto simp: content_def)

lemma content_put: "content (fs_put p (File c) fs) q = (if q = p then c else content fs q)"
  by (simp add: content_def)

section \<open>The tie\<close>

text \<open>The file of the time \<open>t\<close> is open after the writes \<open>ws\<close>, and holds what has come out of them.\<close>

definition opened :: "coder \<Rightarrow> ('m \<Rightarrow> string) \<Rightarrow> path \<Rightarrow> fsys \<Rightarrow> (path \<times> 'm list) list \<Rightarrow> gotime \<Rightarrow> bytes list \<Rightarrow>
    cache_state \<Rightarrow> bool" where
  "opened gz json cwd fs0 segs t ws s \<longleftrightarrow> fw s = Writer (Some (cache_path cwd t)) ws \<and>
     (\<exists>c. fs_get (c_fs s) (cache_path cwd t) = Some (File c)) \<and> cache_clear cwd (c_fs s) \<and>
     (\<forall>q. content (c_fs s) q = content fs0 q @ segments_at gz json segs q @ (if q = cache_path cwd t then gz_out gz [] ws else []))"

definition writing :: "coder \<Rightarrow> ('m \<Rightarrow> string) \<Rightarrow> path \<Rightarrow> fsys \<Rightarrow> (path \<times> 'm list) list \<Rightarrow> gotime \<Rightarrow> 'm list \<Rightarrow>
    cache_state \<Rightarrow> bool" where
  "writing gz json cwd fs0 segs t cur s \<longleftrightarrow>
     opened gz json cwd fs0 segs t (json_writes json cur) s \<and> (firstWrite s \<longleftrightarrow> cur = [])"

lemma opened_write:
  assumes "opened gz json cwd fs0 segs t ws s"
  shows "opened gz json cwd fs0 segs t (ws @ [b]) (fw_Write gz b s)"
proof -
  let ?P = "cache_path cwd t"
  obtain c where c: "fs_get (c_fs s) ?P = Some (File c)" using assms by (auto simp: opened_def)
  have "fw_Write gz b s = s\<lparr>fw := Writer (Some ?P) (ws @ [b]), c_fs := fs_put ?P (File (c @ gz_write gz ws b)) (c_fs s)\<rparr>"
    using assms c by (simp add: opened_def fw_Write_def to_file_def Append_def)
  moreover have "content (c_fs s) ?P = c" using c by (simp add: content_def)
  ultimately show ?thesis
    using assms by (auto simp: opened_def cache_clear_put content_put gz_out_snoc)
qed

lemma opened_cong: "opened gz json cwd fs0 segs t ws s \<Longrightarrow> fw s' = fw s \<Longrightarrow> c_fs s' = c_fs s \<Longrightarrow> opened gz json cwd fs0 segs t ws s'"
  by (simp add: opened_def)

lemma open_file:
  assumes "cache_clear cwd fs" and "valid_time t" and "is_dir fs (butlast (cache_path cwd t))"
  obtains fs' where "OpenAppend (cache_path cwd t) fs = Some fs'" "cache_clear cwd fs'"
    "\<And>q. content fs' q = content fs q" "\<exists>c. fs_get fs' (cache_path cwd t) = Some (File c)"
proof (cases "fs_get fs (cache_path cwd t)")
  case None
  have ne: "cache_path cwd t \<noteq> []" by (simp add: cache_path_def)
  show thesis
    by (rule that [of "fs_put (cache_path cwd t) (File []) fs"])
      (use None assms ne in \<open>auto simp: OpenAppend_def cache_clear_put content_def\<close>)
next
  case (Some n)
  then obtain c where "fs_get fs (cache_path cwd t) = Some (File c)"
    using assms(1,2) by (cases n) (auto simp: cache_clear_def)
  then show thesis using assms by (intro that [of fs]) (auto simp: OpenAppend_def)
qed

lemma close_content:
  assumes "writing gz json cwd fs0 segs t cur s"
  shows "\<forall>q. content (c_fs (CloseCache gz s)) q = content fs0 q @ segments_at gz json (segs @ [(cache_path cwd t, cur)]) q"
    and "cache_clear cwd (c_fs (CloseCache gz s))" and "fw (CloseCache gz s) = Closed"
proof -
  let ?P = "cache_path cwd t" and ?ws = "json_writes json cur @ [bytes_of '']'']" and ?s = "fw_Write gz (bytes_of '']'') s"
  have o: "opened gz json cwd fs0 segs t ?ws ?s" using assms by (intro opened_write) (simp add: writing_def)
  then obtain c where c: "fs_get (c_fs ?s) ?P = Some (File c)" by (auto simp: opened_def)
  have "fw s \<noteq> NoWriter" using assms by (simp add: writing_def opened_def)
  then have fs: "c_fs (CloseCache gz s) = fs_put ?P (File (c @ gz_close gz ?ws)) (c_fs ?s)" "fw (CloseCache gz s) = Closed"
    using o c by (simp_all add: opened_def CloseCache_def fw_Close_def to_file_def Append_def)
  have "content (c_fs ?s) ?P = c" using c by (simp add: content_def)
  then show "\<forall>q. content (c_fs (CloseCache gz s)) q = content fs0 q @ segments_at gz json (segs @ [(?P, cur)]) q"
    using o by (auto simp: fs(1) content_put opened_def coded_def gz_all_def)
  show "cache_clear cwd (c_fs (CloseCache gz s))" "fw (CloseCache gz s) = Closed"
    using o fs by (simp_all add: cache_clear_put opened_def)
qed

text \<open>
  The same close with a directory made first, as \<^verbatim>\<open>createFile\<close> does it.
\<close>

lemma writing_mkdir:
  "writing gz json cwd fs0 segs t cur s \<Longrightarrow>
   writing gz json cwd fs0 segs t cur (s\<lparr>c_fs := MkdirAll (butlast (cache_path cwd u)) (c_fs s)\<rparr>)"
  by (auto simp: writing_def opened_def cache_clear_mkdir MkdirAll_keeps)

lemma closed_dir:
  "is_dir (c_fs s) d \<Longrightarrow> \<forall>c. fs_get (c_fs s) d \<noteq> Some (File c) \<Longrightarrow> is_dir (c_fs (CloseCache gz s)) d"
  by (auto simp: CloseCache_def fw_Close_def fw_Write_def to_file_def Append_def is_dir_def split: writer.splits option.splits node.splits if_splits)

lemma create_from:
  assumes "fw s \<in> {NoWriter, Closed}" and "cache_clear cwd (c_fs s)" and "valid_time t"
    and "\<forall>q. content (c_fs s) q = content fs0 q @ segments_at gz json segs q"
  shows "writing gz json cwd fs0 segs t [] (createFile gz cwd t s)"
proof -
  let ?s1 = "s\<lparr>c_fs := MkdirAll (butlast (cache_path cwd t)) (c_fs s)\<rparr>"
  have "CloseCache gz ?s1 = ?s1" using assms(1) by (auto simp: CloseCache_def fw_Close_def fw_Write_def)
  moreover have "is_dir (c_fs ?s1) (butlast (cache_path cwd t))"
    using assms(2,3) by (simp add: MkdirAll_makes cache_clear_def)
  then obtain fs' where "OpenAppend (cache_path cwd t) (c_fs ?s1) = Some fs'" "cache_clear cwd fs'"
      "\<And>q. content fs' q = content (c_fs ?s1) q" "\<exists>c. fs_get fs' (cache_path cwd t) = Some (File c)"
    using open_file [of cwd "c_fs ?s1" t] cache_clear_mkdir [OF assms(2)] assms(3) by auto
  ultimately show ?thesis
    using assms(4) by (simp add: createFile_def Let_def resolve_created [OF assms(3)] writing_def opened_def json_writes_def)
qed

lemma create_next:
  assumes "writing gz json cwd fs0 segs u cur s" and "valid_time t"
  shows "writing gz json cwd fs0 (segs @ [(cache_path cwd u, cur)]) t [] (createFile gz cwd t s)"
proof -
  let ?s1 = "s\<lparr>c_fs := MkdirAll (butlast (cache_path cwd t)) (c_fs s)\<rparr>"
  note w1 = writing_mkdir [OF assms(1), of t]
  note closed = close_content [OF w1]
  have "is_dir (c_fs ?s1) (butlast (cache_path cwd t))"
    using assms by (simp add: MkdirAll_makes cache_clear_def writing_def opened_def)
  moreover have "\<forall>c. fs_get (c_fs ?s1) (butlast (cache_path cwd t)) \<noteq> Some (File c)"
    using calculation by (auto simp: is_dir_def cache_path_def butlast_append)
  ultimately have "is_dir (c_fs (CloseCache gz ?s1)) (butlast (cache_path cwd t))" by (rule closed_dir)
  then obtain fs' where "OpenAppend (cache_path cwd t) (c_fs (CloseCache gz ?s1)) = Some fs'" "cache_clear cwd fs'"
      "\<And>q. content fs' q = content (c_fs (CloseCache gz ?s1)) q" "\<exists>c. fs_get fs' (cache_path cwd t) = Some (File c)"
    using open_file [OF closed(2) assms(2)] by metis
  then show ?thesis
    using closed(1) by (simp add: createFile_def Let_def resolve_created [OF assms(2)] writing_def opened_def json_writes_def)
qed

lemma message_step:
  assumes "writing gz json cwd fs0 segs u cur s" and "valid_time now'"
  shows "\<exists>segs' t cur'. writing gz json cwd fs0 segs' t cur' (processMessage gz json cwd now now' m s) \<and>
    concat (map snd segs') @ cur' = concat (map snd segs) @ cur @ [m] \<and>
    (t = u \<and> segs' = segs \<or> t = now' \<and> segs' = segs @ [(cache_path cwd u, cur)])"
proof -
  have put: "fw s' \<noteq> NoWriter \<and> writing gz json cwd fs0 sg t (c @ [m])
      ((fw_Write gz (bytes_of (json m)) (fw_Write gz (bytes_of (if firstWrite s' then ''['' else '','')) (s'\<lparr>prevRemainder := r\<rparr>)))\<lparr>firstWrite := False\<rparr>)"
    if w: "writing gz json cwd fs0 sg t c s'" for sg t c s' r
  proof -
    have o: "opened gz json cwd fs0 sg t (json_writes json c) (s'\<lparr>prevRemainder := r\<rparr>)" and first: "firstWrite s' \<longleftrightarrow> c = []"
      using w by (simp_all add: writing_def opened_def)
    have "json_writes json (c @ [m]) = (json_writes json c @ [bytes_of (if firstWrite s' then ''['' else '','')]) @ [bytes_of (json m)]"
      by (simp add: json_writes_snoc first)
    then have "opened gz json cwd fs0 sg t (json_writes json (c @ [m]))
        (fw_Write gz (bytes_of (json m)) (fw_Write gz (bytes_of (if firstWrite s' then ''['' else '','')) (s'\<lparr>prevRemainder := r\<rparr>)))"
      by (simp only:) (intro opened_write o)
    then show ?thesis using w by (auto simp: writing_def opened_def)
  qed
  show ?thesis
  proof (cases "Minute now mod 5 = 0 \<and> Minute now mod 5 \<noteq> prevRemainder s")
    case True
    note w = create_next [OF assms]
    show ?thesis
      using put [OF w, of "Minute now mod 5"] True
      by (intro exI [of _ "segs @ [(cache_path cwd u, cur)]"] exI [of _ now'] exI [of _ "[m]"])
        (simp add: processMessage_def Let_def)
  next
    case False
    then show ?thesis
      using put [OF assms(1), of "Minute now mod 5"]
      by (intro exI [of _ segs] exI [of _ u] exI [of _ "cur @ [m]"])
        (simp only: processMessage_def Let_def if_False, simp)
  qed
qed

lemma messages_run:
  assumes "writing gz json cwd fs0 segs u cur s" and "\<forall>x \<in> set ms. valid_time (fst (snd x))" and "valid_time u"
    and "\<forall>x \<in> set segs. \<exists>t. valid_time t \<and> fst x = cache_path cwd t"
  shows "\<exists>segs' t cur'. writing gz json cwd fs0 segs' t cur' (processMessages gz json cwd ms s) \<and> valid_time t \<and>
    concat (map snd segs') @ cur' = concat (map snd segs) @ cur @ map (snd \<circ> snd) ms \<and>
    (\<forall>x \<in> set segs'. \<exists>t. valid_time t \<and> fst x = cache_path cwd t)"
  using assms
proof (induction ms arbitrary: s segs u cur)
  case (Cons x ms)
  obtain now now' m where x: "x = (now, now', m)" by (cases x)
  then have v: "valid_time now'" using Cons.prems(2) by simp
  obtain segs1 t1 cur1 where w: "writing gz json cwd fs0 segs1 t1 cur1 (processMessage gz json cwd now now' m s)"
      "concat (map snd segs1) @ cur1 = concat (map snd segs) @ cur @ [m]"
      "t1 = u \<and> segs1 = segs \<or> t1 = now' \<and> segs1 = segs @ [(cache_path cwd u, cur)]"
    using message_step [OF Cons.prems(1) v] by blast
  have "valid_time t1" using w(3) v Cons.prems(3) by auto
  moreover have "set segs1 \<subseteq> insert (cache_path cwd u, cur) (set segs)" using w(3) by auto
  then have "\<forall>x \<in> set segs1. \<exists>t. valid_time t \<and> fst x = cache_path cwd t"
    using Cons.prems(3,4) by (metis fst_conv insert_iff subsetD)
  moreover have "\<forall>x \<in> set ms. valid_time (fst (snd x))" using Cons.prems(2) by simp
  ultimately obtain segs' t cur' where r:
      "writing gz json cwd fs0 segs' t cur' (processMessages gz json cwd ms (processMessage gz json cwd now now' m s))"
      "valid_time t" "concat (map snd segs') @ cur' = concat (map snd segs1) @ cur1 @ map (snd \<circ> snd) ms"
      "\<forall>x \<in> set segs'. \<exists>t. valid_time t \<and> fst x = cache_path cwd t"
    using Cons.IH [OF w(1)] by blast
  have "concat (map snd segs') @ cur' = concat (map snd segs) @ cur @ map (snd \<circ> snd) (x # ms)"
    using r(3) arg_cong [OF w(2), of "\<lambda>l. l @ map (snd \<circ> snd) ms"] by (simp add: x)
  then show ?case using r(1,2,4) x by (intro exI [of _ segs'] exI [of _ t] exI [of _ cur']) (simp add: comp_def)
qed auto

lemma bytes_concat: "bytes_of (concat ts) = concat (map bytes_of ts)"
  by (simp add: bytes_of_def [abs_def] map_concat comp_def)

lemma cache_segments:
  assumes "fw s = NoWriter" and "cache_clear cwd (c_fs s)" and "valid_time t0" and "\<forall>x \<in> set ms. valid_time (fst (snd x))"
  obtains segs where "concat (map snd segs) = map (snd \<circ> snd) ms" "\<forall>x \<in> set segs. \<exists>t. valid_time t \<and> fst x = cache_path cwd t"
    "\<And>p. content (c_fs (CloseCache gz (processMessages gz json cwd ms ((createFile gz cwd t0 s)\<lparr>prevRemainder := -1\<rparr>)))) p =
       content (c_fs s) p @ segments_at gz json segs p"
proof -
  have "writing gz json cwd (c_fs s) [] t0 [] (createFile gz cwd t0 s)"
    using assms(1-3) by (intro create_from) simp_all
  then have "writing gz json cwd (c_fs s) [] t0 [] ((createFile gz cwd t0 s)\<lparr>prevRemainder := -1\<rparr>)"
    by (simp add: writing_def opened_def)
  from messages_run [OF this assms(4,3)] obtain segs t cur where
    w: "writing gz json cwd (c_fs s) segs t cur (processMessages gz json cwd ms ((createFile gz cwd t0 s)\<lparr>prevRemainder := -1\<rparr>))"
      "valid_time t" "concat (map snd segs) @ cur = map (snd \<circ> snd) ms"
      "\<forall>x \<in> set segs. \<exists>t. valid_time t \<and> fst x = cache_path cwd t"
    by auto
  show thesis
    using close_content(1) [OF w(1)] w(2-4) by (intro that [of "segs @ [(cache_path cwd t, cur)]"]) auto
qed

text \<open>Decompression stream by stream gives the texts of the segments.\<close>

definition texts_at :: "('m \<Rightarrow> string) \<Rightarrow> (path \<times> 'm list) list \<Rightarrow> path \<Rightarrow> string" where
  "texts_at json segs p = concat (map (\<lambda>(q, seg). json_text json seg @ '']'') (filter (\<lambda>x. fst x = p) segs))"

lemma gunz_segments:
  assumes "\<And>wss. gunz (concat (map (gz_all gz) wss)) = concat (map concat wss)"
  shows "gunz (segments_at gz json segs p) = bytes_of (texts_at json segs p)"
proof -
  have "segments_at gz json segs p =
      concat (map (gz_all gz) (map (\<lambda>(q, seg). json_writes json seg @ [bytes_of '']'']) (filter (\<lambda>x. fst x = p) segs)))"
    by (simp add: segments_at_def coded_def comp_def case_prod_beta')
  then show ?thesis
    by (simp only: assms texts_at_def) (simp add: bytes_concat comp_def case_prod_beta' concat_json_writes bytes_append)
qed

text \<open>
  C5. From the first file to the close at shutdown no message is lost, doubled or reordered: the
  messages are split, in their order, into segments, one for each file opened; and closing appends to
  the file of a segment, in that order, the rest of one gzip stream of the text \<^verbatim>\<open>[m1,m2,...]\<close>, or of
  \<^verbatim>\<open>]\<close> alone for a segment without messages, which is not JSON. So if decompression undoes the coding
  stream by stream, a new file decompresses to the texts of its segments.
\<close>

theorem cache_complete:
  assumes "fw s = NoWriter" and "cache_clear cwd (c_fs s)" and "valid_time t0"
    and "\<forall>x \<in> set ms. valid_time (fst (snd x))"
    and "\<And>wss. gunz (concat (map (gz_all gz) wss)) = concat (map concat wss)"
    and "s' = CloseCache gz (processMessages gz json cwd ms ((createFile gz cwd t0 s)\<lparr>prevRemainder := -1\<rparr>))"
  shows "\<exists>segs. concat (map snd segs) = map (snd \<circ> snd) ms \<and>
    (\<forall>x \<in> set segs. \<exists>t. valid_time t \<and> fst x = cache_path cwd t) \<and>
    (\<forall>p. content (c_fs s') p = content (c_fs s) p @ segments_at gz json segs p) \<and>
    (\<forall>p. content (c_fs s) p = [] \<longrightarrow> gunz (content (c_fs s') p) =
       bytes_of (concat (map (\<lambda>(q, seg). json_text json seg @ '']'') (filter (\<lambda>x. fst x = p) segs))))"
proof -
  obtain segs where segs: "concat (map snd segs) = map (snd \<circ> snd) ms" "\<forall>x \<in> set segs. \<exists>t. valid_time t \<and> fst x = cache_path cwd t"
    "\<And>p. content (c_fs s') p = content (c_fs s) p @ segments_at gz json segs p"
    using cache_segments [where gz = gz and json = json, OF assms(1-4)] unfolding assms(6) by blast
  then show ?thesis
    using gunz_segments [where json = json and segs = segs, OF assms(5)] by (intro exI [of _ segs]) (simp add: texts_at_def)
qed

definition empty_cache :: cache_state where
  "empty_cache = \<lparr>c_fs = [], cacheInfo = \<lparr>cacheSize = 0, cacheCount = 0, FirstTime = 0, LastTime = 0, Items = []\<rparr>,
     cacheMutex = False, fw = NoWriter, firstWrite = False, prevRemainder = 0, c_events = []\<rparr>"

text \<open>Two coders without compression: one holds nothing back, the other everything until the close.\<close>

definition plain_coder :: coder where
  "plain_coder = \<lparr>gz_write = (\<lambda>ws b. b), gz_close = (\<lambda>ws. [])\<rparr>"

definition late_coder :: coder where
  "late_coder = \<lparr>gz_write = (\<lambda>ws b. []), gz_close = concat\<rparr>"

lemma gz_all_coders [simp]: "gz_all plain_coder = concat" "gz_all late_coder = concat"
proof -
  have "gz_out plain_coder us ws = concat ws" "gz_out late_coder us ws = []" for us ws
    by (induction ws arbitrary: us) (simp_all add: plain_coder_def late_coder_def)
  then show "gz_all plain_coder = concat" "gz_all late_coder = concat"
    by (simp_all add: gz_all_def fun_eq_iff) (simp_all add: plain_coder_def late_coder_def)
qed

lemma cache_complete_witness:
  "\<exists>segs. concat (map snd segs) = [''1'', ''2''] \<and>
    (\<forall>p. content (c_fs (CloseCache late_coder (processMessages late_coder id [] [(leap_day, leap_day, ''1''), (leap_day, leap_day, ''2'')]
       ((createFile late_coder [] leap_day empty_cache)\<lparr>prevRemainder := -1\<rparr>)))) p = segments_at late_coder id segs p)"
proof -
  have "cache_clear [] (c_fs empty_cache)" by (simp add: empty_cache_def cache_clear_def clear_way_def)
  moreover have "content (c_fs empty_cache) p = []" for p by (simp add: empty_cache_def content_def)
  ultimately show ?thesis
    using cache_complete [of empty_cache "[]" leap_day "[(leap_day, leap_day, ''1''), (leap_day, leap_day, ''2'')]" id late_coder _ id]
      leap_day_cached(2) by (auto simp: empty_cache_def)
qed

end
