(* ===== verification/CacheCopy.thy ===== *)
theory CacheCopy imports CacheRetention CacheText begin

text \<open>
  Copies to the outgoing directory: one cached file on request (\<^verbatim>\<open>ResendCacheItems\<close>) and the whole
  cache (\<^verbatim>\<open>SendFullCache\<close>).
\<close>

section \<open>The names of a resent file\<close>

definition resend_path :: "path \<Rightarrow> path \<Rightarrow> path" where
  "resend_path cwd rel = cwd @ [''outgoing'', ''new'', ''cache''] @ rel"

lemma proper_outgoing: "proper ''outgoing''" "proper ''new''"
  by (simp_all add: proper_def is_sep_def is_slash_def is_backslash_def)

lemma walk_name_noslash: "\<forall>d \<in> set rel. proper d \<Longrightarrow> CHR ''/'' \<notin> set (walk_name ''cache'' rel)"
  using properD(4) by (auto simp: walk_name_def)

lemma resend_name:
  assumes "\<forall>d \<in> set rel. proper d"
  shows "path_Join [''outgoing'', ''new'', walk_name ''cache'' rel] = ''outgoing/new/'' @ walk_name ''cache'' rel"
proof -
  let ?w = "walk_name ''cache'' rel"
  have w: "split_on is_slash ?w = [?w]" using walk_name_noslash [OF assms] by (rule split_slash_none)
  have "''outgoing'' = build_path False [''outgoing'']" by (simp add: build_path_def)
  moreover have "clean_form False [''outgoing'']" using clean_form_proper [of "[''outgoing'']"] proper_outgoing by simp
  moreover have "clean_step False [''outgoing'', ''new''] ?w = [''outgoing'', ''new'', ?w]"
    by (simp add: clean_step_def walk_name_def)
  ultimately have "path_Join [''outgoing'', ''new'', ?w] = build_path False [''outgoing'', ''new'', ?w]"
    using path_Join_build [of False "[''outgoing'']" "[''new'', ?w]"] w proper_outgoing
    by (simp add: split_proper is_slash_def)
  then show ?thesis by (simp add: build_path_def)
qed

lemma resolve_resend:
  assumes "\<forall>d \<in> set rel. proper d"
  shows "resolve cwd (''outgoing/new/'' @ walk_name ''cache'' rel) = resend_path cwd rel"
proof -
  let ?s = "''outgoing/new/'' @ walk_name ''cache'' rel"
  have "split_on is_sep (''outgoing'' @ CHR ''/'' # ''new'' @ CHR ''/'' # walk_name ''cache'' rel) = [''outgoing'', ''new'', ''cache''] @ rel"
    using assms by (simp add: split_on_append split_walk_name split_on_none is_sep_def is_slash_def is_backslash_def)
  moreover have "os_base cwd ?s = cwd"
    by (simp add: os_base_def is_drive_def is_sep_def is_slash_def is_backslash_def)
  moreover have "\<forall>d \<in> set ([''outgoing'', ''new'', ''cache''] @ rel). proper d" using assms proper_outgoing by simp
  ultimately show ?thesis
    using foldl_proper [of "[''outgoing'', ''new'', ''cache''] @ rel" cwd] by (simp add: resolve_def resend_path_def)
qed

lemma to_slashes_walk:
  assumes "\<forall>d \<in> set rel. proper d"
  shows "to_slashes (''outgoing/new/'' @ walk_name ''cache'' rel) = join_slash ([''outgoing'', ''new'', ''cache''] @ rel)"
proof -
  have id: "to_slashes d = d" if "proper d" for d
    using properD(5) [OF that] by (auto simp: to_slashes_def intro: map_idI)
  have app: "to_slashes (a @ b) = to_slashes a @ to_slashes b" for a b by (simp add: to_slashes_def)
  have bs: "to_slashes (CHR 0x5C # b) = CHR ''/'' # to_slashes b" for b by (simp add: to_slashes_def is_backslash_def)
  have rest: "to_slashes (concat (map (\<lambda>n. CHR 0x5C # n) ds)) = concat (map (\<lambda>n. CHR ''/'' # n) ds)"
    if "\<forall>d \<in> set ds. proper d" for ds
    using that by (induction ds) (simp add: to_slashes_def, simp add: app bs id)
  have join: "join_slash (c # ds) = c @ concat (map (\<lambda>n. CHR ''/'' # n) ds)" for c ds
    by (induction ds arbitrary: c) simp_all
  have pre: "to_slashes ''outgoing/new/cache'' = ''outgoing/new/cache''" by (simp add: to_slashes_def is_backslash_def)
  have "''outgoing/new/'' @ walk_name ''cache'' rel = ''outgoing/new/cache'' @ concat (map (\<lambda>n. CHR 0x5C # n) rel)"
    by (simp add: walk_name_def)
  then have "to_slashes (''outgoing/new/'' @ walk_name ''cache'' rel) = ''outgoing/new/cache'' @ concat (map (\<lambda>n. CHR ''/'' # n) rel)"
    by (simp only: app pre rest [OF assms])
  then show ?thesis by (simp add: join)
qed

lemma resolve_resend_dir:
  assumes "\<forall>d \<in> set rel. proper d" and "rel \<noteq> []"
  shows "resolve cwd (path_Dir (to_slashes (''outgoing/new/'' @ walk_name ''cache'' rel))) = butlast (resend_path cwd rel)"
proof -
  let ?cs = "[''outgoing'', ''new'', ''cache''] @ rel" and ?ds = "[''outgoing'', ''new'', ''cache''] @ butlast rel"
  have p: "\<forall>d \<in> set ?cs. proper d" using assms(1) proper_outgoing by simp
  then have pd: "\<forall>d \<in> set ?ds. proper d" by (auto dest: in_set_butlastD)
  have ns: "\<forall>c \<in> set ?cs. CHR ''/'' \<notin> set c" "\<forall>c \<in> set ?ds. CHR ''/'' \<notin> set c" using p pd properD(4) by blast+
  have split: "split_on is_slash (join_slash ?cs) = ?cs" using ns(1) by (intro split_join) simp_all
  have b: "butlast ?cs = ?ds" using assms(2) by (simp add: butlast_append)
  have "split_on is_slash (join_slash ?ds @ CHR ''/'' # []) = ?ds @ [[]]"
    using split_join [OF _ ns(2)] by (simp add: split_on_append is_slash_def)
  then have "path_Clean (join_slash ?ds @ ''/'') = build_path False (foldl (clean_step False) [] (?ds @ [[]]))"
    by (simp add: path_Clean_def is_rooted_def is_slash_def)
  also have "foldl (clean_step False) [] (?ds @ [[]]) = ?ds"
    using foldl_clean_proper [OF pd, of False "[]"] by (simp add: clean_step_def del: append.simps)
  finally have "path_Dir (join_slash ?cs) = rel_path ?ds"
    unfolding path_Dir_def Let_def split b by (simp add: rel_path_def assms(2))
  then show ?thesis
    using to_slashes_walk [OF assms(1)] resolve_rel [OF pd, of cwd] b
    by (simp add: resend_path_def butlast_append assms(2))
qed

section \<open>Resending\<close>

lemma copyFile_ok:
  assumes "fs_get (c_fs s) S = Some (File c)" and "resolve cwd src = S" and "resolve cwd dst = T"
    and "resolve cwd (path_Dir (to_slashes dst)) = butlast T" and "S \<noteq> T" and "T \<noteq> []"
    and "clear_way (c_fs s) (butlast T)" and "fs_get (c_fs s) T \<noteq> Some Dir"
  shows "\<exists>s'. copyFile cwd src dst s = (s', True) \<and> cacheInfo s' = cacheInfo s \<and> fw s' = fw s \<and> cacheMutex s' = cacheMutex s \<and>
    fs_get (c_fs s') = (fs_get (MkdirAll (butlast T) (c_fs s)))(T \<mapsto> File c)"
proof -
  let ?fs = "MkdirAll (butlast T) (c_fs s)"
  have "\<not> prefix T (butlast T)" using assms(6) prefix_length_le [of T "butlast T"] by (cases T) auto
  then have "fs_get ?fs T \<noteq> Some Dir" using MkdirAll_outside assms(8) by metis
  moreover have "is_dir ?fs (butlast T)" using assms(7) by (rule MkdirAll_makes)
  ultimately have "WriteFile T [] ?fs = Some (fs_put T (File []) ?fs)" using assms(6) by (simp add: WriteFile_def)
  moreover have "fs_get ?fs S = Some (File c)" using assms(1) by (rule MkdirAll_keeps)
  ultimately show ?thesis
    using assms(1-5) by (simp add: copyFile_def Let_def c_emit_def ReadFile_def)
qed

text \<open>
  Resending one cached file copies it, byte for byte, to \<^verbatim>\<open>outgoing/new/cache/...\<close> below the
  process's current directory, under the path it has in the cache; no other file changes.
\<close>

theorem resend_copies:
  assumes "\<forall>d \<in> set rel. proper d" and "rel \<noteq> []" and "fs_get (c_fs s) (cwd @ ''cache'' # rel) = Some (File c)"
    and "clear_way (c_fs s) (butlast (resend_path cwd rel))" and "fs_get (c_fs s) (resend_path cwd rel) \<noteq> Some Dir"
    and "Filename item = walk_name ''cache'' rel" and "resendCacheItem cwd e item s = (s', n)"
  shows "n = 1 \<and> fs_get (c_fs s') (resend_path cwd rel) = Some (File c) \<and>
    (\<forall>p f. p \<noteq> resend_path cwd rel \<longrightarrow> (fs_get (c_fs s') p = Some (File f) \<longleftrightarrow> fs_get (c_fs s) p = Some (File f)))"
proof -
  have "cwd @ ''cache'' # rel \<noteq> resend_path cwd rel" "resend_path cwd rel \<noteq> []" by (simp_all add: resend_path_def)
  then obtain s1 where "copyFile cwd (walk_name ''cache'' rel) (''outgoing/new/'' @ walk_name ''cache'' rel) s = (s1, True)"
      "fs_get (c_fs s1) = (fs_get (MkdirAll (butlast (resend_path cwd rel)) (c_fs s)))(resend_path cwd rel \<mapsto> File c)"
    using copyFile_ok [OF assms(3) resolve_walk [OF assms(1)] resolve_resend [OF assms(1)] resolve_resend_dir [OF assms(1,2)] _ _ assms(4,5)]
    by blast
  moreover have "fs_get (MkdirAll q fs) p = Some (File f) \<longleftrightarrow> fs_get fs p = Some (File f)" for q fs p f
    using MkdirAll_get [of q fs p] by auto
  ultimately show ?thesis
    using assms(6,7) by (auto simp: resendCacheItem_def Let_def resend_name [OF assms(1)])
qed

lemma resend_copies_witness:
  "fs_get (c_fs (fst (resendCacheItem [] ''denied'' (item_of [] (c_fs one_file) (cache_path [] leap_day)) one_file)))
     (resend_path [] (tl (cache_path [] leap_day))) = Some (File [1, 2])"
proof -
  let ?rel = "tl (cache_path [] leap_day)" and ?i = "item_of [] (c_fs one_file) (cache_path [] leap_day)"
  have p: "\<forall>d \<in> set ?rel. proper d" using proper_time [OF leap_day_cached(2)] by (simp add: cache_path_def)
  have g: "fs_get (c_fs one_file) ([] @ ''cache'' # ?rel) = Some (File [1, 2])"
    by (simp add: one_file_get) (simp add: cache_path_def)
  have none: "fs_get (c_fs one_file) q = None" if "q \<noteq> []" "hd q = ''outgoing''" for q
    using that by (auto simp: one_file_get cache_path_def)
  have "clear_way (c_fs one_file) (butlast (resend_path [] ?rel))"
    unfolding clear_way_def using none by (auto simp: resend_path_def prefix_Cons butlast_append)
  moreover have "fs_get (c_fs one_file) (resend_path [] ?rel) = None" by (rule none) (simp_all add: resend_path_def)
  moreover have "Filename ?i = walk_name ''cache'' ?rel" by (simp add: item_of_def cache_path_def)
  moreover have "?rel \<noteq> []" by (simp add: cache_path_def)
  ultimately show ?thesis
    using resend_copies [OF p _ g, of ?i "''denied''" "fst (resendCacheItem [] ''denied'' ?i one_file)" "snd (resendCacheItem [] ''denied'' ?i one_file)"]
    by simp
qed

lemma copyFile_info: "cacheInfo (fst (copyFile cwd src dst s)) = cacheInfo s"
  by (simp add: copyFile_def Let_def c_emit_def split: option.splits)

lemma resend_item_info: "cacheInfo (fst (resendCacheItem cwd e i s)) = cacheInfo s" "snd (resendCacheItem cwd e i s) = 1"
  using copyFile_info [of cwd "Filename i" "path_Join [''outgoing'', ''new'', Filename i]" s]
  by (auto simp: resendCacheItem_def Let_def c_emit_def split: prod.splits)

text \<open>
  The number \<^verbatim>\<open>ResendCacheItems\<close> reports is the number of requested items whose file name is in
  the index, each request counted, whether the copies succeed or not.
\<close>

theorem resend_count:
  assumes "cacheSize (cacheInfo s) > 0"
  shows "\<exists>s'. ResendCacheItems cwd e (Some px) items s =
      (s', Ret (int (length (filter (\<lambda>i. Filename i \<in> Filename ` set (Items (cacheInfo s))) items)))) \<and>
    cacheInfo s' = cacheInfo s"
proof -
  have loop: "\<exists>s'. resend_loop cwd e items s k =
      (s', k + int (length (filter (\<lambda>i. Filename i \<in> Filename ` set (Items (cacheInfo s))) items))) \<and> cacheInfo s' = cacheInfo s" for k
  proof (induction items arbitrary: s k)
    case (Cons i items)
    obtain s1 where "resendCacheItem cwd e i s = (s1, 1)" "cacheInfo s1 = cacheInfo s"
      using resend_item_info by (metis prod.collapse)
    moreover have "(\<exists>fi \<in> set (Items (cacheInfo s)). Filename fi = Filename i) \<longleftrightarrow> Filename i \<in> Filename ` set (Items (cacheInfo s))"
      by (auto simp: image_iff) metis
    ultimately show ?case using Cons.IH [of s1 "k + 1"] Cons.IH [of s k] by (auto simp: Let_def)
  qed simp
  show ?thesis using loop [of 0] assms by (auto simp: ResendCacheItems_def)
qed

lemma resend_count_witness:
  "\<forall>px i. snd (ResendCacheItems [] ''denied'' (Some px) [i, i]
     (one_file\<lparr>cacheInfo := \<lparr>cacheSize = 1, cacheCount = 1, FirstTime = 0, LastTime = 0, Items = [i]\<rparr>\<rparr>)) = Ret 2"
proof (intro allI)
  fix px i
  show "snd (ResendCacheItems [] ''denied'' (Some px) [i, i]
     (one_file\<lparr>cacheInfo := \<lparr>cacheSize = 1, cacheCount = 1, FirstTime = 0, LastTime = 0, Items = [i]\<rparr>\<rparr>)) = Ret 2"
    using resend_count [of "one_file\<lparr>cacheInfo := \<lparr>cacheSize = 1, cacheCount = 1, FirstTime = 0, LastTime = 0, Items = [i]\<rparr>\<rparr>"
      "[]" "''denied''" px "[i, i]"]
    by auto
qed

section \<open>Sending the whole cache\<close>

lemma copy_entry_ok:
  assumes wf: "wf_fs fs" and parent: "is_dir fs (dst @ butlast rel)" and rel: "rel \<noteq> []"
    and x: "fs_get fs (src @ rel) = Some x" and fit: "fs_get fs (dst @ rel) = None \<or> (x = Dir \<longleftrightarrow> fs_get fs (dst @ rel) = Some Dir)"
  shows "\<exists>fs'. copy_entry src dst rel fs = (fs', True) \<and> fs_get fs' = (fs_get fs)(dst @ rel \<mapsto> x) \<and> wf_fs fs'"
proof -
  have b: "butlast (dst @ rel) = dst @ butlast rel" using rel by (simp add: butlast_append)
  have ne: "dst @ rel \<noteq> []" using rel by simp
  have up: "is_dir fs q" if "prefix q (dst @ rel)" "q \<noteq> dst @ rel" for q
  proof -
    have "prefix q (butlast (dst @ rel))"
      using that ne by (metis append_butlast_last_id prefix_snoc)
    then show ?thesis using wf_prefix [OF wf] parent unfolding b by (auto simp: prefix_def) 
  qed
  have keep: "wf_fs fs'" if "fs_get fs' = (fs_get fs)(dst @ rel \<mapsto> x)" for fs'
  proof -
    have "is_dir fs' p" if "is_dir fs p" for p
      using that fit \<open>fs_get fs' = _\<close> x by (auto simp: is_dir_def)
    moreover have "is_dir fs p" if "dst @ rel = p @ [n]" for p n
      using up [of p] that by simp
    ultimately show ?thesis using wf that unfolding wf_fs_def by (metis fun_upd_other)
  qed
  show ?thesis
  proof (cases x)
    case (File c)
    then have "WriteFile (dst @ rel) c fs = Some (fs_put (dst @ rel) (File c) fs)"
      using parent fit ne by (auto simp: WriteFile_def b)
    then show ?thesis using x File rel keep by (simp add: copy_entry_def)
  next
    case Dir
    have clear: "clear_way fs (dst @ rel)"
      using up fit Dir by (auto simp: clear_way_def is_dir_def) (metis option.sel option.discI)+
    have "fs_get (MkdirAll (dst @ rel) fs) q = ((fs_get fs)(dst @ rel \<mapsto> Dir)) q" for q
      using MkdirAll_get [of "dst @ rel" fs q] up [of q] MkdirAll_makes [OF clear] ne by (auto simp: is_dir_def)
    then have "fs_get (MkdirAll (dst @ rel) fs) = (fs_get fs)(dst @ rel \<mapsto> x)" using Dir by blast
    then show ?thesis using x Dir rel keep MkdirAll_makes [OF clear] by (simp add: copy_entry_def Let_def)
  qed
qed

text \<open>The order a walk guarantees: a directory is copied before its entries.\<close>

definition parents_first :: "fsys \<Rightarrow> path \<Rightarrow> path \<Rightarrow> path list \<Rightarrow> bool" where
  "parents_first fs src dst rels \<longleftrightarrow> (\<forall>a rel b. rels = a @ rel # b \<longrightarrow> rel \<noteq> [] \<longrightarrow>
     is_dir fs (dst @ butlast rel) \<or> butlast rel \<noteq> [] \<and> butlast rel \<in> set a \<and> fs_get fs (src @ butlast rel) = Some Dir)"

definition fits :: "fsys \<Rightarrow> path \<Rightarrow> path \<Rightarrow> path list \<Rightarrow> bool" where
  "fits fs src dst rels \<longleftrightarrow> (\<forall>rel \<in> set rels. rel \<noteq> [] \<longrightarrow> fs_get fs (src @ rel) \<noteq> None \<and>
     (fs_get fs (dst @ rel) = None \<or> (fs_get fs (src @ rel) = Some Dir \<longleftrightarrow> fs_get fs (dst @ rel) = Some Dir)))"

lemma copy_walk_ok:
  assumes "wf_fs fs" and "\<not> prefix src dst" and "\<not> prefix dst src" and "distinct rels"
    and "parents_first fs src dst rels" and "fits fs src dst rels"
  shows "\<exists>fs'. copy_walk src dst rels fs = (fs', True) \<and> wf_fs fs' \<and>
    (\<forall>rel \<in> set rels. rel \<noteq> [] \<longrightarrow> fs_get fs' (dst @ rel) = fs_get fs (src @ rel)) \<and>
    (\<forall>q. (\<forall>r \<in> set rels. r \<noteq> [] \<longrightarrow> q \<noteq> dst @ r) \<longrightarrow> fs_get fs' q = fs_get fs q)"
  using assms
proof (induction rels arbitrary: fs)
  case (Cons rel rels)
  have apart: "src @ r \<noteq> dst @ r'" for r r'
    using assms(2,3) prefix_same_cases [of src "src @ r" dst] by auto
  show ?case
  proof (cases "rel = []")
    case True
    have "parents_first fs src dst rels"
      unfolding parents_first_def
    proof (intro allI impI)
      fix a r b assume r: "rels = a @ r # b" "r \<noteq> []"
      then have "rel # rels = (rel # a) @ r # b" by simp
      then have "is_dir fs (dst @ butlast r) \<or> butlast r \<noteq> [] \<and> butlast r \<in> set (rel # a) \<and> fs_get fs (src @ butlast r) = Some Dir"
        using Cons.prems(5) r(2) unfolding parents_first_def by blast
      then show "is_dir fs (dst @ butlast r) \<or> butlast r \<noteq> [] \<and> butlast r \<in> set a \<and> fs_get fs (src @ butlast r) = Some Dir"
        using True by auto
    qed
    then show ?thesis using Cons True by (auto simp: copy_entry_def fits_def)
  next
    case False
    obtain x where x: "fs_get fs (src @ rel) = Some x" using Cons.prems(6) False by (auto simp: fits_def)
    have "is_dir fs (dst @ butlast rel)"
      using Cons.prems(5) False unfolding parents_first_def by (metis append_Nil empty_iff list.set(1))
    then obtain fs1 where fs1: "copy_entry src dst rel fs = (fs1, True)" "fs_get fs1 = (fs_get fs)(dst @ rel \<mapsto> x)" "wf_fs fs1"
      using copy_entry_ok [OF Cons.prems(1) _ False x] Cons.prems(6) x False by (auto simp: fits_def)
    have fits1: "fits fs1 src dst rels"
      using Cons.prems(4,6) apart by (auto simp: fits_def fs1(2))
    have dirs: "is_dir fs1 q" if "is_dir fs q" for q
      using that Cons.prems(6) x False by (auto simp: fits_def is_dir_def fs1(2))
    have "parents_first fs1 src dst rels"
      unfolding parents_first_def
    proof (intro allI impI)
      fix a r b assume r: "rels = a @ r # b" "r \<noteq> []"
      then have "rel # rels = (rel # a) @ r # b" by simp
      then have "is_dir fs (dst @ butlast r) \<or> butlast r \<noteq> [] \<and> butlast r \<in> set (rel # a) \<and> fs_get fs (src @ butlast r) = Some Dir"
        using Cons.prems(5) r(2) unfolding parents_first_def by blast
      then show "is_dir fs1 (dst @ butlast r) \<or> butlast r \<noteq> [] \<and> butlast r \<in> set a \<and> fs_get fs1 (src @ butlast r) = Some Dir"
      proof (elim disjE conjE)
        assume d: "butlast r \<noteq> []" "butlast r \<in> set (rel # a)" "fs_get fs (src @ butlast r) = Some Dir"
        have "fs_get fs1 (src @ butlast r) = Some Dir" using d(3) apart by (simp add: fs1(2))
        moreover have "is_dir fs1 (dst @ butlast r)" if "butlast r = rel" using that d(3) x by (simp add: fs1(2) is_dir_def)
        ultimately show ?thesis using d by auto
      qed (simp add: dirs)
    qed
    then obtain fs' where "copy_walk src dst rels fs1 = (fs', True)" "wf_fs fs'"
        "\<forall>r \<in> set rels. r \<noteq> [] \<longrightarrow> fs_get fs' (dst @ r) = fs_get fs1 (src @ r)"
        "\<forall>q. (\<forall>r \<in> set rels. r \<noteq> [] \<longrightarrow> q \<noteq> dst @ r) \<longrightarrow> fs_get fs' q = fs_get fs1 q"
      using Cons.IH [OF fs1(3) assms(2,3) _ _ fits1] Cons.prems(4) by auto
    moreover from this(4) have "fs_get fs' (dst @ rel) = Some x" using Cons.prems(4) False by (auto simp: fs1(2))
    ultimately show ?thesis using fs1 x apart Cons.prems(4) False by (intro exI [of _ fs']) auto
  qed
qed simp

lemma less_append: "s \<noteq> [] \<Longrightarrow> p < p @ (s :: 'a :: linorder list)"
  by (induction p) (simp_all add: neq_Nil_conv, metis Nil_less_Cons)

lemma sorted_earlier:
  assumes "sorted xs" and "distinct xs" and "xs = a @ x # b" and "y \<in> set xs" and "y < x"
  shows "y \<in> set a"
  using assms by (auto simp: sorted_append)

lemma walk_order:
  assumes "wf_fs fs" and "fs_get fs src = Some Dir"
  shows "parents_first fs src dst (map (drop (length src)) (Walk fs src)) \<or> \<not> is_dir fs dst"
proof -
  have "is_dir fs (dst @ butlast rel) \<or> butlast rel \<noteq> [] \<and> butlast rel \<in> set a \<and> fs_get fs (src @ butlast rel) = Some Dir"
    if split: "map (drop (length src)) (Walk fs src) = a @ rel # b" and rel: "rel \<noteq> []" and d: "is_dir fs dst" for a rel b
  proof (cases "butlast rel = []")
    case False
    obtain xs y ys where w: "Walk fs src = xs @ y # ys" "a = map (drop (length src)) xs" "rel = drop (length src) y"
      using split by (auto simp: map_eq_append_conv map_eq_Cons_conv)
    have y: "fs_get fs y \<noteq> None" "y = src @ rel"
      using set_Walk [of y fs src] w by (auto simp: prefix_def)
    have yy: "y = (src @ butlast rel) @ [last rel]" using y(2) rel by simp
    have dir: "fs_get fs (src @ butlast rel) = Some Dir"
      using y(1) assms(1) False unfolding yy wf_fs_def by (metis append_is_Nil_conv is_dir_def)
    have "src @ butlast rel \<in> set (Walk fs src)" using set_Walk dir by auto
    moreover have "src @ butlast rel < y" unfolding yy by (rule less_append) simp
    ultimately have "src @ butlast rel \<in> set xs" using sorted_earlier [OF sorted_Walk distinct_Walk w(1)] by blast
    then have "butlast rel \<in> set a" using w(2) by force
    then show ?thesis using False dir by blast
  qed (simp add: d)
  then show ?thesis unfolding parents_first_def by blast
qed

text \<open>What the copy may meet in \<open>dst\<close>: nothing, or an entry of the same kind.\<close>

definition no_clash :: "path \<Rightarrow> path \<Rightarrow> fsys \<Rightarrow> bool" where
  "no_clash src dst fs \<longleftrightarrow> (\<forall>rel. fs_get fs (src @ rel) \<noteq> None \<longrightarrow> rel \<noteq> [] \<longrightarrow>
     fs_get fs (dst @ rel) = None \<or> (fs_get fs (src @ rel) = Some Dir \<longleftrightarrow> fs_get fs (dst @ rel) = Some Dir))"

definition overlaid :: "path \<Rightarrow> path \<Rightarrow> fsys \<Rightarrow> fsys \<Rightarrow> bool" where
  "overlaid src dst fs fs' \<longleftrightarrow>
     (\<forall>rel. rel \<noteq> [] \<longrightarrow> fs_get fs (src @ rel) \<noteq> None \<longrightarrow> fs_get fs' (dst @ rel) = fs_get fs (src @ rel)) \<and>
     (\<forall>q. (\<forall>rel. rel \<noteq> [] \<longrightarrow> fs_get fs (src @ rel) \<noteq> None \<longrightarrow> q \<noteq> dst @ rel) \<longrightarrow> fs_get fs' q = fs_get fs q)"

lemma overlaid_at: "overlaid src dst fs fs' \<Longrightarrow> rel \<noteq> [] \<Longrightarrow> fs_get fs (src @ rel) \<noteq> None \<Longrightarrow> fs_get fs' (dst @ rel) = fs_get fs (src @ rel)"
  unfolding overlaid_def by blast

lemma overlaid_outside: "overlaid src dst fs fs' \<Longrightarrow> \<not> prefix dst q \<Longrightarrow> fs_get fs' q = fs_get fs q"
  unfolding overlaid_def by (metis prefixI)

lemma SendFullCache_overlay:
  fixes cwd
  defines "src \<equiv> cwd @ [''cache'']" and "dst \<equiv> cwd @ [''outgoing'', ''new'']"
  assumes wf: "wf_fs (c_fs s)" and "fs_get (c_fs s) src = Some Dir" and "is_dir (c_fs s) dst" and "no_clash src dst (c_fs s)"
  obtains fs' where "SendFullCache cwd e s = (s\<lparr>c_fs := fs'\<rparr>, True)" "wf_fs fs'" "overlaid src dst (c_fs s) fs'"
proof -
  let ?fs = "c_fs s"
  let ?rels = "map (drop (length src)) (Walk ?fs src)"
  have rels: "rel \<in> set ?rels \<longleftrightarrow> fs_get ?fs (src @ rel) \<noteq> None" for rel
  proof
    assume "rel \<in> set ?rels"
    then obtain p where "p \<in> set (Walk ?fs src)" "rel = drop (length src) p" by auto
    then show "fs_get ?fs (src @ rel) \<noteq> None" using set_Walk [of p ?fs src] by (auto simp: prefix_def)
  next
    assume "fs_get ?fs (src @ rel) \<noteq> None"
    then have "src @ rel \<in> set (Walk ?fs src)" using set_Walk by auto
    then have "drop (length src) (src @ rel) \<in> drop (length src) ` set (Walk ?fs src)" by (rule imageI)
    then show "rel \<in> set ?rels" by simp
  qed
  have "inj_on (drop (length src)) (set (Walk ?fs src))"
  proof (rule inj_onI)
    fix x y assume "x \<in> set (Walk ?fs src)" "y \<in> set (Walk ?fs src)" "drop (length src) x = drop (length src) y"
    then show "x = y" using set_Walk [of x ?fs src] set_Walk [of y ?fs src] by (auto simp: prefix_def)
  qed
  then have dist: "distinct ?rels" using distinct_Walk by (simp add: distinct_map)
  have fit: "fits ?fs src dst ?rels" using rels assms(6) by (auto simp: fits_def no_clash_def)
  have order: "parents_first ?fs src dst ?rels" using walk_order [OF wf assms(4)] assms(5) by blast
  have apart: "\<not> prefix src dst" "\<not> prefix dst src" by (simp_all add: src_def dst_def)
  obtain fs' where w: "copy_walk src dst ?rels ?fs = (fs', True)" "wf_fs fs'"
      "\<forall>rel \<in> set ?rels. rel \<noteq> [] \<longrightarrow> fs_get fs' (dst @ rel) = fs_get ?fs (src @ rel)"
      "\<forall>q. (\<forall>r \<in> set ?rels. r \<noteq> [] \<longrightarrow> q \<noteq> dst @ r) \<longrightarrow> fs_get fs' q = fs_get ?fs q"
    using copy_walk_ok [OF wf apart dist order fit] by blast
  have new: "resolve cwd ''outgoing/new'' = dst"
    using resolve_rel [of "[''outgoing'', ''new'']" cwd] proper_outgoing by (simp add: rel_path_def build_path_def dst_def)
  have "SendFullCache cwd e s = (s\<lparr>c_fs := fs'\<rparr>, True)"
    using w(1) by (simp add: SendFullCache_def copyDir_def Let_def new src_def)
  moreover have "overlaid src dst ?fs fs'"
    unfolding overlaid_def using w(3,4) [unfolded rels [abs_def]] rels by blast
  ultimately show thesis using that w(2) by blast
qed

text \<open>
  C18. \<^verbatim>\<open>SendFullCache\<close>, when \<^verbatim>\<open>outgoing/new\<close> exists below the current directory and nothing there is in
  the way, succeeds: every file and directory of the cache is in \<^verbatim>\<open>outgoing/new\<close> under its path
  relative to the cache, with the same bytes, the cache itself is untouched, and so is everything else.
\<close>

theorem SendFullCache_complete:
  assumes "wf_fs (c_fs s)" and "fs_get (c_fs s) (cwd @ [''cache'']) = Some Dir" and "is_dir (c_fs s) (cwd @ [''outgoing'', ''new''])"
    and "\<And>rel. fs_get (c_fs s) (cwd @ ''cache'' # rel) \<noteq> None \<Longrightarrow> rel \<noteq> [] \<Longrightarrow>
      fs_get (c_fs s) (cwd @ [''outgoing'', ''new''] @ rel) = None \<or>
      (fs_get (c_fs s) (cwd @ ''cache'' # rel) = Some Dir \<longleftrightarrow> fs_get (c_fs s) (cwd @ [''outgoing'', ''new''] @ rel) = Some Dir)"
  shows "\<exists>s'. SendFullCache cwd e s = (s', True) \<and> c_events s' = c_events s \<and>
    (\<forall>rel. rel \<noteq> [] \<longrightarrow> fs_get (c_fs s) (cwd @ ''cache'' # rel) \<noteq> None \<longrightarrow>
       fs_get (c_fs s') (cwd @ [''outgoing'', ''new''] @ rel) = fs_get (c_fs s) (cwd @ ''cache'' # rel)) \<and>
    (\<forall>q. \<not> prefix (cwd @ [''outgoing'', ''new'']) q \<longrightarrow> fs_get (c_fs s') q = fs_get (c_fs s) q)"
proof -
  have "no_clash (cwd @ [''cache'']) (cwd @ [''outgoing'', ''new'']) (c_fs s)"
    using assms(4) by (simp add: no_clash_def)
  from SendFullCache_overlay [OF assms(1-3) this, of e] obtain fs' where
    r: "SendFullCache cwd e s = (s\<lparr>c_fs := fs'\<rparr>, True)" "overlaid (cwd @ [''cache'']) (cwd @ [''outgoing'', ''new'']) (c_fs s) fs'"
    by blast
  then show ?thesis using overlaid_at [OF r(2)] overlaid_outside [OF r(2)] by (intro exI [of _ "s\<lparr>c_fs := fs'\<rparr>"]) simp
qed

definition copy_scene :: cache_state where
  "copy_scene = empty_cache\<lparr>c_fs := [([''w''], Dir), ([''w'', ''cache''], Dir), ([''w'', ''cache'', ''x''], File [7]),
      ([''w'', ''outgoing''], Dir), ([''w'', ''outgoing'', ''new''], Dir)]\<rparr>"

lemma SendFullCache_complete_witness:
  "\<exists>s'. SendFullCache [''w''] ''denied'' copy_scene = (s', True) \<and>
    fs_get (c_fs s') [''w'', ''outgoing'', ''new'', ''x''] = Some (File [7])"
proof -
  have "\<forall>p \<in> set (map fst (c_fs copy_scene)). is_dir (c_fs copy_scene) (butlast p)"
    by (simp add: copy_scene_def is_dir_def fs_get_def)
  then have "wf_fs (c_fs copy_scene)" unfolding wf_fs_def fs_keys [symmetric] by (metis butlast_snoc)
  moreover have "is_dir (c_fs copy_scene) ([''w''] @ [''outgoing'', ''new''])" "fs_get (c_fs copy_scene) ([''w''] @ [''cache'']) = Some Dir"
    by (simp_all add: copy_scene_def is_dir_def fs_get_def)
  moreover have "fs_get (c_fs copy_scene) ([''w''] @ [''outgoing'', ''new''] @ rel) = None" if "rel \<noteq> []" for rel
    using that by (simp add: copy_scene_def fs_get_def)
  moreover have "fs_get (c_fs copy_scene) ([''w''] @ ''cache'' # [''x'']) = Some (File [7])"
    by (simp add: copy_scene_def fs_get_def)
  ultimately obtain s' where "SendFullCache [''w''] ''denied'' copy_scene = (s', True)"
      "fs_get (c_fs s') ([''w''] @ [''outgoing'', ''new''] @ [''x'']) = fs_get (c_fs copy_scene) ([''w''] @ ''cache'' # [''x''])"
    using SendFullCache_complete [of copy_scene "[''w'']" "''denied''"] by blast
  then show ?thesis by (intro exI [of _ s']) (simp add: copy_scene_def fs_get_def)
qed

end
