(* ===== verification/TransferMonitor.thy ===== *)
theory TransferMonitor imports TransferTheorems begin

text \<open>
  The monitor of the outgoing directory (\<^verbatim>\<open>src/engine/filetransfer.go\<close>): the passes one after another, with what
  others put into \<^verbatim>\<open>new\<close> between them. A file system stays a tree through a pass, an outgoing directory that
  is tidy stays tidy through a healthy pass, and a pass always comes to its end.
\<close>

section \<open>The tree stays a tree\<close>

lemma send_loop_fs:
  "ft_fs (fst (send_loop ctx sz fails drops rest content counter tot st)) = ft_fs st \<and>
   snd (send_loop ctx sz fails drops rest content counter tot st) \<noteq> NoReturn"
proof (induction rest arbitrary: fails drops content counter tot st rule: length_induct)
  case (1 rest)
  define n where "n = (if fails = Some 0 then 0 else min 1192 (length rest))"
  define c where "c = le32 counter @ le32 (word_of_nat n) @ take n rest @ drop (8 + n) content"
  define st1 where "st1 = fst (c_Write (drops 0) c st)"
  define tot' where "tot' = tot + int (snd (c_Write (drops 0) c st))"
  define k where "k = counter + 1"
  define st2 where "st2 = (if k mod 1000 = 0 then emit [Progress tot' sz] st1 else st1)"
  define m where "m = (word_of_int (modulus ctx) :: u32)"
  define st3 where "st3 = (if k mod m = 0 then put_wire [Pause (msdelay ctx)] st2 else st2)"
  have step: "send_loop ctx sz fails drops rest content counter tot st =
     (if m = 0 then (st2, Panic ''integer divide by zero'')
      else if n = 0 then (st3, Ret ()) else send_loop ctx sz (map_option (\<lambda>k. k - 1) fails) (\<lambda>i. drops (Suc i)) (drop n rest) c k tot' st3)"
    by (subst send_loop.simps) (simp only: Let_def split_def n_def c_def st1_def tot'_def k_def st2_def m_def st3_def)
  have fs: "ft_fs st2 = ft_fs st" "ft_fs st3 = ft_fs st"
    by (simp_all add: st1_def st2_def st3_def put_wire_def emit_def)
  have "n \<noteq> 0 \<Longrightarrow> length (drop n rest) < length rest" by (auto simp: n_def split: if_splits)
  then show ?case using 1 by (simp add: step fs)
qed

lemma sendFile_effect:
  fixes cwd ctx info and st :: ft_state
  defines "src \<equiv> resolve cwd (path_Join [basedir ctx, processingdir ctx, fiPath info, fiName info])"
    and "dir \<equiv> path_Join [basedir ctx, donedir ctx, fiPath info]"
  assumes "sendFile cwd px e ctx info st = (st', r)"
  shows "r \<noteq> NoReturn"
    and "ft_fs st' = ft_fs st \<or> ft_fs st' = MkdirAll (resolve cwd dir) (ft_fs st) \<or>
      Rename src (resolve cwd (path_Join [dir, fiName info])) (MkdirAll (resolve cwd dir) (ft_fs st)) = Some (ft_fs st')"
proof -
  have loop: "ft_fs st2 = ft_fs st1 \<and> r2 \<noteq> NoReturn"
    if "send_loop ctx (fiSize info) (read_fails e) (lost e) c content 0 0 st1 = (st2, r2)" for c content st1 st2 r2
    using send_loop_fs [of ctx "fiSize info" "read_fails e" "lost e" c content 0 0 st1] that by simp
  have written: "ft_fs st2 = ft_fs st1" if "c_Write f p st1 = (st2, n)" for f p st1 st2 n
    using that by (auto simp: c_Write_def)
  have "r \<noteq> NoReturn \<and> (ft_fs st' = ft_fs st \<or> ft_fs st' = MkdirAll (resolve cwd dir) (ft_fs st) \<or>
      Rename src (resolve cwd (path_Join [dir, fiName info])) (MkdirAll (resolve cwd dir) (ft_fs st)) = Some (ft_fs st'))"
    using assms(3) unfolding src_def dir_def
    by (auto simp: sendFile_def calcHash_def Let_def emit_def put_wire_def split: option.splits node.splits if_splits prod.splits outcome.splits dest!: loop written)
  then show "r \<noteq> NoReturn"
    and "ft_fs st' = ft_fs st \<or> ft_fs st' = MkdirAll (resolve cwd dir) (ft_fs st) \<or>
      Rename src (resolve cwd (path_Join [dir, fiName info])) (MkdirAll (resolve cwd dir) (ft_fs st)) = Some (ft_fs st')"
    by blast+
qed

lemma wf_sendFile: "wf_fs (ft_fs st) \<Longrightarrow> sendFile cwd px e ctx info st = (st', r) \<Longrightarrow> wf_fs (ft_fs st')"
  using sendFile_effect(2) wf_MkdirAll wf_Rename by metis

text \<open>Whatever is refused and however the pass ends, the file system stays a tree.\<close>

lemma wf_pass:
  "wf_fs (ft_fs st) \<Longrightarrow> wf_fs (ft_fs (fst (processDirectory cwd px env ctx k dirname st)))"
  "wf_fs (ft_fs st) \<Longrightarrow> wf_fs (ft_fs (fst (process_infos cwd px env ctx k dirname infos st)))"
proof (induction cwd px env ctx k dirname st and cwd px env ctx k dirname infos st rule: processDirectory_process_infos.induct)
  case (2 cwd px env ctx k dirname st)
  then show ?case by (simp add: Let_def wf_MkdirAll)
next
  case (4 cwd px env ctx k dirname name infos st)
  obtain st1 r where d: "processDirectory cwd px env ctx k (path_Join [dirname, name]) st = (st1, r)" by fastforce
  then have "wf_fs (ft_fs st1)" using 4 by simp
  then show ?case using 4(2) d by (cases r) simp_all
next
  case (5 cwd px env ctx k dirname name c infos st)
  let ?from = "resolve cwd (path_Join [path_Join [basedir ctx, newdir ctx, dirname], name])"
    and ?to = "resolve cwd (path_Join [path_Join [basedir ctx, processingdir ctx, dirname], name])"
    and ?info = "\<lparr>fiName = name, fiPath = dirname, fiSize = int (length c)\<rparr>"
  show ?case
  proof (cases "if new_refused (env dirname name) then None else Rename ?from ?to (ft_fs st)")
    case None
    then show ?thesis using 5 by (simp add: Let_def)
  next
    case (Some fs)
    define st1 where "st1 = emit [Notified ''filetransfer.request''] (st\<lparr>ft_fs := fs\<rparr>)"
    have "wf_fs (ft_fs st1)" using Some wf_Rename 5(3) by (auto simp: st1_def emit_def split: if_splits)
    moreover obtain st2 r where sent: "sendFile cwd px (env dirname name) ctx ?info st1 = (st2, r)" by fastforce
    ultimately have "wf_fs (ft_fs st2)" by (rule wf_sendFile)
    then show ?thesis using 5 Some sent by (cases r) (simp_all add: Let_def st1_def)
  qed
qed simp_all

section \<open>The monitor\<close>

text \<open>
  \<^verbatim>\<open>monitorFilesystem\<close>: a pass at every tick. Between two ticks others may change the file system; a tick is such a
  change, and what is refused during the pass after it. The run is one of finitely many ticks of the endless loop.
\<close>

type_synonym ft_tick = "(fsys \<Rightarrow> fsys) \<times> (string \<Rightarrow> string \<Rightarrow> ft_env)"

fun monitorFilesystem :: "path \<Rightarrow> DiodeProxy \<Rightarrow> ft_context \<Rightarrow> nat \<Rightarrow> ft_tick list \<Rightarrow> ft_state \<Rightarrow> ft_state \<times> unit outcome" where
  "monitorFilesystem cwd px ctx k [] st = (st, Ret ())"
| "monitorFilesystem cwd px ctx k ((arrive, env) # ticks) st =
     (case processDirectory cwd px env ctx k ''.'' (st\<lparr>ft_fs := arrive (ft_fs st)\<rparr>) of
        (st1, Ret _) \<Rightarrow> monitorFilesystem cwd px ctx k ticks st1
      | stop \<Rightarrow> stop)"

text \<open>
  What a healthy run of the monitor is to do, on the file system and the wire only: at every tick all the
  files that are in \<^verbatim>\<open>new\<close> then are moved, and the non-empty ones are transmitted, each once.
\<close>

fun rounds :: "path \<Rightarrow> ft_context \<Rightarrow> ft_tick list \<Rightarrow> fsys \<Rightarrow> wire list \<Rightarrow> fsys \<Rightarrow> bool" where
  "rounds cwd ctx [] fs ws fs' \<longleftrightarrow> ws = [] \<and> fs' = fs"
| "rounds cwd ctx ((arrive, env) # ticks) fs ws fs' \<longleftrightarrow>
     (\<exists>fs1 w1 w2. ws = w1 @ w2 \<and> moved cwd ctx UNIV (arrive fs) fs1 \<and> transmitted cwd ctx (arrive fs) UNIV w1 \<and>
        rounds cwd ctx ticks fs1 w2 fs')"

lemma tidy_wf: "tidy cwd ctx fs \<Longrightarrow> wf_fs fs"
  using tidyD(1) by (intro wf_fsI)

lemma moved_no_files:
  assumes "moved cwd ctx UNIV fs fs'"
  shows "\<not> file_at fs' (area cwd ctx ''new'' @ r) c"
  using moved_new [OF assms, of r] by (auto split: if_splits)

lemma moved_old_dir:
  assumes t: "tidy cwd ctx fs" and m: "moved cwd ctx UNIV fs fs'" and d: "is_dir fs' (area cwd ctx ''new'' @ r)"
    and sub: "sub \<in> {''processing'', ''done''}"
  shows "\<not> file_at fs' (area cwd ctx sub @ r) c"
proof -
  have new: "is_dir fs (area cwd ctx ''new'' @ r)" using d moved_new [OF m, of r] by (auto simp: is_dir_area split: if_splits)
  then have old: "\<not> file_at fs (area cwd ctx sub @ r) c" using tidyD(6,7) [OF t] sub by blast
  have "r \<noteq> r'" if "file_at fs (area cwd ctx ''new'' @ r') c'" for r' c' using new that by (auto simp: is_dir_area)
  then show ?thesis using moved_frame [OF m, of "area cwd ctx sub @ r"] old sub by fastforce
qed

text \<open>After a pass the outgoing directory is as tidy as it was.\<close>

lemma tidy_moved:
  assumes t: "tidy cwd ctx fs" and m: "moved cwd ctx UNIV fs fs'" and wf: "wf_fs fs'"
  shows "tidy cwd ctx fs'"
proof -
  have dirs: "is_dir fs' (area cwd ctx sub)" if "sub \<in> {''new'', ''processing'', ''done''}" for sub
    using moved_keeps_dir [OF t m, of "area cwd ctx sub"] tidyD(2-4) [OF t] that by (auto simp: is_dir_def)
  have names: "fs_get fs' (area cwd ctx ''new'' @ r) \<noteq> None \<Longrightarrow> \<forall>d \<in> set r. proper d" for r
    using moved_new [OF m, of r] tidyD(5) [OF t] by (metis (full_types))
  show ?thesis
    unfolding tidy_def
  proof (intro conjI allI impI)
    show "is_dir fs' p" if "fs_get fs' (p @ [n]) \<noteq> None" for p n by (rule wf_fsD [OF wf that])
    show "\<not> file_at fs' (area cwd ctx ''processing'' @ r) c" "\<not> file_at fs' (area cwd ctx ''done'' @ r) c"
      if "is_dir fs' (area cwd ctx ''new'' @ r)" for r c
      by (rule moved_old_dir [OF t m that]; simp)+
  qed (use dirs names moved_no_files [OF m] in blast)+
qed

definition shallow :: "path \<Rightarrow> ft_context \<Rightarrow> nat \<Rightarrow> fsys \<Rightarrow> bool" where
  "shallow cwd ctx k fs \<longleftrightarrow> (\<forall>r. fs_get fs (area cwd ctx ''new'' @ r) = Some Dir \<longrightarrow> length r < k)"

lemma shallow_moved: "shallow cwd ctx k fs \<Longrightarrow> moved cwd ctx UNIV fs fs' \<Longrightarrow> shallow cwd ctx k fs'"
  using moved_new [of cwd ctx UNIV fs fs'] by (auto simp: shallow_def split: if_splits)

lemma healthy_pass:
  assumes std: "std_context ctx" and t: "tidy cwd ctx (ft_fs st)" and e: "\<And>d n. healthy (env d n)"
    and depth: "shallow cwd ctx k (ft_fs st)"
  obtains st' ws where "processDirectory cwd px env ctx k ''.'' st = (st', Ret ())" "moved cwd ctx UNIV (ft_fs st) (ft_fs st')"
    "wire st' = wire st @ ws" "transmitted cwd ctx (ft_fs st) UNIV ws" "tidy cwd ctx (ft_fs st')"
proof -
  have "fs_get (ft_fs st) (area cwd ctx ''new'' @ []) = Some Dir"
    using tidyD(2) [OF t] is_dir_area [of "ft_fs st" cwd ctx "''new''" "[]"] by simp
  then have "done_part cwd ctx st ({} \<union> below []) st (processDirectory cwd px env ctx k (rel_path []) st)"
    using processDirectory_part [where env = env and px = px and ds = "[]" and X = "{}", OF std t e _ _ pass_at_start] depth
    by (simp add: shallow_def)
  moreover have "{} \<union> below [] = UNIV" by (auto simp: below_def)
  ultimately obtain st' ws where r: "processDirectory cwd px env ctx k ''.'' st = (st', Ret ())" "moved cwd ctx UNIV (ft_fs st) (ft_fs st')"
    "wire st' = wire st @ ws" "transmitted cwd ctx (ft_fs st) UNIV ws" by (auto simp: done_part_def pass_at_def)
  have "wf_fs (ft_fs st')" using wf_pass(1) [OF tidy_wf [OF t], of cwd px env ctx k "''.''"] r(1) by simp
  then show thesis using that [OF r] tidy_moved [OF t r(2)] by simp
qed

text \<open>
  C2. While nothing is refused and what is put into \<^verbatim>\<open>new\<close> keeps the outgoing directory tidy, with less than
  \<open>k\<close> levels of directories, the monitor never stops, and does what \<open>rounds\<close> says: every non-empty
  file that is in \<^verbatim>\<open>new\<close> at some tick is transmitted once, in that tick, and moved to \<^verbatim>\<open>done\<close>; an empty one
  is moved to \<^verbatim>\<open>processing\<close> and never sent; when the run ends the directory is tidy and \<^verbatim>\<open>new\<close> holds no file.
\<close>

theorem monitor_delivers:
  assumes "std_context ctx" and "tidy cwd ctx (ft_fs st)" and "shallow cwd ctx k (ft_fs st)"
    and "\<forall>(arrive, env) \<in> set ticks. (\<forall>fs. tidy cwd ctx fs \<and> shallow cwd ctx k fs \<longrightarrow> tidy cwd ctx (arrive fs) \<and> shallow cwd ctx k (arrive fs)) \<and>
      (\<forall>d n. healthy (env d n))"
  shows "\<exists>st' ws. monitorFilesystem cwd px ctx k ticks st = (st', Ret ()) \<and> wire st' = wire st @ ws \<and>
    rounds cwd ctx ticks (ft_fs st) ws (ft_fs st') \<and> tidy cwd ctx (ft_fs st') \<and>
    (ticks \<noteq> [] \<longrightarrow> (\<forall>r c. \<not> file_at (ft_fs st') (area cwd ctx ''new'' @ r) c))"
  using assms(2-)
proof (induction ticks arbitrary: st)
  case (Cons tick ticks)
  obtain arrive env where tick: "tick = (arrive, env)" by fastforce
  let ?st = "st\<lparr>ft_fs := arrive (ft_fs st)\<rparr>"
  have t: "tidy cwd ctx (ft_fs ?st)" and e: "\<And>d n. healthy (env d n)"
    and depth: "shallow cwd ctx k (ft_fs ?st)"
    using Cons.prems tick by auto
  obtain st1 w1 where 1: "processDirectory cwd px env ctx k ''.'' ?st = (st1, Ret ())" "moved cwd ctx UNIV (ft_fs ?st) (ft_fs st1)"
      "wire st1 = wire ?st @ w1" "transmitted cwd ctx (ft_fs ?st) UNIV w1" "tidy cwd ctx (ft_fs st1)"
    by (rule healthy_pass [OF assms(1) t e depth])
  obtain st' w2 where 2: "monitorFilesystem cwd px ctx k ticks st1 = (st', Ret ())" "wire st' = wire st1 @ w2"
      "rounds cwd ctx ticks (ft_fs st1) w2 (ft_fs st')" "tidy cwd ctx (ft_fs st')"
      "ticks \<noteq> [] \<longrightarrow> (\<forall>r c. \<not> file_at (ft_fs st') (area cwd ctx ''new'' @ r) c)"
    using Cons.IH [OF 1(5) shallow_moved [OF depth 1(2)]] Cons.prems(3) by auto
  have "\<not> file_at (ft_fs st') (area cwd ctx ''new'' @ r) c" for r c
    using 2(1,5) moved_no_files [OF 1(2)] by (cases ticks) auto
  then show ?case using 1 2 tick by (intro exI [of _ st'] exI [of _ "w1 @ w2"]) auto
qed simp

lemma monitor_delivers_witness:
  "\<exists>st' ws. monitorFilesystem [''w''] scene_px scene_ctx 2 [(id, \<lambda>_ _. calm), (\<lambda>_. scene_fs, \<lambda>_ _. calm)] scene_st = (st', Ret ()) \<and>
    rounds [''w''] scene_ctx [(id, \<lambda>_ _. calm), (\<lambda>_. scene_fs, \<lambda>_ _. calm)] scene_fs ws (ft_fs st')"
proof -
  have fs: "ft_fs scene_st = scene_fs" "wire scene_st = []" by (simp_all add: scene_st_def)
  have "shallow [''w''] scene_ctx 2 scene_fs" unfolding shallow_def scene_area scene_new by (auto split: if_splits)
  moreover have "healthy calm" by (rule scene_std(2))
  ultimately show ?thesis
    using monitor_delivers [OF scene_std(1), of "[''w'']" scene_st 2 "[(id, \<lambda>_ _. calm), (\<lambda>_. scene_fs, \<lambda>_ _. calm)]" scene_px] scene_tidy
    by (auto simp: fs)
qed

section \<open>A pass comes to its end\<close>

text \<open>Below \<^verbatim>\<open>new\<close> nothing appears during a pass, whatever is refused.\<close>

definition fewer :: "path \<Rightarrow> ft_context \<Rightarrow> fsys \<Rightarrow> fsys \<Rightarrow> bool" where
  "fewer cwd ctx fs fs' \<longleftrightarrow> (\<forall>r x. fs_get fs' (area cwd ctx ''new'' @ r) = Some x \<longrightarrow> fs_get fs (area cwd ctx ''new'' @ r) = Some x)"

definition proper_new :: "path \<Rightarrow> ft_context \<Rightarrow> fsys \<Rightarrow> bool" where
  "proper_new cwd ctx fs \<longleftrightarrow> (\<forall>r. fs_get fs (area cwd ctx ''new'' @ r) \<noteq> None \<longrightarrow> (\<forall>d \<in> set r. proper d))"

lemma fewer_refl [simp]: "fewer cwd ctx fs fs"
  by (simp add: fewer_def)

lemma fewer_trans: "fewer cwd ctx fs fs' \<Longrightarrow> fewer cwd ctx fs' fs'' \<Longrightarrow> fewer cwd ctx fs fs''"
  by (simp add: fewer_def)

lemma proper_fewer: "proper_new cwd ctx fs \<Longrightarrow> fewer cwd ctx fs fs' \<Longrightarrow> proper_new cwd ctx fs'"
  unfolding proper_new_def fewer_def by (metis not_None_eq)

lemma fewer_MkdirAll:
  assumes "sub \<in> {''processing'', ''done''}"
  shows "fewer cwd ctx fs (MkdirAll (area cwd ctx sub @ ds) fs)"
proof -
  have "\<not> prefix (area cwd ctx ''new'' @ r) (area cwd ctx sub @ ds)" for r
    using assms by (auto simp: prefix_def)
  then show ?thesis using MkdirAll_outside by (simp add: fewer_def)
qed

lemma fewer_Rename:
  assumes "Rename a (area cwd ctx sub @ r) fs = Some fs'" and "sub \<in> {''processing'', ''done''}"
  shows "fewer cwd ctx fs fs'"
  using assms by (auto simp: Rename_def fewer_def split: option.splits node.splits if_splits)

lemma fewer_sendFile:
  assumes std: "std_context ctx" and nm: "\<forall>d \<in> set ds. proper d" "proper n"
    and "sendFile cwd px e ctx \<lparr>fiName = n, fiPath = rel_path ds, fiSize = sz\<rparr> st = (st', r)"
  shows "fewer cwd ctx (ft_fs st) (ft_fs st')"
proof -
  have "resolve cwd (path_Join [basedir ctx, donedir ctx, rel_path ds]) = area cwd ctx ''done'' @ ds"
      "resolve cwd (path_Join [path_Join [basedir ctx, donedir ctx, rel_path ds], n]) = area cwd ctx ''done'' @ ds @ [n]"
    using area_dir(1) [OF std _ nm(1), of "''done''"] area_file(2) [OF std _ nm, of "''done''"] std_contextD(4) [OF std] by simp_all
  then show ?thesis
    using sendFile_effect(2) [OF assms(4)] fewer_MkdirAll [of "''done''" cwd ctx "ft_fs st" ds]
      fewer_Rename [of _ cwd ctx "''done''" "ds @ [n]" "MkdirAll (area cwd ctx ''done'' @ ds) (ft_fs st)" "ft_fs st'"]
    by (auto intro: fewer_trans)
qed

lemma process_infos_returns:
  assumes std: "std_context ctx" and pn: "proper_new cwd ctx fs0" and nm: "\<forall>d \<in> set ds. proper d"
    and sub: "\<And>n st. fs_get fs0 (area cwd ctx ''new'' @ ds @ [n]) = Some Dir \<Longrightarrow> fewer cwd ctx fs0 (ft_fs st) \<Longrightarrow>
      snd (processDirectory cwd px env ctx k (rel_path (ds @ [n])) st) \<noteq> NoReturn \<and>
      fewer cwd ctx (ft_fs st) (ft_fs (fst (processDirectory cwd px env ctx k (rel_path (ds @ [n])) st)))"
    and "fewer cwd ctx fs0 (ft_fs st)" and "\<And>n x. (n, x) \<in> set infos \<Longrightarrow> fs_get fs0 (area cwd ctx ''new'' @ ds @ [n]) = Some x"
  shows "snd (process_infos cwd px env ctx k (rel_path ds) infos st) \<noteq> NoReturn \<and>
    fewer cwd ctx (ft_fs st) (ft_fs (fst (process_infos cwd px env ctx k (rel_path ds) infos st)))"
  using assms(5,6)
proof (induction infos arbitrary: st)
  case (Cons i infos)
  obtain n x where i: "i = (n, x)" by fastforce
  have x: "fs_get fs0 (area cwd ctx ''new'' @ ds @ [n]) = Some x" using Cons.prems(2) i by simp
  then have n: "proper n" using pn unfolding proper_new_def by (metis in_set_conv_decomp not_None_eq)
  have go_on: "snd (process_infos cwd px env ctx k (rel_path ds) infos st') \<noteq> NoReturn \<and>
      fewer cwd ctx (ft_fs st) (ft_fs (fst (process_infos cwd px env ctx k (rel_path ds) infos st')))"
    if "fewer cwd ctx (ft_fs st) (ft_fs st')" for st'
    using Cons.IH [of st'] Cons.prems fewer_trans that by (metis list.set_intros(2))
  show ?case
  proof (cases x)
    case Dir
    obtain st1 r where d: "processDirectory cwd px env ctx k (rel_path (ds @ [n])) st = (st1, r)" by fastforce
    then have "r \<noteq> NoReturn" "fewer cwd ctx (ft_fs st) (ft_fs st1)" using sub [OF x [unfolded Dir] Cons.prems(1)] by simp_all
    then show ?thesis using go_on d by (cases r) (simp_all add: i Dir rel_path_Join [OF nm n])
  next
    case (File c)
    let ?to = "area cwd ctx ''processing'' @ ds @ [n]"
      and ?info = "\<lparr>fiName = n, fiPath = rel_path ds, fiSize = int (length c)\<rparr>"
    note to = area_file(2) [OF std _ nm n, of "''processing''"] area_file(2) [OF std _ nm n, of "''new''"] std_contextD(2,3) [OF std]
    show ?thesis
    proof (cases "if new_refused (env (rel_path ds) n) then None else Rename (area cwd ctx ''new'' @ ds @ [n]) ?to (ft_fs st)")
      case None
      then show ?thesis using go_on [of st] by (auto simp: i File to Let_def split: if_splits)
    next
      case (Some fs)
      then have ren: "\<not> new_refused (env (rel_path ds) n)" "Rename (area cwd ctx ''new'' @ ds @ [n]) ?to (ft_fs st) = Some fs"
        by (auto split: if_splits)
      then have "fewer cwd ctx (ft_fs st) fs" using fewer_Rename [of _ cwd ctx "''processing''" "ds @ [n]"] by auto
      moreover define st1 where "st1 = emit [Notified ''filetransfer.request''] (st\<lparr>ft_fs := fs\<rparr>)"
      moreover obtain st2 r where sent: "sendFile cwd px (env (rel_path ds) n) ctx ?info st1 = (st2, r)" by fastforce
      ultimately have "fewer cwd ctx (ft_fs st) (ft_fs st2)"
        using fewer_sendFile [OF std nm n sent] by (auto simp: emit_def intro: fewer_trans)
      then show ?thesis using go_on sendFile_effect(1) [OF sent] sent ren
        by (cases r) (simp_all add: i File to Let_def st1_def)
    qed
  qed
qed simp

lemma processDirectory_returns:
  assumes std: "std_context ctx" and "proper_new cwd ctx (ft_fs st)" and "\<forall>d \<in> set ds. proper d"
    and "\<And>r. fs_get (ft_fs st) (area cwd ctx ''new'' @ ds @ r) = Some Dir \<Longrightarrow> length r < k" and "0 < k"
  shows "snd (processDirectory cwd px env ctx k (rel_path ds) st) \<noteq> NoReturn \<and>
    fewer cwd ctx (ft_fs st) (ft_fs (fst (processDirectory cwd px env ctx k (rel_path ds) st)))"
  using assms(2-)
proof (induction k arbitrary: ds st)
  case (Suc k)
  define fs where "fs = MkdirAll (area cwd ctx ''processing'' @ ds) (ft_fs st)"
  define infos where "infos = ReadDir fs (area cwd ctx ''new'' @ ds)"
  note nm = Suc.prems(2)
  have pd: "processDirectory cwd px env ctx (Suc k) (rel_path ds) st
      = process_infos cwd px env ctx k (rel_path ds) infos (st\<lparr>ft_fs := fs\<rparr>)"
    using area_dir(1) [OF std _ nm, of "''new''" cwd] area_dir(1) [OF std _ nm, of "''processing''" cwd] std_contextD(2,3) [OF std]
    by (simp add: Let_def infos_def fs_def)
  have fewer: "fewer cwd ctx (ft_fs st) fs" unfolding fs_def by (rule fewer_MkdirAll) simp
  have "snd (process_infos cwd px env ctx k (rel_path ds) infos (st\<lparr>ft_fs := fs\<rparr>)) \<noteq> NoReturn \<and>
    fewer cwd ctx (ft_fs (st\<lparr>ft_fs := fs\<rparr>)) (ft_fs (fst (process_infos cwd px env ctx k (rel_path ds) infos (st\<lparr>ft_fs := fs\<rparr>))))"
  proof (rule process_infos_returns [OF std proper_fewer [OF Suc.prems(1) fewer] nm])
    fix n and st' :: ft_state
    assume d: "fs_get fs (area cwd ctx ''new'' @ ds @ [n]) = Some Dir" and st': "fewer cwd ctx fs (ft_fs st')"
    have old: "fewer cwd ctx (ft_fs st) (ft_fs st')" by (rule fewer_trans [OF fewer st'])
    have here: "fs_get (ft_fs st) (area cwd ctx ''new'' @ ds @ [n]) = Some Dir" using d fewer by (simp add: fewer_def)
    then have "0 < k" using Suc.prems(3) [of "[n]"] by simp
    moreover have "length r < k" if "fs_get (ft_fs st') (area cwd ctx ''new'' @ (ds @ [n]) @ r) = Some Dir" for r
      using Suc.prems(3) [of "n # r"] old that by (simp add: fewer_def)
    moreover have "\<forall>d \<in> set (ds @ [n]). proper d"
      using Suc.prems(1) here unfolding proper_new_def by (metis option.distinct(1))
    ultimately show "snd (processDirectory cwd px env ctx k (rel_path (ds @ [n])) st') \<noteq> NoReturn \<and>
      fewer cwd ctx (ft_fs st') (ft_fs (fst (processDirectory cwd px env ctx k (rel_path (ds @ [n])) st')))"
      by (intro Suc.IH proper_fewer [OF Suc.prems(1) old])
  next
    show "fs_get fs (area cwd ctx ''new'' @ ds @ [n]) = Some x" if "(n, x) \<in> set infos" for n x
      using ReadDir_entry [OF that [unfolded infos_def]] by simp
  qed simp
  then show ?case using fewer_trans [OF fewer] unfolding pd by simp
qed simp

text \<open>
  C11. Whatever is refused, fails or cannot be read, and however the tree below \<^verbatim>\<open>new\<close> looks, a pass comes to its
  end: with fuel for one level more than the directories are deep the recursion never uses it up. Every
  file name below \<^verbatim>\<open>new\<close> is one it had before, and the file system stays a tree.
\<close>

theorem pass_terminates:
  assumes "std_context ctx" and "\<forall>r. fs_get (ft_fs st) (area cwd ctx ''new'' @ r) \<noteq> None \<longrightarrow> (\<forall>d \<in> set r. proper d)"
    and "shallow cwd ctx k (ft_fs st)" and "0 < k" and "processDirectory cwd px env ctx k ''.'' st = (st', r)"
  shows "r \<noteq> NoReturn \<and>
    (\<forall>p x. fs_get (ft_fs st') (area cwd ctx ''new'' @ p) = Some x \<longrightarrow> fs_get (ft_fs st) (area cwd ctx ''new'' @ p) = Some x) \<and>
    (wf_fs (ft_fs st) \<longrightarrow> wf_fs (ft_fs st'))"
  using processDirectory_returns [OF assms(1), of cwd st "[]" k px env] wf_pass(1) [of st cwd px env ctx k "''.''"] assms(2-)
  by (simp add: proper_new_def shallow_def fewer_def)

lemma pass_terminates_witness:
  "snd (processDirectory [''w''] scene_px (\<lambda>_ _. calm\<lparr>read_fails := Some 0\<rparr>) scene_ctx 2 ''.'' scene_st) \<noteq> NoReturn"
proof -
  have fs: "ft_fs scene_st = scene_fs" by (simp add: scene_st_def)
  have "shallow [''w''] scene_ctx 2 (ft_fs scene_st)" unfolding fs shallow_def scene_area scene_new by (auto split: if_splits)
  moreover have "\<forall>r. fs_get (ft_fs scene_st) (area [''w''] scene_ctx ''new'' @ r) \<noteq> None \<longrightarrow> (\<forall>d \<in> set r. proper d)"
    using tidyD(5) [OF scene_tidy] unfolding fs by blast
  ultimately show ?thesis
    using pass_terminates [OF scene_std(1), of scene_st "[''w'']" 2 scene_px "\<lambda>_ _. calm\<lparr>read_fails := Some 0\<rparr>"]
    by (metis prod.collapse zero_less_numeral)
qed

end
