(* ===== verification/CacheHistory.thy ===== *)
theory CacheHistory imports CacheCopy TransferMonitor begin

text \<open>
  The cache and the file transfer together: what \<^verbatim>\<open>SendFullCache\<close> (\<^verbatim>\<open>src/engine/cache.go\<close>) copies to
  \<^verbatim>\<open>outgoing/new\<close> is what the next pass of the monitor (\<^verbatim>\<open>src/engine/filetransfer.go\<close>) transmits. The two
  work on one file system; the cache keeps what it had.
\<close>

section \<open>A cache that fits the outgoing directory\<close>

definition cache_root :: "path \<Rightarrow> path" where
  "cache_root cwd = cwd @ [''cache'']"

definition cache_fits :: "path \<Rightarrow> ft_context \<Rightarrow> nat \<Rightarrow> fsys \<Rightarrow> bool" where
  "cache_fits cwd ctx k fs \<longleftrightarrow>
     (\<forall>rel. fs_get fs (cache_root cwd @ rel) \<noteq> None \<longrightarrow> (\<forall>d \<in> set rel. proper d)) \<and>
     (\<forall>rel. fs_get fs (cache_root cwd @ rel) = Some Dir \<longrightarrow> length rel < k) \<and>
     (\<forall>rel sub. rel \<noteq> [] \<longrightarrow> sub \<in> {''new'', ''processing'', ''done''} \<longrightarrow>
        (\<forall>c. fs_get fs (cache_root cwd @ rel) = Some Dir \<longrightarrow> \<not> file_at fs (area cwd ctx sub @ rel) c) \<and>
        (\<forall>c. file_at fs (cache_root cwd @ rel) c \<longrightarrow> fs_get fs (area cwd ctx sub @ rel) \<noteq> Some Dir))"

lemma cache_fitsD:
  assumes "cache_fits cwd ctx k fs"
  shows "fs_get fs (cache_root cwd @ rel) \<noteq> None \<Longrightarrow> \<forall>d \<in> set rel. proper d"
    and "fs_get fs (cache_root cwd @ rel) = Some Dir \<Longrightarrow> length rel < k"
    and "rel \<noteq> [] \<Longrightarrow> sub \<in> {''new'', ''processing'', ''done''} \<Longrightarrow> fs_get fs (cache_root cwd @ rel) = Some Dir \<Longrightarrow>
      \<not> file_at fs (area cwd ctx sub @ rel) c"
    and "rel \<noteq> [] \<Longrightarrow> sub \<in> {''new'', ''processing'', ''done''} \<Longrightarrow> file_at fs (cache_root cwd @ rel) c \<Longrightarrow>
      fs_get fs (area cwd ctx sub @ rel) \<noteq> Some Dir"
  using assms unfolding cache_fits_def by blast+

text \<open>After the copy the outgoing directory is still tidy and no deeper than the fuel allows.\<close>

lemma overlaid_new:
  assumes "overlaid (cache_root cwd) (area cwd ctx ''new'') fs fs'"
  shows "fs_get fs' (area cwd ctx ''new'' @ rel) =
    (if rel \<noteq> [] \<and> fs_get fs (cache_root cwd @ rel) \<noteq> None then fs_get fs (cache_root cwd @ rel)
     else fs_get fs (area cwd ctx ''new'' @ rel))"
proof (cases "rel \<noteq> [] \<and> fs_get fs (cache_root cwd @ rel) \<noteq> None")
  case True
  then show ?thesis using overlaid_at [OF assms] by simp
next
  case False
  then show ?thesis using assms unfolding overlaid_def by (metis same_append_eq)
qed

lemma overlaid_area:
  assumes "overlaid (cache_root cwd) (area cwd ctx ''new'') fs fs'" and "sub \<noteq> ''new''"
  shows "fs_get fs' (area cwd ctx sub @ rel) = fs_get fs (area cwd ctx sub @ rel)"
  using assms(2) by (intro overlaid_outside [OF assms(1)]) (auto simp: area_def prefix_def)

lemma overlaid_tidy:
  assumes t: "tidy cwd ctx fs" and f: "cache_fits cwd ctx k fs" and o: "overlaid (cache_root cwd) (area cwd ctx ''new'') fs fs'"
    and wf: "wf_fs fs'"
  shows "tidy cwd ctx fs'"
proof -
  have sub: "fs_get fs' (area cwd ctx sub @ rel) = fs_get fs (area cwd ctx sub @ rel)" if "sub \<in> {''processing'', ''done''}" for sub rel
    using that by (intro overlaid_area [OF o]) auto
  have dirs: "is_dir fs' (area cwd ctx ''new'')" "is_dir fs' (area cwd ctx ''processing'')" "is_dir fs' (area cwd ctx ''done'')"
    using tidyD(2-4) [OF t] sub [of _ "[]"] overlaid_new [OF o, of "[]"] by (simp_all add: is_dir_def)
  have names: "\<forall>d \<in> set r. proper d" if "fs_get fs' (area cwd ctx ''new'' @ r) \<noteq> None" for r
    using that tidyD(5) [OF t, of r] cache_fitsD(1) [OF f, of r] unfolding overlaid_new [OF o] by (auto split: if_splits)
  have no_file: "\<not> file_at fs' (area cwd ctx s @ r) c" if "is_dir fs' (area cwd ctx ''new'' @ r)" "s \<in> {''processing'', ''done''}" for r s c
    using that(1) tidyD(6,7) [OF t, of r c] cache_fitsD(3) [OF f, of r s c] that(2)
    unfolding is_dir_area overlaid_new [OF o] sub [OF that(2)] by (auto split: if_splits)
  have no_dir: "fs_get fs' (area cwd ctx s @ r) \<noteq> Some Dir" if "file_at fs' (area cwd ctx ''new'' @ r) c" "s \<in> {''processing'', ''done''}" for r s c
    using that(1) tidyD(8,9) [OF t, of r c] cache_fitsD(4) [OF f, of r s c] that(2)
    unfolding overlaid_new [OF o] sub [OF that(2)] by (auto split: if_splits)
  show ?thesis
    unfolding tidy_def by (intro conjI allI impI) (use wf_fsD [OF wf] dirs names no_file no_dir in blast)+
qed

lemma overlaid_shallow:
  assumes "shallow cwd ctx k fs" and "cache_fits cwd ctx k fs" and "overlaid (cache_root cwd) (area cwd ctx ''new'') fs fs'"
  shows "shallow cwd ctx k fs'"
  using assms(1) cache_fitsD(2) [OF assms(2)] by (auto simp: shallow_def overlaid_new [OF assms(3)] split: if_splits)

lemma fits_no_clash:
  assumes "cache_fits cwd ctx k fs"
  shows "no_clash (cache_root cwd) (area cwd ctx ''new'') fs"
  unfolding no_clash_def
proof (intro allI impI)
  fix rel assume "fs_get fs (cache_root cwd @ rel) \<noteq> None" "rel \<noteq> []"
  then show "fs_get fs (area cwd ctx ''new'' @ rel) = None \<or>
      (fs_get fs (cache_root cwd @ rel) = Some Dir \<longleftrightarrow> fs_get fs (area cwd ctx ''new'' @ rel) = Some Dir)"
    using cache_fitsD(3,4) [OF assms, of rel "''new''"] by (metis insertI1 node.exhaust not_None_eq)
qed

text \<open>What a pass leaves alone: everything outside the outgoing directory.\<close>

lemma moved_elsewhere:
  assumes "moved cwd ctx UNIV fs fs'" and "\<not> prefix (resolve cwd (basedir ctx)) q"
  shows "fs_get fs' q = fs_get fs q"
proof -
  have "q \<noteq> area cwd ctx sub @ r" for sub r using assms(2) by (auto simp: area_def)
  then show ?thesis using moved_frame [OF assms(1), of q] by blast
qed

lemma list_all2_split:
  "list_all2 P xs yss \<Longrightarrow> x \<in> set xs \<Longrightarrow> \<exists>as y bs. concat yss = as @ y @ bs \<and> P x y"
proof (induction rule: list_all2_induct)
  case (Cons z xs ys yss)
  show ?case
  proof (cases "x = z")
    case True
    moreover have "concat (ys # yss) = [] @ ys @ concat yss" by simp
    ultimately show ?thesis using Cons.hyps(1) by blast
  next
    case False
    then obtain as y bs where "concat yss = as @ y @ bs" "P x y" using Cons by auto
    moreover from this(1) have "concat (ys # yss) = (ys @ as) @ y @ bs" by simp
    ultimately show ?thesis by blast
  qed
qed simp

lemma transmitted_one:
  assumes "transmitted cwd ctx fs UNIV ws" and "file_at fs (area cwd ctx ''new'' @ r) c" and "c \<noteq> []"
  obtains as w bs where "ws = as @ w @ bs" "transmission ctx (r, c) w"
proof -
  obtain log wss where l: "ws = concat wss" "list_all2 (transmission ctx) log wss"
      "set log = {(r, c). r \<in> UNIV \<and> c \<noteq> [] \<and> file_at fs (area cwd ctx ''new'' @ r) c}"
    using assms(1) unfolding transmitted_def by blast
  have "(r, c) \<in> set log" using assms(2,3) by (simp add: l(3))
  from list_all2_split [OF l(2) this] show thesis using that l(1) by blast
qed

section \<open>The history is delivered\<close>

text \<open>
  C4. After \<^verbatim>\<open>SendFullCache\<close> on a tidy outgoing directory the cache fits into, which is the one the monitor
  watches (the working directory is the current one), one pass in which nothing is
  refused transmits every non-empty file of \<^verbatim>\<open>new\<close> once, among them every non-empty cached file under its
  path relative to the cache, with its bytes, and leaves it in \<^verbatim>\<open>done\<close>; nothing outside \<^verbatim>\<open>outgoing\<close> has
  changed, so the cache still has it.
\<close>

theorem history_delivered:
  assumes "std_context ctx" and "resolve cwd (basedir ctx) = cwd @ [''outgoing'']" and "tidy cwd ctx (c_fs s)" and "shallow cwd ctx k (c_fs s)"
    and "fs_get (c_fs s) (cache_root cwd) = Some Dir" and "cache_fits cwd ctx k (c_fs s)" and "\<And>d n. healthy (env d n)"
  shows "\<exists>s' st' ws. SendFullCache cwd e s = (s', True) \<and>
    processDirectory cwd px env ctx k ''.'' (st\<lparr>ft_fs := c_fs s'\<rparr>) = (st', Ret ()) \<and> wire st' = wire st @ ws \<and>
    transmitted cwd ctx (c_fs s') UNIV ws \<and>
    (\<forall>rel c. rel \<noteq> [] \<longrightarrow> c \<noteq> [] \<longrightarrow> file_at (c_fs s) (cache_root cwd @ rel) c \<longrightarrow>
       file_at (ft_fs st') (area cwd ctx ''done'' @ rel) c \<and> (\<exists>as w bs. ws = as @ w @ bs \<and> transmission ctx (rel, c) w)) \<and>
    (\<forall>q. \<not> prefix (cwd @ [''outgoing'']) q \<longrightarrow> fs_get (ft_fs st') q = fs_get (c_fs s) q)"
proof -
  have new: "area cwd ctx ''new'' = cwd @ [''outgoing'', ''new'']" by (simp add: area_def assms(2))
  obtain fs' where f: "SendFullCache cwd e s = (s\<lparr>c_fs := fs'\<rparr>, True)" "wf_fs fs'"
      "overlaid (cache_root cwd) (area cwd ctx ''new'') (c_fs s) fs'"
    using SendFullCache_overlay [of s cwd e] tidy_wf [OF assms(3)] tidyD(2) [OF assms(3)] assms(5) fits_no_clash [OF assms(6)]
    unfolding new cache_root_def by blast
  note t = overlaid_tidy [OF assms(3) assms(6) f(3,2)] and depth = overlaid_shallow [OF assms(4) assms(6) f(3)]
  obtain st' ws where r: "processDirectory cwd px env ctx k ''.'' (st\<lparr>ft_fs := fs'\<rparr>) = (st', Ret ())" "moved cwd ctx UNIV fs' (ft_fs st')"
      "wire st' = wire st @ ws" "transmitted cwd ctx fs' UNIV ws"
    using healthy_pass [where cwd = cwd and px = px and env = env and st = "st\<lparr>ft_fs := fs'\<rparr>", OF assms(1) _ assms(7)] t depth
    by (metis (no_types, lifting) ft_state.select_convs(1) ft_state.select_convs(2) ft_state.surjective ft_state.update_convs(1))
  have "file_at (ft_fs st') (area cwd ctx ''done'' @ rel) c \<and> (\<exists>as w bs. ws = as @ w @ bs \<and> transmission ctx (rel, c) w)"
    if "rel \<noteq> []" "c \<noteq> []" "file_at (c_fs s) (cache_root cwd @ rel) c" for rel c
  proof -
    have here: "file_at fs' (area cwd ctx ''new'' @ rel) c" using that by (simp add: overlaid_new [OF f(3)])
    show ?thesis
      using moved_files(4) [OF r(2) here UNIV_I that(2)] transmitted_one [OF r(4) here that(2)] by metis
  qed
  moreover have "fs_get (ft_fs st') q = fs_get (c_fs s) q" if "\<not> prefix (cwd @ [''outgoing'']) q" for q
  proof -
    have "\<not> prefix (area cwd ctx ''new'') q" using that by (auto simp: new prefix_def)
    then show ?thesis using moved_elsewhere [OF r(2)] overlaid_outside [OF f(3)] that assms(2) by simp
  qed
  ultimately show ?thesis using f(1) r(1,3,4) by (intro exI [of _ "s\<lparr>c_fs := fs'\<rparr>"] exI [of _ st'] exI [of _ ws]) simp
qed

definition history_fs :: fsys where
  "history_fs = ([''w'', ''cache''], Dir) # ([''w'', ''cache'', ''d''], Dir) # ([''w'', ''cache'', ''d'', ''x''], File [7]) # scene_fs"

definition history_state :: cache_state where
  "history_state = empty_cache\<lparr>c_fs := history_fs\<rparr>"

lemma history_get:
  "fs_get history_fs p = (if p = [''w'', ''cache''] \<or> p = [''w'', ''cache'', ''d''] then Some Dir
     else if p = [''w'', ''cache'', ''d'', ''x''] then Some (File [7]) else fs_get scene_fs p)"
  by (simp add: history_fs_def fs_get_def)

lemma history_cache:
  "fs_get history_fs (cache_root [''w''] @ r) = (if r = [] \<or> r = [''d''] then Some Dir else if r = [''d'', ''x''] then Some (File [7]) else None)"
  by (auto simp: history_get scene_get cache_root_def)

lemma history_area: "fs_get history_fs (area [''w''] scene_ctx sub @ r) = fs_get scene_fs (area [''w''] scene_ctx sub @ r)"
  by (simp add: history_get)

lemma history_ready:
  "tidy [''w''] scene_ctx history_fs" "shallow [''w''] scene_ctx 2 history_fs" "cache_fits [''w''] scene_ctx 2 history_fs"
proof -
  have "is_dir history_fs p" if "fs_get history_fs (p @ [n]) \<noteq> None" for p n
  proof -
    have "\<forall>q \<in> set (map fst history_fs). is_dir history_fs (butlast q)"
      by (simp add: history_fs_def scene_fs_def is_dir_def fs_get_def)
    then show ?thesis using that unfolding fs_keys [symmetric] by (metis butlast_snoc)
  qed
  moreover have "is_dir history_fs (area [''w''] scene_ctx sub)" if "sub \<in> {''new'', ''processing'', ''done''}" for sub
    using that by (auto simp: is_dir_def history_get scene_get)
  ultimately show "tidy [''w''] scene_ctx history_fs"
    using scene_tidy unfolding tidy_def is_dir_area history_area by blast
  show "shallow [''w''] scene_ctx 2 history_fs"
    unfolding shallow_def history_area unfolding scene_area scene_new by (auto split: if_splits)
  have "proper ''d''" "proper ''x''" by (simp_all add: proper_def is_sep_def is_slash_def is_backslash_def)
  then show "cache_fits [''w''] scene_ctx 2 history_fs"
    unfolding cache_fits_def history_cache history_area unfolding scene_area by (auto simp: scene_get split: if_splits)
qed

lemma history_delivered_witness:
  "\<exists>s' st' ws. SendFullCache [''w''] ''denied'' history_state = (s', True) \<and>
    processDirectory [''w''] scene_px (\<lambda>_ _. calm) scene_ctx 2 ''.'' (scene_st\<lparr>ft_fs := c_fs s'\<rparr>) = (st', Ret ()) \<and> wire st' = ws \<and>
    file_at (ft_fs st') [''w'', ''outgoing'', ''done'', ''d'', ''x''] [7] \<and>
    (\<exists>as w bs. ws = as @ w @ bs \<and> transmission scene_ctx ([''d'', ''x''], [7]) w)"
proof -
  have s: "c_fs history_state = history_fs" "wire scene_st = []" by (simp_all add: history_state_def scene_st_def)
  have "resolve [''w''] (basedir scene_ctx) = [''w''] @ [''outgoing'']" by (simp add: scene_ctx_def resolve_outgoing)
  moreover have "fs_get (c_fs history_state) (cache_root [''w'']) = Some Dir" using history_cache [of "[]"] by (simp add: s)
  moreover have "file_at (c_fs history_state) (cache_root [''w''] @ [''d'', ''x'']) [7]" using history_cache [of "[''d'', ''x'']"] by (simp add: s)
  ultimately show ?thesis
    using history_delivered [where cwd = "[''w'']" and ctx = scene_ctx and s = history_state and k = 2 and env = "\<lambda>_ _. calm" and
        e = "''denied''" and px = scene_px and st = scene_st, OF scene_std(1)] history_ready scene_std(2)
    unfolding s by (metis append_Nil append_Cons list.distinct(1) scene_area)
qed

end
