(* ===== verification/Collector.thy ===== *)
theory Collector imports Types begin

text \<open>
  How a collector turns the values it reads into messages (the inner loop of \<^verbatim>\<open>groupDataCollector\<close> in
  \<^verbatim>\<open>engine/groups.go\<close>, with \<^verbatim>\<open>cacheMessage\<close> of \<^verbatim>\<open>engine/cache.go\<close>). The OPC client and the JSON coding
  are parameters; the order in which the map of values is passed over is the order of the list.

  \<^verbatim>\<open>cacheMessage\<close> sends a copy of the message struct, whose \<^verbatim>\<open>Points\<close> still is the collector's own array.
  The cache codes it some time after receiving it and before it receives another one:
  \<open>pending\<close> is the copy it holds, and coding reads the points the array holds then.
\<close>

section \<open>State\<close>

text \<open>The fields of the client's \<^verbatim>\<open>opc.Item\<close> the program reads.\<close>

record 'v Item =
  Timestamp :: int
  itValue :: 'v
  itQuality :: int

record ('v, 'j) col_state =
  cmsg :: "'v DataMessage"
  cb :: nat
  ci :: nat
  outbox :: "(chan \<times> 'j) list"
  pending :: "'v DataMessage option"
  cached :: "'j list"
  col_events :: "event list"

section \<open>Operations\<close>

definition set_point :: "string \<Rightarrow> 'v Item \<Rightarrow> 'v DataPoint \<Rightarrow> 'v DataPoint" where
  "set_point k v p = p\<lparr>ptTime := Timestamp v, ptName := k, ptValue := itValue v, ptQuality := itQuality v\<rparr>"

text \<open>The cache's side of the channel: it codes the message it holds.\<close>

definition code_pending :: "('v DataMessage \<Rightarrow> 'j) \<Rightarrow> ('v, 'j) col_state \<Rightarrow> ('v, 'j) col_state" where
  "code_pending json s = (case pending s of
       None \<Rightarrow> s
     | Some m \<Rightarrow> s\<lparr>cached := cached s @ [json (m\<lparr>Points := Points (cmsg s)\<rparr>)], pending := None\<rparr>)"

text \<open>The unbuffered send waits until the cache has coded the message before. \<open>up\<close>: the channel exists.\<close>

definition cacheMessage :: "('v DataMessage \<Rightarrow> 'j) \<Rightarrow> bool \<Rightarrow> ('v, 'j) col_state \<Rightarrow> ('v, 'j) col_state \<times> unit outcome" where
  "cacheMessage json up s =
     (if up then let s' = code_pending json s in (s'\<lparr>pending := Some (cmsg s')\<rparr>, Ret ()) else (s, NoReturn))"

text \<open>A send on the nil channel of a proxy whose connection failed never returns.\<close>

definition send_batch :: "('v DataMessage \<Rightarrow> 'j) \<Rightarrow> DiodeProxy option \<Rightarrow> bool \<Rightarrow> ('v, 'j) col_state \<Rightarrow> ('v, 'j) col_state \<times> unit outcome" where
  "send_batch json first up s =
     (let data = json (cmsg s) in
      case first of
        None \<Rightarrow> (s, Ret ())
      | Some proxy \<Rightarrow>
         (case DataChan proxy of
            None \<Rightarrow> (s, NoReturn)
          | Some c \<Rightarrow>
              cacheMessage json up
                (s\<lparr>outbox := outbox s @ [(c, data)], cb := 0,
                   cmsg := (cmsg s)\<lparr>Sequence := Sequence (cmsg s) + 1\<rparr>,
                   col_events := col_events s @ [Notified ''data.message'']\<rparr>)))"

definition collect_item :: "('v DataMessage \<Rightarrow> 'j) \<Rightarrow> DiodeProxy option \<Rightarrow> bool \<Rightarrow> string \<times> 'v Item \<Rightarrow> ('v, 'j) col_state \<Rightarrow>
    ('v, 'j) col_state \<times> unit outcome" where
  "collect_item json first up kv s = (case kv of (k, v) \<Rightarrow>
     let b = cb s; ps = Points (cmsg s) in
     if b \<ge> length ps then (s, Panic ''index out of range'')
     else let s1 = s\<lparr>cmsg := (cmsg s)\<lparr>Points := ps[b := set_point k v (ps ! b)]\<rparr>\<rparr>;
              (s2, r) = (if b = length ps - 1 then send_batch json first up s1 else (s1\<lparr>cb := b + 1\<rparr>, Ret ()))
          in (if r = Ret () then (s2\<lparr>ci := ci s2 + 1\<rparr>, r) else (s2, r)))"

text \<open>Each full batch asks for a proxy again: \<open>first n\<close> is the answer at the \<open>n\<close>-th value.\<close>

fun collect_items :: "('v DataMessage \<Rightarrow> 'j) \<Rightarrow> (nat \<Rightarrow> DiodeProxy option) \<Rightarrow> bool \<Rightarrow> (string \<times> 'v Item) list \<Rightarrow> ('v, 'j) col_state \<Rightarrow>
    ('v, 'j) col_state \<times> unit outcome" where
  "collect_items json first up [] s = (s, Ret ())"
| "collect_items json first up (kv # kvs) s =
     (case collect_item json (first (ci s)) up kv s of
        (s', Ret _) \<Rightarrow> collect_items json first up kvs s'
      | (s', r) \<Rightarrow> (s', r))"

definition zero_point :: "'v \<Rightarrow> 'v DataPoint" where
  "zero_point z = \<lparr>ptID = 0, ptTime = 0, ptName = '''', ptValue = z, ptQuality = 0\<rparr>"

text \<open>The message and the counters a collector starts with; \<open>z\<close> is the nil value of a point.\<close>

definition new_collection :: "'v \<Rightarrow> OPCGroup \<Rightarrow> ('v, 'j) col_state" where
  "new_collection z g = \<lparr>
     cmsg = \<lparr>Version = 2, msgGroup = gName g, msgInterval = Interval g, Sequence = 0, Count = 10,
             Points = replicate (nat 10) (zero_point z)\<rparr>,
     cb = 0, ci = 0, outbox = [], pending = None, cached = [], col_events = []\<rparr>"

section \<open>Schedules\<close>

text \<open>
  The collector and the cache run concurrently: a schedule is the sequence of their turns, an item the
  collector takes or the cache coding the message it holds, with the proxy the turn finds.
\<close>

datatype 'v turn = Take "DiodeProxy option" "string \<times> 'v Item" | Code

fun run_turns :: "('v DataMessage \<Rightarrow> 'j) \<Rightarrow> 'v turn list \<Rightarrow> ('v, 'j) col_state \<Rightarrow> ('v, 'j) col_state \<times> unit outcome" where
  "run_turns json [] s = (s, Ret ())"
| "run_turns json (Take first kv # ts) s =
     (case collect_item json first True kv s of
        (s', Ret _) \<Rightarrow> run_turns json ts s'
      | (s', r) \<Rightarrow> (s', r))"
| "run_turns json (Code # ts) s = run_turns json ts (code_pending json s)"

text \<open>The cache codes every message before the collector goes on; the cache codes as late as it may.\<close>

definition prompt :: "DiodeProxy \<Rightarrow> (string \<times> 'v Item) list \<Rightarrow> 'v turn list" where
  "prompt proxy kvs = concat (map (\<lambda>kv. [Take (Some proxy) kv, Code]) kvs)"

definition late :: "DiodeProxy \<Rightarrow> (string \<times> 'v Item) list \<Rightarrow> 'v turn list" where
  "late proxy kvs = map (Take (Some proxy)) kvs @ [Code]"

section \<open>Lemmas\<close>

named_theorems collector_simps \<open>the loop of the collector\<close>

lemma run_turns_append [collector_simps]:
  "run_turns json (ts @ us) s = (case run_turns json ts s of (s', Ret _) \<Rightarrow> run_turns json us s' | (s', r) \<Rightarrow> (s', r))"
proof (induction ts arbitrary: s)
  case (Cons t ts)
  then show ?case by (cases t) (auto split: prod.splits outcome.splits)
qed simp

lemma collect_items_append [collector_simps]:
  "collect_items json first up (xs @ ys) s = (case collect_items json first up xs s of
     (s', Ret _) \<Rightarrow> collect_items json first up ys s' | (s', r) \<Rightarrow> (s', r))"
  by (induction xs arbitrary: s) (auto split: prod.splits outcome.splits)

lemma set_point_set_point [simp]: "set_point k v (set_point k' v' p) = set_point k v p"
  by (simp add: set_point_def)

text \<open>The invariant of the loop: ten points, and a place left for the next one.\<close>

definition col_inv :: "('v, 'j) col_state \<Rightarrow> bool" where
  "col_inv s \<longleftrightarrow> length (Points (cmsg s)) = 10 \<and> cb s < 10 \<and> Count (cmsg s) = 10"

lemma collect_item_inv:
  assumes "col_inv s" and "collect_item json first up kv s = (s', r)"
  shows "col_inv s' \<and> (\<forall>m. r \<noteq> Panic m) \<and> (\<forall>m. r \<noteq> Fatal m)"
  using assms
  by (auto simp: collect_item_def Let_def send_batch_def cacheMessage_def code_pending_def col_inv_def
      split: prod.splits if_splits option.splits)

lemma code_pending_simps [simp]:
  "cmsg (code_pending json s) = cmsg s" "ci (code_pending json s) = ci s" "cb (code_pending json s) = cb s"
  "outbox (code_pending json s) = outbox s" "pending (code_pending json s) = None"
  by (simp_all add: code_pending_def split: option.splits)

lemma code_pending_inv [simp]: "col_inv (code_pending json s) = col_inv s"
  by (simp add: code_pending_def col_inv_def split: option.splits)


text \<open>The points of a batch, and the message that carries them.\<close>

definition point :: "string \<times> 'v Item \<Rightarrow> 'v DataPoint" where
  "point kv = \<lparr>ptID = 0, ptTime = Timestamp (snd kv), ptName = fst kv, ptValue = itValue (snd kv), ptQuality = itQuality (snd kv)\<rparr>"

definition batch :: "nat \<Rightarrow> 'a list \<Rightarrow> 'a list" where
  "batch n kvs = take 10 (drop (10 * n) kvs)"

definition sent_msg :: "OPCGroup \<Rightarrow> nat \<Rightarrow> 'v DataPoint list \<Rightarrow> 'v DataMessage" where
  "sent_msg g n ps = \<lparr>Version = 2, msgGroup = gName g, msgInterval = Interval g, Sequence = of_nat n, Count = 10, Points = ps\<rparr>"

lemma set_point_point: "ptID p = 0 \<Longrightarrow> set_point k v p = point (k, v)"
  by (cases p) (simp add: set_point_def point_def)

lemma Points_sent_msg [simp]: "Points (sent_msg g n ps) = ps" "Points (m\<lparr>Points := ps\<rparr>) = ps"
  by (simp_all add: sent_msg_def)

lemma sent_msg_Points [simp]: "(sent_msg g n ps)\<lparr>Points := qs\<rparr> = sent_msg g n qs"
  by (simp add: sent_msg_def)

lemma batch_append: "10 * n + 10 \<le> length xs \<Longrightarrow> batch n (xs @ ys) = batch n xs"
  by (simp add: batch_def)

text \<open>The collector after the values \<open>kvs\<close>.\<close>

definition col_at :: "OPCGroup \<Rightarrow> (string \<times> 'v Item) list \<Rightarrow> ('v, 'j) col_state \<Rightarrow> bool" where
  "col_at g kvs s \<longleftrightarrow> (let q = length kvs div 10; r = length kvs mod 10; ps = Points (cmsg s) in
     cb s = r \<and> ci s = length kvs \<and> length ps = 10 \<and> (\<forall>p \<in> set ps. ptID p = 0) \<and> cmsg s = sent_msg g q ps \<and>
     take r ps = map point (drop (10 * q) kvs) \<and> (r = 0 \<and> q > 0 \<longrightarrow> ps = map point (batch (q - 1) kvs)))"

lemma new_col_at: "col_at g [] (new_collection z g)"
  by (simp add: col_at_def new_collection_def sent_msg_def zero_point_def Let_def)

lemma code_pending_at [simp]: "col_at g kvs (code_pending json s) = col_at g kvs s"
  by (simp add: col_at_def code_pending_def split: option.splits)

lemma col_at_updates [simp]:
  "col_at g kvs (s\<lparr>cached := x\<rparr>) = col_at g kvs s" "col_at g kvs (s\<lparr>pending := m\<rparr>) = col_at g kvs s"
  by (simp_all add: col_at_def)

lemma points_after:
  assumes "col_at g kvs s"
  shows "take (Suc (length kvs mod 10)) ((Points (cmsg s))[cb s := set_point k v (Points (cmsg s) ! cb s)])
      = map point (drop (10 * (length kvs div 10)) (kvs @ [(k, v)]))"
proof -
  let ?ps = "Points (cmsg s)" and ?r = "length kvs mod 10"
  have r: "cb s = ?r" "?r < length ?ps" "take ?r ?ps = map point (drop (10 * (length kvs div 10)) kvs)"
    using assms by (auto simp: col_at_def Let_def)
  have "ptID (?ps ! ?r) = 0" using assms r(2) by (auto simp: col_at_def Let_def)
  then have "take (Suc ?r) (?ps[?r := set_point k v (?ps ! ?r)]) = take ?r ?ps @ [point (k, v)]"
    using r(2) by (simp add: take_Suc_conv_app_nth set_point_point)
  moreover have "10 * (length kvs div 10) \<le> length kvs" by simp
  ultimately show ?thesis using r(1,3) by simp
qed

lemma take_more:
  assumes "col_at g kvs s" and "length kvs mod 10 \<noteq> 9"
  shows "\<exists>m. collect_item json first up kv s = (s\<lparr>cmsg := m, cb := cb s + 1, ci := ci s + 1\<rparr>, Ret ()) \<and>
    col_at g (kvs @ [kv]) (s\<lparr>cmsg := m, cb := cb s + 1, ci := ci s + 1\<rparr>)"
proof -
  obtain k v where kv: "kv = (k, v)" by (cases kv)
  let ?ps = "(Points (cmsg s))[cb s := set_point k v (Points (cmsg s) ! cb s)]"
  have r: "Suc (length kvs) div 10 = length kvs div 10" "Suc (length kvs) mod 10 = Suc (length kvs mod 10)"
    using assms(2) by presburger+
  have l: "cb s < 9" "length (Points (cmsg s)) = 10" "\<forall>p \<in> set (Points (cmsg s)). ptID p = 0"
      "cmsg s = sent_msg g (length kvs div 10) (Points (cmsg s))" "cb s = length kvs mod 10" "ci s = length kvs"
    using assms by (auto simp: col_at_def Let_def)
  then have "ptID (Points (cmsg s) ! cb s) = 0" by simp
  then have "\<forall>p \<in> set ?ps. ptID p = 0"
    using l(3) set_update_subset_insert [of "Points (cmsg s)" "cb s" "set_point k v (Points (cmsg s) ! cb s)"]
    by (auto simp: set_point_def)
  moreover have "cmsg s\<lparr>Points := ?ps\<rparr> = sent_msg g (length kvs div 10) ?ps"
    by (subst l(4)) (simp add: sent_msg_def)
  ultimately have "col_at g (kvs @ [kv]) (s\<lparr>cmsg := (cmsg s)\<lparr>Points := ?ps\<rparr>, cb := cb s + 1, ci := ci s + 1\<rparr>)"
    using points_after [OF assms(1), of k v] l r by (simp add: col_at_def kv Let_def)
  moreover have "collect_item json first up kv s = (s\<lparr>cmsg := (cmsg s)\<lparr>Points := ?ps\<rparr>, cb := cb s + 1, ci := ci s + 1\<rparr>, Ret ())"
    using l(1,2) by (simp add: collect_item_def kv Let_def)
  ultimately show ?thesis by blast
qed

lemma col_at_full:
  assumes "length kvs = 10 * Suc q" and "cb s = 0" and "ci s = length kvs"
    and "cmsg s = sent_msg g (Suc q) (map point (batch q kvs))"
  shows "col_at g kvs s"
proof -
  have "length (batch q kvs) = 10" using assms(1) by (simp add: batch_def)
  moreover have "drop (10 * Suc q) kvs = []" "length kvs div 10 = Suc q" "length kvs mod 10 = 0" using assms(1) by simp_all
  ultimately show ?thesis using assms(2-) unfolding col_at_def Let_def by (auto simp: point_def)
qed

lemma take_last:
  fixes kv :: "string \<times> 'v Item" and json :: "'v DataMessage \<Rightarrow> 'j" and s :: "('v, 'j) col_state"
  assumes "col_at g kvs s" and "length kvs mod 10 = 9" and "DataChan px = Some c"
  defines "q \<equiv> length kvs div 10"
  defines "ps \<equiv> map point (batch q (kvs @ [kv]))"
  defines "s1 \<equiv> s\<lparr>outbox := outbox s @ [(c, json (sent_msg g q ps))], cb := 0, cmsg := sent_msg g (Suc q) ps,
    col_events := col_events s @ [Notified ''data.message'']\<rparr>"
  shows "collect_item json (Some px) True kv s =
      ((code_pending json s1)\<lparr>pending := Some (sent_msg g (Suc q) ps), ci := ci s + 1\<rparr>, Ret ())"
    and "col_at g (kvs @ [kv]) ((code_pending json s1)\<lparr>pending := Some (sent_msg g (Suc q) ps), ci := ci s + 1\<rparr>)"
proof -
  obtain k v where kv: "kv = (k, v)" by (cases kv)
  let ?ps = "(Points (cmsg s))[cb s := set_point k v (Points (cmsg s) ! cb s)]"
  have l: "cb s = 9" "length (Points (cmsg s)) = 10" "cmsg s = sent_msg g q (Points (cmsg s))" "ci s = length kvs"
    using assms(1,2) by (auto simp: col_at_def Let_def q_def)
  have "10 * q + 10 = Suc (length kvs)" unfolding q_def using assms(2) by presburger
  then have d: "length (drop (10 * q) (kvs @ [kv])) = 10" by simp
  have "take 10 ?ps = map point (drop (10 * q) (kvs @ [kv]))"
    using points_after [OF assms(1), of k v] assms(2) by (simp add: kv q_def)
  then have ps: "?ps = ps" using l(2) d by (simp add: ps_def batch_def)
  have m: "cmsg s\<lparr>Points := ?ps\<rparr> = sent_msg g q ps" unfolding ps by (subst l(3)) (simp add: sent_msg_def)
  have seq: "(sent_msg g q ps)\<lparr>Sequence := Sequence (sent_msg g q ps) + 1\<rparr> = sent_msg g (Suc q) ps"
    by (simp add: sent_msg_def)
  have step: "collect_item json (Some px) True kv s =
      (case send_batch json (Some px) True (s\<lparr>cmsg := sent_msg g q ps\<rparr>) of
         (s2, r) \<Rightarrow> if r = Ret () then (s2\<lparr>ci := ci s2 + 1\<rparr>, r) else (s2, r))"
    unfolding collect_item_def kv prod.case Let_def m using l(1,2) by simp
  have send: "send_batch json (Some px) True (s\<lparr>cmsg := sent_msg g q ps\<rparr>) =
      ((code_pending json s1)\<lparr>pending := Some (sent_msg g (Suc q) ps)\<rparr>, Ret ())"
    by (simp add: send_batch_def cacheMessage_def assms(3) Let_def seq s1_def)
  show "collect_item json (Some px) True kv s =
      ((code_pending json s1)\<lparr>pending := Some (sent_msg g (Suc q) ps), ci := ci s + 1\<rparr>, Ret ())"
    unfolding step send by (simp add: s1_def)
  have "length (kvs @ [kv]) = 10 * Suc q" using \<open>10 * q + 10 = Suc (length kvs)\<close> by simp
  then show "col_at g (kvs @ [kv]) ((code_pending json s1)\<lparr>pending := Some (sent_msg g (Suc q) ps), ci := ci s + 1\<rparr>)"
    by (rule col_at_full) (use l(4) in \<open>simp_all add: s1_def ps_def\<close>)
qed

section \<open>Runs\<close>

lemma batch_keep: "n < length kvs div 10 \<Longrightarrow> batch n (kvs @ xs) = batch n kvs"
proof (rule batch_append)
  assume "n < length kvs div 10"
  then have "10 * Suc n \<le> 10 * (length kvs div 10)" by simp
  also have "\<dots> \<le> length kvs" by simp
  finally show "10 * n + 10 \<le> length kvs" by simp
qed

lemma batches_snoc:
  assumes "length kvs mod 10 = 9"
  shows "map (\<lambda>n. f n (batch n (kvs @ [kv]))) [0..<Suc (length kvs) div 10] =
    map (\<lambda>n. f n (batch n kvs)) [0..<length kvs div 10] @ [f (length kvs div 10) (batch (length kvs div 10) (kvs @ [kv]))]"
proof -
  have "Suc (length kvs) div 10 = Suc (length kvs div 10)" using assms by presburger
  then show ?thesis by (auto simp: batch_keep)
qed

lemma batches_same:
  assumes "length kvs mod 10 \<noteq> 9"
  shows "map (\<lambda>n. f n (batch n (kvs @ [kv]))) [0..<Suc (length kvs) div 10] =
    map (\<lambda>n. f n (batch n kvs)) [0..<length kvs div 10]"
proof -
  have "Suc (length kvs) div 10 = length kvs div 10" using assms by presburger
  then show ?thesis by (auto simp: batch_keep)
qed

lemma run_one:
  assumes "run_turns json ts s = (s', Ret ())"
  shows "run_turns json (ts @ [Take first kv]) s = collect_item json first True kv s'"
  using assms by (auto simp: collector_simps split: prod.splits outcome.splits)

lemma prompt_run:
  assumes "DataChan px = Some c"
  shows "\<exists>s'. run_turns json (prompt px kvs) (new_collection z g) = (s', Ret ()) \<and> col_at g kvs s' \<and> pending s' = None \<and>
    outbox s' = map (\<lambda>n. (c, json (sent_msg g n (map point (batch n kvs))))) [0..<length kvs div 10] \<and>
    cached s' = map (\<lambda>n. json (sent_msg g (Suc n) (map point (batch n kvs)))) [0..<length kvs div 10]"
proof (induction kvs rule: rev_induct)
  case Nil
  then show ?case using new_col_at [of g z] by (simp add: prompt_def new_collection_def)
next
  case (snoc kv kvs)
  obtain s where s: "run_turns json (prompt px kvs) (new_collection z g) = (s, Ret ())" "col_at g kvs s" "pending s = None"
      "outbox s = map (\<lambda>n. (c, json (sent_msg g n (map point (batch n kvs))))) [0..<length kvs div 10]"
      "cached s = map (\<lambda>n. json (sent_msg g (Suc n) (map point (batch n kvs)))) [0..<length kvs div 10]"
    using snoc.IH by blast
  have run: "run_turns json (prompt px (kvs @ [kv])) (new_collection z g) =
      run_turns json [Take (Some px) kv, Code] s"
    using s(1) by (simp add: prompt_def collector_simps)
  show ?case
  proof (cases "length kvs mod 10 = 9")
    case True
    let ?ps = "map point (batch (length kvs div 10) (kvs @ [kv]))"
    define s1 where "s1 = s\<lparr>outbox := outbox s @ [(c, json (sent_msg g (length kvs div 10) ?ps))], cb := 0,
      cmsg := sent_msg g (Suc (length kvs div 10)) ?ps, col_events := col_events s @ [Notified ''data.message'']\<rparr>"
    define s2 where "s2 = (code_pending json s1)\<lparr>pending := Some (sent_msg g (Suc (length kvs div 10)) ?ps), ci := ci s + 1\<rparr>"
    note step = take_last [OF s(2) True assms, where kv = kv and json = json, folded s1_def, folded s2_def]
    have "cmsg s2 = sent_msg g (Suc (length kvs div 10)) ?ps" "outbox s2 = outbox s @ [(c, json (sent_msg g (length kvs div 10) ?ps))]"
        "cached s2 = cached s" "pending s2 = Some (sent_msg g (Suc (length kvs div 10)) ?ps)"
      using s(3) by (simp_all add: s2_def s1_def code_pending_def)
    then have "cached (code_pending json s2) = cached s @ [json (sent_msg g (Suc (length kvs div 10)) ?ps)]"
        "outbox (code_pending json s2) = outbox s @ [(c, json (sent_msg g (length kvs div 10) ?ps))]"
      by (simp_all add: code_pending_def)
    then show ?thesis
      using step s(4,5) unfolding run length_append_singleton
        batches_snoc [OF True, of "\<lambda>n b. (c, json (sent_msg g n (map point b)))"]
        batches_snoc [OF True, of "\<lambda>n b. json (sent_msg g (Suc n) (map point b))"]
      by (intro exI [of _ "code_pending json s2"]) simp
  next
    case False
    obtain m where m: "collect_item json (Some px) True kv s = (s\<lparr>cmsg := m, cb := cb s + 1, ci := ci s + 1\<rparr>, Ret ())"
        "col_at g (kvs @ [kv]) (s\<lparr>cmsg := m, cb := cb s + 1, ci := ci s + 1\<rparr>)"
      using take_more [OF s(2) False] by blast
    show ?thesis
      using m s(3-5) unfolding run length_append_singleton batches_same [OF False, of "\<lambda>n b. (c, json (sent_msg g n (map point b)))"]
        batches_same [OF False, of "\<lambda>n b. json (sent_msg g (Suc n) (map point b))"]
      by (intro exI [of _ "s\<lparr>cmsg := m, cb := cb s + 1, ci := ci s + 1\<rparr>"]) (simp add: code_pending_def)
  qed
qed

text \<open>The collector alone: the cache has coded all messages but the last, each just before the next came.\<close>

lemma late_run:
  assumes "DataChan px = Some c"
  shows "\<exists>s'. run_turns json (map (Take (Some px)) kvs) (new_collection z g) = (s', Ret ()) \<and> col_at g kvs s' \<and>
    outbox s' = map (\<lambda>n. (c, json (sent_msg g n (map point (batch n kvs))))) [0..<length kvs div 10] \<and>
    (case length kvs div 10 of 0 \<Rightarrow> pending s' = None \<and> cached s' = []
     | Suc q \<Rightarrow> (\<exists>ps. pending s' = Some (sent_msg g (Suc q) ps)) \<and>
         cached s' = map (\<lambda>n. json (sent_msg g (Suc n) (map point (batch (Suc n) kvs)))) [0..<q])"
proof (induction kvs rule: rev_induct)
  case Nil
  then show ?case using new_col_at [of g z] by (simp add: new_collection_def)
next
  case (snoc kv kvs)
  obtain s where s: "run_turns json (map (Take (Some px)) kvs) (new_collection z g) = (s, Ret ())" "col_at g kvs s"
      "outbox s = map (\<lambda>n. (c, json (sent_msg g n (map point (batch n kvs))))) [0..<length kvs div 10]"
      "case length kvs div 10 of 0 \<Rightarrow> pending s = None \<and> cached s = []
       | Suc q \<Rightarrow> (\<exists>ps. pending s = Some (sent_msg g (Suc q) ps)) \<and>
         cached s = map (\<lambda>n. json (sent_msg g (Suc n) (map point (batch (Suc n) kvs)))) [0..<q]"
    using snoc.IH by blast
  have run: "run_turns json (map (Take (Some px)) (kvs @ [kv])) (new_collection z g) = collect_item json (Some px) True kv s"
    using run_one [OF s(1)] by simp
  have keep: "batch (Suc n) (kvs @ [kv]) = batch (Suc n) kvs" if "Suc n < length kvs div 10" for n
    using that by (rule batch_keep)
  show ?case
  proof (cases "length kvs mod 10 = 9")
    case True
    then have q: "Suc (length kvs) div 10 = Suc (length kvs div 10)" by presburger
    let ?ps = "map point (batch (length kvs div 10) (kvs @ [kv]))"
    define s1 where "s1 = s\<lparr>outbox := outbox s @ [(c, json (sent_msg g (length kvs div 10) ?ps))], cb := 0,
      cmsg := sent_msg g (Suc (length kvs div 10)) ?ps, col_events := col_events s @ [Notified ''data.message'']\<rparr>"
    define s2 where "s2 = (code_pending json s1)\<lparr>pending := Some (sent_msg g (Suc (length kvs div 10)) ?ps), ci := ci s + 1\<rparr>"
    note step = take_last [OF s(2) True assms, where kv = kv and json = json, folded s1_def, folded s2_def]
    have "outbox s2 = outbox s @ [(c, json (sent_msg g (length kvs div 10) ?ps))]"
        "pending s2 = Some (sent_msg g (Suc (length kvs div 10)) ?ps)"
        "cached s2 = (case pending s of None \<Rightarrow> cached s | Some m \<Rightarrow> cached s @ [json (m\<lparr>Points := ?ps\<rparr>)])"
      by (simp_all add: s2_def s1_def code_pending_def split: option.splits)
    then show ?thesis
      using step s(3,4) keep q unfolding run length_append_singleton
        batches_snoc [OF True, of "\<lambda>n b. (c, json (sent_msg g n (map point b)))"]
      by (intro exI [of _ s2]) (cases "length kvs div 10"; force)
  next
    case False
    then have q: "Suc (length kvs) div 10 = length kvs div 10" by presburger
    obtain m where m: "collect_item json (Some px) True kv s = (s\<lparr>cmsg := m, cb := cb s + 1, ci := ci s + 1\<rparr>, Ret ())"
        "col_at g (kvs @ [kv]) (s\<lparr>cmsg := m, cb := cb s + 1, ci := ci s + 1\<rparr>)"
      using take_more [OF s(2) False] by blast
    show ?thesis
      using m s(3,4) keep unfolding run length_append_singleton batches_same [OF False, of "\<lambda>n b. (c, json (sent_msg g n (map point b)))"]
      by (intro exI [of _ "s\<lparr>cmsg := m, cb := cb s + 1, ci := ci s + 1\<rparr>"]) (cases "length kvs div 10"; simp add: q)
  qed
qed

text \<open>Without a proxy the tenth point is overwritten by every further value.\<close>

lemma first_nine:
  "length kvs \<le> 9 \<Longrightarrow> \<exists>s'. collect_items json first up kvs (new_collection z g) = (s', Ret ()) \<and> col_at g kvs s' \<and> outbox s' = []"
proof (induction kvs rule: rev_induct)
  case Nil
  then show ?case using new_col_at [of g z] by (simp add: new_collection_def)
next
  case (snoc kv kvs)
  then obtain s where s: "collect_items json first up kvs (new_collection z g) = (s, Ret ())" "col_at g kvs s" "outbox s = []"
    by auto
  have "length kvs mod 10 \<noteq> 9" using snoc.prems by simp
  from take_more [OF s(2) this, of json "first (ci s)" up kv] s show ?case
    by (auto simp: collect_items_append)
qed

lemma stuck_step:
  assumes "cb s = 9" and "length (Points (cmsg s)) = 10"
  shows "collect_item json None up (k, v) s =
    (s\<lparr>cmsg := (cmsg s)\<lparr>Points := (Points (cmsg s))[9 := set_point k v (Points (cmsg s) ! 9)]\<rparr>, ci := ci s + 1\<rparr>, Ret ())"
  using assms by (simp add: collect_item_def send_batch_def Let_def)

lemma stuck:
  assumes "cb s = 9" and "cmsg s = sent_msg g n ps" and "length ps = 10" and "\<forall>p \<in> set ps. ptID p = 0"
  shows "\<exists>s' ps'. collect_items json (\<lambda>_. None) up kvs s = (s', Ret ()) \<and> cb s' = 9 \<and> outbox s' = outbox s \<and>
    cmsg s' = sent_msg g n ps' \<and> length ps' = 10 \<and> (\<forall>p \<in> set ps'. ptID p = 0) \<and> take 9 ps' = take 9 ps"
  using assms
proof (induction kvs arbitrary: s ps)
  case (Cons kv kvs)
  obtain k v where kv: "kv = (k, v)" by (cases kv)
  let ?ps = "ps[9 := set_point k v (ps ! 9)]"
  let ?s = "s\<lparr>cmsg := sent_msg g n ?ps, ci := ci s + 1\<rparr>"
  have "ptID (ps ! 9) = 0" using Cons.prems(3,4) by simp
  then have "\<forall>p \<in> set ?ps. ptID p = 0"
    using Cons.prems(4) set_update_subset_insert [of ps 9 "set_point k v (ps ! 9)"] by (auto simp: set_point_def)
  moreover have "collect_item json None up kv s = (?s, Ret ())"
    using stuck_step [of s json up k v] Cons.prems(1-3) by (simp add: kv)
  ultimately show ?case using Cons.IH [of ?s ?ps] Cons.prems(1,3) by auto
qed auto

section \<open>Properties\<close>

text \<open>
  With an open data connection and a cache that keeps up, the values read go out in batches of ten,
  in the order they were read, none lost and none twice: the n-th message has sequence number n and the
  n-th ten values, the values of the batch begun are kept for the next message. The cache gets the
  same batches, but each under the sequence number of the next message.
\<close>

theorem batches_sent:
  assumes "DataChan px = Some c"
  shows "\<exists>s'. run_turns json (prompt px kvs) (new_collection z g) = (s', Ret ()) \<and>
    outbox s' = map (\<lambda>n. (c, json (sent_msg g n (map point (batch n kvs))))) [0..<length kvs div 10] \<and>
    cached s' = map (\<lambda>n. json (sent_msg g (Suc n) (map point (batch n kvs)))) [0..<length kvs div 10] \<and>
    concat (map (\<lambda>n. map point (batch n kvs)) [0..<length kvs div 10]) @ take (cb s') (Points (cmsg s')) = map point kvs"
proof -
  obtain s' where s': "run_turns json (prompt px kvs) (new_collection z g) = (s', Ret ())" "col_at g kvs s'"
      "outbox s' = map (\<lambda>n. (c, json (sent_msg g n (map point (batch n kvs))))) [0..<length kvs div 10]"
      "cached s' = map (\<lambda>n. json (sent_msg g (Suc n) (map point (batch n kvs)))) [0..<length kvs div 10]"
    using prompt_run [where kvs = kvs and z = z and g = g and json = json, OF assms] by blast
  have "concat (map (\<lambda>n. map point (batch n kvs)) [0..<q]) = map point (take (10 * q) kvs)" for q
  proof (induction q)
    case (Suc q)
    have "take (10 * q + 10) kvs = take (10 * q) kvs @ batch q kvs" by (simp only: batch_def take_add)
    moreover have "10 * Suc q = 10 * q + 10" by simp
    ultimately show ?case using Suc by (simp only: upt_Suc_append map_append concat_append) simp
  qed simp
  moreover have "take (cb s') (Points (cmsg s')) = map point (drop (10 * (length kvs div 10)) kvs)"
    using s'(2) by (auto simp: col_at_def Let_def)
  ultimately show ?thesis using s' by (intro exI [of _ s']) (simp flip: map_append)
qed

definition data_proxy :: DiodeProxy where
  "data_proxy = \<lparr>dpID = 1, dpName = ''p'', dpDescription = [], EndpointIP = ''10.0.0.1'', EndpointMAC = [],
     MetaPort = 4356, DataPort = 4357, FilePort = 4358, DataChan = Some 0, MetaChan = None, FileChan = None,
     DataCon = True, MetaCon = False, FileCon = False\<rparr>"

definition test_group :: OPCGroup where
  "test_group = \<lparr>gID = 1, gName = ''g'', gDescription = [], Interval = 1, Status = GroupStatusNotRunning, LastRun = 0,
     Counter = 0, RunAtStart = False, LastError = [], ProgID = ''s'', DiodeProxyID = 1, DefaultGroup = True\<rparr>"

definition test_values :: "(string \<times> int Item) list" where
  "test_values = map (\<lambda>i. (''t'', \<lparr>Timestamp = i, itValue = i, itQuality = 192\<rparr>)) [0..21]"

lemma length_test_values: "length test_values = 22"
  by (simp add: test_values_def)

lemma batches_sent_witness:
  "\<exists>s'. run_turns id (prompt data_proxy test_values) (new_collection 0 test_group) = (s', Ret ()) \<and>
    map (\<lambda>x. Sequence (snd x)) (outbox s') = [0, 1] \<and> map Sequence (cached s') = [1, 2]"
proof -
  have "DataChan data_proxy = Some 0" by (simp add: data_proxy_def)
  note run = batches_sent [where json = id and kvs = test_values and z = 0 and g = test_group, OF this]
  have "[0..<length test_values div 10] = [0, 1]" unfolding length_test_values by (simp add: upt_conv_Cons)
  then show ?thesis using run by (auto simp: sent_msg_def)
qed

text \<open>
  C14. When the cache codes a message only just before it must, the first batch is missing from the
  cache: since the message shares its points with the collector, every message but the last is
  coded with the points of the batch after it, and the last batch is there twice. What is sent is not affected.
\<close>

theorem late_cache:
  assumes "DataChan px = Some c" and "length kvs = 10 * Suc q"
  shows "\<exists>s'. run_turns json (late px kvs) (new_collection z g) = (s', Ret ()) \<and>
    outbox s' = map (\<lambda>n. (c, json (sent_msg g n (map point (batch n kvs))))) [0..<Suc q] \<and>
    cached s' = map (\<lambda>n. json (sent_msg g (Suc n) (map point (batch (min (Suc n) q) kvs)))) [0..<Suc q]"
proof -
  have q: "length kvs div 10 = Suc q" "length kvs mod 10 = 0" using assms(2) by simp_all
  obtain s where s: "run_turns json (map (Take (Some px)) kvs) (new_collection z g) = (s, Ret ())" "col_at g kvs s"
      "outbox s = map (\<lambda>n. (c, json (sent_msg g n (map point (batch n kvs))))) [0..<Suc q]"
      "\<exists>ps. pending s = Some (sent_msg g (Suc q) ps)"
      "cached s = map (\<lambda>n. json (sent_msg g (Suc n) (map point (batch (Suc n) kvs)))) [0..<q]"
    using late_run [where kvs = kvs and z = z and g = g and json = json, OF assms(1)] by (auto simp: q(1))
  have "Points (cmsg s) = map point (batch q kvs)" using s(2) q by (simp add: col_at_def Let_def)
  then have "cached (code_pending json s) = cached s @ [json (sent_msg g (Suc q) (map point (batch q kvs)))]"
    using s(4) by (auto simp: code_pending_def)
  moreover have "map (\<lambda>n. json (sent_msg g (Suc n) (map point (batch (min (Suc n) q) kvs)))) [0..<q] = cached s"
    unfolding s(5) by (intro map_cong refl) simp
  ultimately show ?thesis using s(1,3) by (auto simp: late_def collector_simps)
qed

lemma late_cache_witness:
  "\<exists>s'. run_turns (map (ptTime) \<circ> Points) (late data_proxy (take 20 test_values)) (new_collection 0 test_group) = (s', Ret ()) \<and>
    cached s' = [[10..19], [10..19]]"
proof -
  have "DataChan data_proxy = Some 0" by (simp add: data_proxy_def)
  moreover have "length (take 20 test_values) = 10 * Suc 1" by (simp add: length_test_values)
  moreover have "map ptTime (map point (batch 1 (take 20 test_values))) = [10..19]" by code_simp
  ultimately show ?thesis
    using late_cache [of data_proxy 0 "take 20 test_values" 1 "map ptTime \<circ> Points" 0 test_group] by auto
qed

text \<open>
  C30. While there is no proxy, nothing is sent, the first nine values read are kept and each further one
  overwrites the tenth; the first message after a proxy appears has the nine stale values and
  the one just read.
\<close>

theorem no_proxy:
  assumes "length xs = 9" and "DataChan px = Some c"
  shows "\<exists>s1 s2. collect_items json (\<lambda>_. None) True (xs @ ys) (new_collection z g) = (s1, Ret ()) \<and> outbox s1 = [] \<and>
    collect_item json (Some px) True kv s1 = (s2, Ret ()) \<and>
    outbox s2 = [(c, json (sent_msg g 0 (map point (xs @ [kv]))))]"
proof -
  obtain s where s: "collect_items json (\<lambda>_. None) True xs (new_collection z g) = (s, Ret ())" "col_at g xs s" "outbox s = []"
    using first_nine [of xs json "\<lambda>_. None" True z g] assms(1) by auto
  have a: "cb s = 9" "cmsg s = sent_msg g 0 (Points (cmsg s))" "length (Points (cmsg s)) = 10"
      "\<forall>p \<in> set (Points (cmsg s)). ptID p = 0" "take 9 (Points (cmsg s)) = map point xs"
    using s(2) assms(1) by (simp_all add: col_at_def Let_def)
  obtain s1 ps where s1: "collect_items json (\<lambda>_. None) True ys s = (s1, Ret ())" "cb s1 = 9" "outbox s1 = []"
      "cmsg s1 = sent_msg g 0 ps" "length ps = 10" "\<forall>p \<in> set ps. ptID p = 0" "take 9 ps = map point xs"
    using stuck [OF a(1-4), of json True ys] s(3) a(5) by metis
  obtain k v where kv: "kv = (k, v)" by (cases kv)
  have "set_point k v (ps ! 9) = point kv" using s1(5,6) by (simp add: set_point_point kv)
  then have "ps[9 := set_point k v (ps ! 9)] = map point (xs @ [kv])"
    using s1(5,7) id_take_nth_drop [of 9 ps] by (simp add: upd_conv_take_nth_drop)
  then have "\<exists>s2. collect_item json (Some px) True kv s1 = (s2, Ret ()) \<and>
      outbox s2 = outbox s1 @ [(c, json (sent_msg g 0 (map point (xs @ [kv]))))]"
    using s1(2,4,5) assms(2) by (simp add: collect_item_def kv Let_def send_batch_def cacheMessage_def)
  moreover have "collect_items json (\<lambda>_. None) True (xs @ ys) (new_collection z g) = (s1, Ret ())"
    using s(1) s1(1) by (simp add: collector_simps)
  ultimately show ?thesis using s1(3) by auto
qed

lemma no_proxy_witness:
  "\<exists>s1 s2. collect_items (map ptTime \<circ> Points) (\<lambda>_. None) True (take 21 test_values) (new_collection 0 test_group) = (s1, Ret ()) \<and>
    collect_item (map ptTime \<circ> Points) (Some data_proxy) True (last test_values) s1 = (s2, Ret ()) \<and>
    outbox s2 = [(0, [0, 1, 2, 3, 4, 5, 6, 7, 8, 21])]"
proof -
  have "DataChan data_proxy = Some 0" by (simp add: data_proxy_def)
  moreover have "length (take 9 test_values) = 9" by (simp add: length_test_values)
  moreover have "take 9 test_values @ drop 9 (take 21 test_values) = take 21 test_values"
    using append_take_drop_id [of 9 "take 21 test_values"] by simp
  moreover have "map ptTime (map point (take 9 test_values @ [last test_values])) = [0, 1, 2, 3, 4, 5, 6, 7, 8, 21]" by code_simp
  ultimately show ?thesis
    using no_proxy [of "take 9 test_values" data_proxy 0 "map ptTime \<circ> Points" "drop 9 (take 21 test_values)" 0 test_group "last test_values"]
    by auto
qed

text \<open>
  C31. Whatever values are read, whenever the cache codes and whichever proxies the collector finds, the
  message keeps its ten points and the next one its place among them: the loop over the values never panics,
  though it may stop for good at a nil channel. (Before the loop the collector can panic on its ticker.)
\<close>

theorem collector_safe:
  "(case run_turns json ts (new_collection z g) of (s', r) \<Rightarrow>
      length (Points (cmsg s')) = 10 \<and> cb s' < 10 \<and> Count (cmsg s') = 10 \<and> r \<in> {Ret (), NoReturn})"
proof -
  have step: "col_inv s \<Longrightarrow> run_turns json ts s = (s', r) \<Longrightarrow> col_inv s' \<and> r \<in> {Ret (), NoReturn}" for s s' r
  proof (induction ts arbitrary: s)
    case (Cons t ts)
    show ?case
    proof (cases t)
      case (Take first kv)
      obtain s1 r1 where c: "collect_item json first True kv s = (s1, r1)" by fastforce
      then show ?thesis
        using collect_item_inv [OF Cons.prems(1) c] Cons.IH [of s1] Cons.prems(2) Take by (cases r1) auto
    next
      case Code
      then show ?thesis using Cons.IH [of "code_pending json s"] Cons.prems by simp
    qed
  qed auto
  have new: "col_inv (new_collection z g)" by (simp add: col_inv_def new_collection_def)
  obtain s' r where r: "run_turns json ts (new_collection z g) = (s', r)" by fastforce
  show ?thesis using step [OF new r] by (simp add: r col_inv_def)
qed

end
