(* ===== verification/DataPath.thy ===== *)
theory DataPath imports Collector CacheText begin

text \<open>
  The collector and the cache together: from the values one collection reads (\<^verbatim>\<open>src/engine/groups.go\<close>)
  through the messages it hands over (\<^verbatim>\<open>cacheMessage\<close>) to the bytes of the cache files
  (\<^verbatim>\<open>processMessages\<close> of \<^verbatim>\<open>src/engine/cache.go\<close>).
\<close>

section \<open>Handing the messages over\<close>

text \<open>
  The cache looks at the clock twice for each message, once to see if it is time for a new file and once
  to name it. The messages are the coded ones the collector's run leaves in \<open>cached\<close>.
\<close>

definition taken :: "(gotime \<times> gotime) list \<Rightarrow> 'm list \<Rightarrow> (gotime \<times> gotime \<times> 'm) list" where
  "taken clocks ms = map (\<lambda>((now, now'), m). (now, now', m)) (zip clocks ms)"

lemma taken_messages: "length clocks = length ms \<Longrightarrow> map (snd \<circ> snd) (taken clocks ms) = ms"
  by (induction clocks ms rule: list_induct2) (simp_all add: taken_def case_prod_unfold)

lemma taken_clock: "(now, now', m) \<in> set (taken clocks ms) \<Longrightarrow> (now, now') \<in> set clocks"
  by (auto simp: taken_def dest: set_zip_leftD)

definition batches :: "nat \<Rightarrow> 'a list \<Rightarrow> 'a list list" where
  "batches q kvs = map (\<lambda>n. batch n kvs) [0..<q]"

lemma concat_batches: "concat (batches q kvs) = take (10 * q) kvs"
proof (induction q)
  case (Suc q)
  have "take (10 * q + 10) kvs = take (10 * q) kvs @ batch q kvs" by (simp only: batch_def take_add)
  then show ?case using Suc by (simp add: batches_def add.commute)
qed (simp add: batches_def)

lemma numbered_batches:
  "map (\<lambda>(n, b). f n b) (enumerate k (batches q kvs)) = map (\<lambda>n. f (k + n) (batch n kvs)) [0..<q]"
  by (rule nth_equalityI) (simp_all add: batches_def nth_enumerate_eq)

text \<open>A cache session: the first file, the messages, the close at shutdown.\<close>

definition cache_session :: "coder \<Rightarrow> path \<Rightarrow> gotime \<Rightarrow> (gotime \<times> gotime \<times> string) list \<Rightarrow> cache_state \<Rightarrow> cache_state" where
  "cache_session gz cwd t0 ms s = CloseCache gz (processMessages gz id cwd ms ((createFile gz cwd t0 s)\<lparr>prevRemainder := -1\<rparr>))"

section \<open>What was read is what was cached\<close>

text \<open>
  C3. With an open data connection and a cache that keeps up, every full batch of ten values read, in the
  order they were read, is sent once over the diode and is once in the cache: the batches and the points
  kept for the next message are all the values read; the messages of the files, file after file in the order
  they were opened, are these batches, each under the sequence number after the one it was sent with; and a
  file that did not exist before decompresses to the texts of its messages.
\<close>

theorem read_sent_cached:
  assumes "DataChan px = Some c" and "fw s = NoWriter" and "cache_clear cwd (c_fs s)" and "valid_time t0"
    and "length clocks = length kvs div 10" and "\<forall>(now, now') \<in> set clocks. valid_time now'"
    and "\<And>wss. gunz (concat (map (gz_all gz) wss)) = concat (map concat wss)"
  shows "\<exists>col segs. run_turns json (prompt px kvs) (new_collection z g) = (col, Ret ()) \<and>
    map point (concat (batches (length kvs div 10) kvs)) @ take (cb col) (Points (cmsg col)) = map point kvs \<and>
    outbox col = map (\<lambda>(n, b). (c, json (sent_msg g n (map point b)))) (enumerate 0 (batches (length kvs div 10) kvs)) \<and>
    concat (map snd segs) = map (\<lambda>(n, b). json (sent_msg g n (map point b))) (enumerate 1 (batches (length kvs div 10) kvs)) \<and>
    (\<forall>x \<in> set segs. \<exists>t. valid_time t \<and> fst x = cache_path cwd t) \<and>
    (\<forall>p. content (c_fs s) p = [] \<longrightarrow>
       gunz (content (c_fs (cache_session gz cwd t0 (taken clocks (cached col)) s)) p) = bytes_of (texts_at id segs p))"
proof -
  let ?q = "length kvs div 10"
  obtain col where col: "run_turns json (prompt px kvs) (new_collection z g) = (col, Ret ())" "col_at g kvs col"
      "outbox col = map (\<lambda>n. (c, json (sent_msg g n (map point (batch n kvs))))) [0..<?q]"
      "cached col = map (\<lambda>n. json (sent_msg g (Suc n) (map point (batch n kvs)))) [0..<?q]"
    using prompt_run [where kvs = kvs and z = z and g = g and json = json, OF assms(1)] by blast
  have "take (cb col) (Points (cmsg col)) = map point (drop (10 * ?q) kvs)"
    using col(2) by (auto simp: col_at_def Let_def)
  then have all_read: "map point (concat (batches ?q kvs)) @ take (cb col) (Points (cmsg col)) = map point kvs"
    by (simp add: concat_batches flip: map_append)
  have out: "outbox col = map (\<lambda>(n, b). (c, json (sent_msg g n (map point b)))) (enumerate 0 (batches ?q kvs))"
      "cached col = map (\<lambda>(n, b). json (sent_msg g n (map point b))) (enumerate 1 (batches ?q kvs))"
    unfolding numbered_batches by (simp_all add: col(3,4))
  have "length clocks = length (cached col)" using assms(5) by (simp add: col(4))
  note taken = taken_messages [OF this]
  have "\<forall>x \<in> set (taken clocks (cached col)). valid_time (fst (snd x))"
    using assms(6) taken_clock by fastforce
  from cache_segments [where gz = gz and json = id, OF assms(2-4) this] obtain segs where
    segs: "concat (map snd segs) = cached col" "\<forall>x \<in> set segs. \<exists>t. valid_time t \<and> fst x = cache_path cwd t"
      "\<And>p. content (c_fs (cache_session gz cwd t0 (taken clocks (cached col)) s)) p = content (c_fs s) p @ segments_at gz id segs p"
    unfolding cache_session_def taken by blast
  have "gunz (content (c_fs (cache_session gz cwd t0 (taken clocks (cached col)) s)) p) = bytes_of (texts_at id segs p)"
    if "content (c_fs s) p = []" for p
    using that by (simp add: segs(3) gunz_segments [OF assms(7)])
  then show ?thesis
    using col(1) segs(1,2) all_read out by (intro exI [of _ col] exI [of _ segs]) simp
qed

definition test_json :: "int DataMessage \<Rightarrow> string" where
  "test_json m = (if Sequence m = 0 then ''a'' else if Sequence m = 1 then ''b'' else ''c'')"

lemma read_sent_cached_witness:
  "\<exists>col segs. run_turns test_json (prompt data_proxy test_values) (new_collection 0 test_group) = (col, Ret ()) \<and>
    map snd (outbox col) = [''a'', ''b''] \<and> concat (map snd segs) = [''b'', ''c''] \<and>
    content (c_fs (cache_session plain_coder [] leap_day (taken [(leap_day, leap_day), (leap_day, leap_day)] (cached col)) empty_cache))
      (cache_path [] leap_day) = bytes_of (texts_at id segs (cache_path [] leap_day))"
proof -
  have clear: "cache_clear [] (c_fs empty_cache)" "fw empty_cache = NoWriter"
    by (simp_all add: empty_cache_def cache_clear_def clear_way_def)
  have chan: "DataChan data_proxy = Some 0" by (simp add: data_proxy_def)
  have q: "length test_values div 10 = 2" by (simp add: length_test_values)
  have clocks: "length [(leap_day, leap_day), (leap_day, leap_day)] = length test_values div 10" by (simp add: q)
  have "[0..<2] = [0, 1]" by (simp add: upt_conv_Cons)
  then have coded: "map (\<lambda>(n, b). test_json (sent_msg test_group n (map point b))) (enumerate 0 (batches 2 test_values)) = [''a'', ''b'']"
      "map (\<lambda>(n, b). test_json (sent_msg test_group n (map point b))) (enumerate 1 (batches 2 test_values)) = [''b'', ''c'']"
    unfolding numbered_batches by (simp_all add: test_json_def sent_msg_def)
  have sent: "map snd (map (\<lambda>(n, b). (0 :: nat, test_json (sent_msg test_group n (map point b)))) (enumerate 0 (batches 2 test_values))) = [''a'', ''b'']"
    unfolding coded(1) [symmetric] by (simp add: case_prod_unfold)
  have new: "content (c_fs empty_cache) p = []" for p by (simp add: empty_cache_def content_def)
  have v: "\<forall>(now, now') \<in> set [(leap_day, leap_day), (leap_day, leap_day)]. valid_time now'" using leap_day_cached(2) by simp
  from read_sent_cached [where kvs = test_values and z = 0 and g = test_group and json = test_json and gz = plain_coder and gunz = id,
      OF chan clear(2,1) leap_day_cached(2) clocks v]
  obtain col segs where r: "run_turns test_json (prompt data_proxy test_values) (new_collection 0 test_group) = (col, Ret ())"
      "outbox col = map (\<lambda>(n, b). (0, test_json (sent_msg test_group n (map point b)))) (enumerate 0 (batches 2 test_values))"
      "concat (map snd segs) = map (\<lambda>(n, b). test_json (sent_msg test_group n (map point b))) (enumerate 1 (batches 2 test_values))"
      "\<forall>p. content (c_fs empty_cache) p = [] \<longrightarrow> id (content (c_fs (cache_session plain_coder [] leap_day
         (taken [(leap_day, leap_day), (leap_day, leap_day)] (cached col)) empty_cache)) p) = bytes_of (texts_at id segs p)"
    unfolding q by auto
  show ?thesis
    using r(1,4) new unfolding r(2) sent [symmetric] coded(2) [symmetric] r(3) [symmetric]
    by (intro exI [of _ col] exI [of _ segs]) (simp add: r(2))
qed

end
