(* ===== verification/Websockets.thy ===== *)
theory Websockets imports Prelude "HOL-Library.Multiset" begin

text \<open>
  The subscribers of the web interface (\<^verbatim>\<open>logger/websockets.go\<close>): registering a connection, sending a
  message to every subscriber, and dropping those a write fails for. A \<^verbatim>\<open>*websocket.Conn\<close> is a
  number, \<open>None\<close> is nil; \<open>open_conns\<close> holds those whose embedded \<^verbatim>\<open>Conn\<close> is not nil. Whether a
  write succeeds is the parameter \<open>can_write\<close>. The mutex is released by \<^verbatim>\<open>defer\<close> on every way out and
  the calls under it do not take it again, so each operation is one step.
\<close>

section \<open>State\<close>

datatype 'm payload = PText string | PValue 'm

record 'm WebSocketMessage =
  Topic :: string
  Message :: "'m payload"

record 'm ws_state =
  ws :: "nat option list"
  dropList :: "nat list"
  open_conns :: "nat list"
  delivered :: "(nat \<times> 'm WebSocketMessage) list"
  closed :: "nat list"

section \<open>Operations\<close>

text \<open>The error of the write is not looked at.\<close>

definition RegisterWebsocket :: "(nat \<Rightarrow> bool) \<Rightarrow> nat \<Rightarrow> 'm ws_state \<Rightarrow> 'm ws_state" where
  "RegisterWebsocket can_write c s =
     (let s1 = s\<lparr>ws := ws s @ [Some c]\<rparr>;
          msg = \<lparr>Topic = ''ws.meta'', Message = PText ''Subscription registered''\<rparr>
      in if can_write c then s1\<lparr>delivered := delivered s1 @ [(c, msg)]\<rparr> else s1)"

definition notify_one :: "(nat \<Rightarrow> bool) \<Rightarrow> 'm WebSocketMessage \<Rightarrow> nat \<Rightarrow> nat option \<Rightarrow> 'm ws_state \<Rightarrow> 'm ws_state" where
  "notify_one can_write msg i c s =
     (case c of
        None \<Rightarrow> s\<lparr>dropList := dropList s @ [i]\<rparr>
      | Some p \<Rightarrow>
          if p \<notin> set (open_conns s) then s\<lparr>dropList := dropList s @ [i]\<rparr>
          else if can_write p then s\<lparr>delivered := delivered s @ [(p, msg)]\<rparr>
          else s\<lparr>dropList := dropList s @ [i]\<rparr>)"

fun notify_loop :: "(nat \<Rightarrow> bool) \<Rightarrow> 'm WebSocketMessage \<Rightarrow> nat \<Rightarrow> nat option list \<Rightarrow> 'm ws_state \<Rightarrow> 'm ws_state" where
  "notify_loop can_write msg i [] s = s"
| "notify_loop can_write msg i (c # cs) s = notify_loop can_write msg (Suc i) cs (notify_one can_write msg i c s)"

text \<open>
  An index out of range, a nil entry and closing a connection that is nil already are run-time panics.
\<close>

definition dropSubscriber :: "nat \<Rightarrow> 'm ws_state \<Rightarrow> 'm ws_state \<times> unit outcome" where
  "dropSubscriber i s =
     (if i \<ge> length (ws s) then (s, Panic ''index out of range'')
      else case ws s ! i of
        None \<Rightarrow> (s, Panic ''invalid memory address or nil pointer dereference'')
      | Some p \<Rightarrow>
          if p \<notin> set (open_conns s) then (s, Panic ''invalid memory address or nil pointer dereference'')
          else let s1 = s\<lparr>closed := closed s @ [p], open_conns := removeAll p (open_conns s)\<rparr>;
                   w = (ws s1)[i := ws s1 ! (length (ws s1) - 1)];
                   w' = w[length w - 1 := None]
               in (s1\<lparr>ws := take (length w' - 1) w'\<rparr>, Ret ()))"

fun drop_loop :: "nat list \<Rightarrow> 'm ws_state \<Rightarrow> 'm ws_state \<times> unit outcome" where
  "drop_loop [] s = (s, Ret ())"
| "drop_loop (i # is) s =
     (case dropSubscriber i s of (s', Ret _) \<Rightarrow> drop_loop is s' | (s', r) \<Rightarrow> (s', r))"

definition dropSubscribers :: "'m ws_state \<Rightarrow> 'm ws_state \<times> unit outcome" where
  "dropSubscribers s =
     (if length (ws s) = 0 \<or> length (dropList s) = 0 then (s, Ret ())
      else drop_loop (rev (dropList s)) s)"

definition NotifySubscribers :: "(nat \<Rightarrow> bool) \<Rightarrow> string \<Rightarrow> 'm payload \<Rightarrow> 'm ws_state \<Rightarrow> 'm ws_state \<times> unit outcome" where
  "NotifySubscribers can_write topic message s =
     dropSubscribers (notify_loop can_write \<lparr>Topic = topic, Message = message\<rparr> 0 (ws s) (s\<lparr>dropList := []\<rparr>))"

section \<open>Subscribers are live\<close>

text \<open>
  The library runs the handler of \<^verbatim>\<open>web/server.go\<close>, which registers the connection, with a
  connection that is in use by no other handler; it may be used again only after the handler has seen its
  \<^verbatim>\<open>Conn\<close> nil and returned.
\<close>

inductive ws_step :: "'m ws_state \<Rightarrow> 'm ws_state \<Rightarrow> bool" where
  register: "c \<notin> set (open_conns s) \<Longrightarrow>
    ws_step s (RegisterWebsocket can_write c (s\<lparr>open_conns := c # open_conns s\<rparr>))"
| notify: "ws_step s (fst (NotifySubscribers can_write topic message s))"

definition no_subscribers :: "'m ws_state" where
  "no_subscribers = \<lparr>ws = [], dropList = [], open_conns = [], delivered = [], closed = []\<rparr>"

abbreviation ws_reachable :: "'m ws_state \<Rightarrow> bool" where
  "ws_reachable s \<equiv> ws_step\<^sup>*\<^sup>* no_subscribers s"

text \<open>The subscribers, when every entry is one.\<close>

lemma map_filter_Some [simp]: "List.map_filter id (map Some ps) = ps"
  by (induction ps) (simp_all add: map_filter_simps)

definition subscribers :: "'m ws_state \<Rightarrow> nat list" where
  "subscribers s = List.map_filter id (ws s)"

definition all_live :: "'m ws_state \<Rightarrow> bool" where
  "all_live s \<longleftrightarrow> None \<notin> set (ws s) \<and> distinct (subscribers s) \<and> set (subscribers s) \<subseteq> set (open_conns s)"

lemma all_live_iff: "all_live s \<longleftrightarrow> (\<exists>ps. ws s = map Some ps \<and> distinct ps \<and> set ps \<subseteq> set (open_conns s))"
proof -
  have "\<exists>ps. xs = map Some ps" if "None \<notin> set xs" for xs :: "nat option list"
    using that
  proof (induction xs)
    case (Cons x xs)
    then obtain p ps where "x = Some p" "xs = map Some ps" by (cases x) auto
    then show ?case by (intro exI [of _ "p # ps"]) simp
  qed simp
  then have "None \<notin> set (ws s) \<longleftrightarrow> (\<exists>ps. ws s = map Some ps)" by auto
  then show ?thesis by (auto simp: all_live_def subscribers_def)
qed

lemma subscribers_map: "ws s = map Some ps \<Longrightarrow> subscribers s = ps"
  by (simp add: subscribers_def)

text \<open>Sending to live subscribers: who gets the message, and the indices of the others in order.\<close>

fun failing :: "(nat \<Rightarrow> bool) \<Rightarrow> nat \<Rightarrow> nat list \<Rightarrow> nat list" where
  "failing can_write i [] = []"
| "failing can_write i (p # ps) = (if can_write p then failing can_write (Suc i) ps else i # failing can_write (Suc i) ps)"

lemma failing_bounds: "j \<in> set (failing can_write i ps) \<Longrightarrow> i \<le> j \<and> j < i + length ps"
  by (induction ps arbitrary: i) (fastforce split: if_splits)+

lemma failing_sorted: "sorted_wrt (<) (failing can_write i ps)"
  by (induction ps arbitrary: i) (auto dest: failing_bounds)

lemma failing_nth: "map (\<lambda>j. ps ! (j - i)) (failing can_write i ps) = filter (\<lambda>p. \<not> can_write p) ps"
proof (induction ps arbitrary: i)
  case (Cons p ps)
  have "map (\<lambda>j. (p # ps) ! (j - i)) (failing can_write (Suc i) ps) = map (\<lambda>j. ps ! (j - Suc i)) (failing can_write (Suc i) ps)"
    by (intro map_cong refl) (auto simp: nth_Cons' dest: failing_bounds)
  then show ?case using Cons by simp
qed simp

lemma notify_loop_live:
  "set ps \<subseteq> set (open_conns s) \<Longrightarrow> notify_loop can_write msg i (map Some ps) s =
    s\<lparr>dropList := dropList s @ failing can_write i ps,
      delivered := delivered s @ map (\<lambda>p. (p, msg)) (filter can_write ps)\<rparr>"
  by (induction ps arbitrary: i s) (simp_all add: notify_one_def)

text \<open>Dropping moves the last entry into the gap: the entries below the index stay where they are.\<close>

definition fill_gap :: "nat \<Rightarrow> 'a list \<Rightarrow> 'a list" where
  "fill_gap i xs = butlast (xs[i := last xs])"

lemma fill_gap:
  assumes "i < length xs"
  shows "add_mset (xs ! i) (mset (fill_gap i xs)) = mset xs" "length (fill_gap i xs) = length xs - 1"
    and "j < i \<Longrightarrow> fill_gap i xs ! j = xs ! j"
proof -
  obtain ys x where xs: "xs = ys @ [x]" using assms by (cases xs rule: rev_cases) auto
  show "add_mset (xs ! i) (mset (fill_gap i xs)) = mset xs"
  proof (cases "i = length ys")
    case True
    then show ?thesis by (simp add: fill_gap_def xs)
  next
    case False
    then have i: "i < length ys" using assms by (simp add: xs)
    then have "mset (ys[i := x]) = add_mset x (mset ys - {#ys ! i#})" by (simp add: mset_update)
    moreover have "ys ! i \<in># mset ys" using i by simp
    ultimately show ?thesis using i by (simp add: fill_gap_def xs nth_append list_update_append)
  qed
  show "length (fill_gap i xs) = length xs - 1" by (simp add: fill_gap_def)
  show "j < i \<Longrightarrow> fill_gap i xs ! j = xs ! j" using assms by (simp add: fill_gap_def nth_butlast)
qed

lemma dropSubscriber_live:
  assumes "ws s = map Some ps" and "i < length ps" and "ps ! i \<in> set (open_conns s)"
  shows "dropSubscriber i s = (s\<lparr>closed := closed s @ [ps ! i], open_conns := removeAll (ps ! i) (open_conns s),
    ws := map Some (fill_gap i ps)\<rparr>, Ret ())"
proof -
  have "last ps = ps ! (length ps - 1)" using assms(2) by (intro last_conv_nth) auto
  then show ?thesis
    using assms by (simp add: dropSubscriber_def Let_def fill_gap_def butlast_conv_take map_update flip: take_map)
qed

lemma drop_loop_live:
  assumes "ws s = map Some ps" and "distinct ps" and "set ps \<subseteq> set (open_conns s)"
    and "sorted_wrt (>) is" and "\<forall>i \<in> set is. i < length ps"
  shows "\<exists>qs. drop_loop is s = (s\<lparr>closed := closed s @ map ((!) ps) is,
      open_conns := filter (\<lambda>c. c \<notin> (!) ps ` set is) (open_conns s), ws := map Some qs\<rparr>, Ret ()) \<and>
    mset qs + mset (map ((!) ps) is) = mset ps"
  using assms
proof (induction "is" arbitrary: s ps)
  case (Cons i is')
  let ?ps = "fill_gap i ps"
  let ?s = "s\<lparr>closed := closed s @ [ps ! i], open_conns := removeAll (ps ! i) (open_conns s), ws := map Some ?ps\<rparr>"
  have i: "i < length ps" "ps ! i \<in> set (open_conns s)" using Cons.prems by auto
  note g = fill_gap [OF i(1)]
  have same: "map ((!) ?ps) is' = map ((!) ps) is'" using Cons.prems(4) g(3) by simp
  have "distinct (ps ! i # ?ps)"
    using Cons.prems(2) g(1) by (metis mset.simps(2) mset_eq_imp_distinct_iff)
  moreover have "set ?ps \<subseteq> set ps" using g(1) by (metis set_mset_add_mset_insert set_mset_mset subset_insertI)
  ultimately have "distinct ?ps" "set ?ps \<subseteq> set (open_conns ?s)" using Cons.prems(3) by auto
  moreover have "\<forall>j \<in> set is'. j < length ?ps" using Cons.prems(4) i(1) g(2) by auto
  ultimately obtain qs where q: "drop_loop is' ?s = (?s\<lparr>closed := closed ?s @ map ((!) ?ps) is',
        open_conns := filter (\<lambda>c. c \<notin> (!) ?ps ` set is') (open_conns ?s), ws := map Some qs\<rparr>, Ret ())"
      "mset qs + mset (map ((!) ?ps) is') = mset ?ps"
    using Cons.IH [of ?s ?ps] Cons.prems(4) by auto
  have "(!) ?ps ` set is' = (!) ps ` set is'" using same by (metis list.set_map)
  then show ?case
    using q g(1) dropSubscriber_live [OF Cons.prems(1) i]
    by (intro exI [of _ qs]) (auto simp: same removeAll_filter_not_eq conj_commute eq_commute)
next
  case Nil
  then show ?case by (cases s) auto
qed

lemma notify_live:
  assumes "all_live s"
  shows "\<exists>s'. NotifySubscribers can_write topic message s = (s', Ret ()) \<and> all_live s' \<and>
    mset (subscribers s') = mset (filter can_write (subscribers s)) \<and>
    delivered s' = delivered s @ map (\<lambda>p. (p, \<lparr>Topic = topic, Message = message\<rparr>)) (filter can_write (subscribers s)) \<and>
    closed s' = closed s @ rev (filter (\<lambda>p. \<not> can_write p) (subscribers s))"
proof -
  obtain ps where ps: "ws s = map Some ps" "distinct ps" "set ps \<subseteq> set (open_conns s)"
    using assms by (auto simp: all_live_iff)
  note sub = subscribers_map [OF ps(1)]
  let ?bad = "failing can_write 0 ps"
  let ?s = "s\<lparr>dropList := ?bad, delivered := delivered s @ map (\<lambda>p. (p, \<lparr>Topic = topic, Message = message\<rparr>)) (filter can_write ps)\<rparr>"
  have loop: "NotifySubscribers can_write topic message s = dropSubscribers ?s"
    using notify_loop_live [of ps "s\<lparr>dropList := []\<rparr>"] ps(1,3) by (simp add: NotifySubscribers_def)
  have bad: "map ((!) ps) ?bad = filter (\<lambda>p. \<not> can_write p) ps" using failing_nth [of ps 0 can_write] by simp
  have "sorted_wrt (>) (rev ?bad)" using failing_sorted by (simp add: sorted_wrt_rev)
  moreover have "\<forall>i \<in> set (rev ?bad). i < length ps" using failing_bounds [of _ can_write 0 ps] by auto
  ultimately obtain qs where q: "drop_loop (rev ?bad) ?s = (?s\<lparr>closed := closed ?s @ map ((!) ps) (rev ?bad),
        open_conns := filter (\<lambda>c. c \<notin> (!) ps ` set (rev ?bad)) (open_conns ?s), ws := map Some qs\<rparr>, Ret ())"
      "mset qs + mset (map ((!) ps) (rev ?bad)) = mset ps"
    using drop_loop_live [of ?s ps "rev ?bad"] ps by auto
  have "mset (filter can_write ps) + mset (filter (\<lambda>p. \<not> can_write p) ps) = mset ps"
    using multiset_partition [of "mset ps" can_write] by simp
  then have m: "mset qs = mset (filter can_write ps)" using q(2) by (metis add_right_imp_eq bad mset_rev rev_map)
  have keep: "set qs = {p \<in> set ps. can_write p}" using mset_eq_setD [OF m] by simp
  have "(!) ps ` set ?bad = {p \<in> set ps. \<not> can_write p}" using arg_cong [OF bad, of set] by simp
  moreover have "distinct qs" using m ps(2) mset_eq_imp_distinct_iff by (metis distinct_filter)
  ultimately have live: "all_live (fst (drop_loop (rev ?bad) ?s))"
    using keep ps(3) by (auto simp: q(1) all_live_iff)
  show ?thesis
  proof (cases "?bad = [] \<or> ps = []")
    case True
    then have "filter (\<lambda>p. \<not> can_write p) ps = []" using bad by auto
    then have "filter can_write ps = ps" by (simp add: filter_id_conv filter_empty_conv)
    moreover have "dropSubscribers ?s = (?s, Ret ())" using True ps(1) by (auto simp: dropSubscribers_def)
    moreover have "subscribers ?s = ps" by (rule subscribers_map) (simp add: ps(1))
    moreover have "all_live ?s" using ps by (auto simp: all_live_iff)
    ultimately show ?thesis using loop \<open>filter (\<lambda>p. \<not> can_write p) ps = []\<close> by (simp add: sub)
  next
    case False
    then have "dropSubscribers ?s = drop_loop (rev ?bad) ?s" using ps(1) by (simp add: dropSubscribers_def)
    moreover have "subscribers (fst (drop_loop (rev ?bad) ?s)) = qs" by (rule subscribers_map) (simp add: q(1))
    ultimately show ?thesis using loop live q(1) m bad by (simp add: sub flip: rev_map)
  qed
qed

lemma reachable_live: "ws_reachable s \<Longrightarrow> all_live s"
proof (induction rule: rtranclp_induct)
  case base
  then show ?case by (simp add: no_subscribers_def all_live_iff)
next
  case (step s s')
  from step(2) show ?case
  proof (cases rule: ws_step.cases)
    case (register c can_write)
    obtain ps where "ws s = map Some ps" "distinct ps" "set ps \<subseteq> set (open_conns s)"
      using step(3) by (auto simp: all_live_iff)
    then show ?thesis
      using register by (auto simp: all_live_iff RegisterWebsocket_def Let_def intro!: exI [of _ "ps @ [c]"])
  next
    case (notify can_write topic message)
    then show ?thesis using notify_live [OF step(3)] by (metis fst_conv)
  qed
qed

section \<open>Properties\<close>

text \<open>
  C15. Whatever connections register and whatever messages were sent before, sending a message does
  not panic; every subscriber it can be written to gets it exactly once, in the order of the list,
  and these stay subscribed; the others are closed and dropped, and nobody else is.
\<close>

theorem notify_subscribers:
  assumes "ws_reachable s"
  shows "\<exists>s'. NotifySubscribers can_write topic message s = (s', Ret ()) \<and> ws_reachable s' \<and>
    None \<notin> set (ws s') \<and> distinct (subscribers s') \<and>
    mset (subscribers s') = mset (filter can_write (subscribers s)) \<and>
    delivered s' = delivered s @ map (\<lambda>p. (p, \<lparr>Topic = topic, Message = message\<rparr>)) (filter can_write (subscribers s)) \<and>
    closed s' = closed s @ rev (filter (\<lambda>p. \<not> can_write p) (subscribers s))"
proof -
  have "ws_reachable (fst (NotifySubscribers can_write topic message s))"
    using assms ws_step.notify by (rule rtranclp.rtrancl_into_rtrancl)
  then show ?thesis
    using notify_live [OF reachable_live [OF assms], of can_write topic message] by (auto simp: all_live_def)
qed

definition three_subscribers :: "string ws_state" where
  "three_subscribers = fold (\<lambda>c s. RegisterWebsocket (\<lambda>_. True) c (s\<lparr>open_conns := c # open_conns s\<rparr>)) [1, 2, 3] no_subscribers"

lemma notify_subscribers_witness:
  "\<exists>s'. NotifySubscribers (\<lambda>c. c \<noteq> 1) ''t'' (PText ''x'') three_subscribers = (s', Ret ()) \<and>
    mset (subscribers s') = {#2, 3#} \<and> closed s' = [1]"
proof -
  have reg: "ws_reachable (RegisterWebsocket (\<lambda>_. True) c (s\<lparr>open_conns := c # open_conns s\<rparr>))"
    if "ws_reachable s" "c \<notin> set (open_conns s)" for c and s :: "string ws_state"
    using that(1) ws_step.register [OF that(2)] by (rule rtranclp.rtrancl_into_rtrancl)
  have "ws_reachable three_subscribers"
    unfolding three_subscribers_def fold.simps comp_def id_apply
    by (rule reg, rule reg, rule reg, rule rtranclp.rtrancl_refl) (simp_all add: RegisterWebsocket_def no_subscribers_def)
  moreover have "subscribers three_subscribers = [1, 2, 3]" "closed three_subscribers = []"
    by (simp_all add: three_subscribers_def RegisterWebsocket_def no_subscribers_def subscribers_def map_filter_simps)
  ultimately show ?thesis
    using notify_subscribers [of three_subscribers "\<lambda>c. c \<noteq> 1" "''t''" "PText ''x''"] by auto
qed

end
