(* ===== verification/Logger.thy ===== *)
theory Logger imports Gorm GoFmt Websockets begin

text \<open>
  The log (\<^verbatim>\<open>logger/logger.go\<close>): entries in the database with the oldest ones purged, the line
  printed, and the errors shown to the subscribers. The database is \<open>None\<close> until it is connected;
  the log table is a parameter, as is the clock.
\<close>

record 'd log_state =
  logDB :: "'d option"
  log_lines :: "string list"

section \<open>Operations\<close>

text \<open>One turn of the loop of \<^verbatim>\<open>purge\<close>: without a row there is no key, and nothing is deleted.\<close>

definition purge_one :: "(LogEntry, 'd) gorm \<Rightarrow> 'd \<Rightarrow> 'd" where
  "purge_one G d = (case g_first G (\<lambda>_. True) d of
      None \<Rightarrow> d
    | Some r \<Rightarrow> fst (g_delete G (\<lambda>x. lID x = lID r) d))"

function purge_loop :: "(LogEntry, 'd) gorm \<Rightarrow> nat \<Rightarrow> 'd \<Rightarrow> 'd" where
  "purge_loop G result d =
     (if result > 1000 then purge_loop G (result - 1) (purge_one G d) else d)"
  by pat_completeness auto
termination by (relation "measure (\<lambda>(_, result, _). result)") auto

declare purge_loop.simps [simp del]

definition purge :: "(LogEntry, 'd) gorm \<Rightarrow> 'd option \<Rightarrow> 'd option" where
  "purge G db = map_option (\<lambda>d. purge_loop G (length (rows G d)) d) db"

definition log_entry :: "int \<Rightarrow> string \<Rightarrow> string \<Rightarrow> string \<Rightarrow> LogEntry" where
  "log_entry now category title msg =
     \<lparr>lID = 0, lTime = now, Source = '''', Category = category, lTitle = title, lDescription = msg\<rparr>"

text \<open>The text is printed as a format without arguments.\<close>

definition Log :: "(LogEntry, 'd) gorm \<Rightarrow> int \<Rightarrow> string \<Rightarrow> string \<Rightarrow> string \<Rightarrow> 'd log_state \<Rightarrow> 'd log_state \<times> string" where
  "Log G now category title msg s =
     (let entry = log_entry now category title msg;
          db = map_option (\<lambda>d. fst (g_create G entry d)) (logDB s);
          text = Sprintf ''%s: %s, %s'' [AStr category, AStr title, AStr msg]
      in (s\<lparr>logDB := purge G db, log_lines := log_lines s @ [Sprintf text []]\<rparr>, text))"

text \<open>The error returned is again built from the text as a format.\<close>

definition Trace_log :: "(LogEntry, 'd) gorm \<Rightarrow> int \<Rightarrow> string \<Rightarrow> string \<Rightarrow> fmt_arg list \<Rightarrow> 'd log_state \<Rightarrow> 'd log_state \<times> string" where
  "Trace_log G now title format args s =
     (let msg = Sprintf format args; (s', text) = Log G now ''trace'' title msg s
      in (s', Sprintf text []))"

definition Error :: "(LogEntry, 'd) gorm \<Rightarrow> int \<Rightarrow> (nat \<Rightarrow> bool) \<Rightarrow> string \<Rightarrow> string \<Rightarrow> fmt_arg list \<Rightarrow>
    'd log_state \<times> 'm ws_state \<Rightarrow> ('d log_state \<times> 'm ws_state) \<times> string outcome" where
  "Error G now can_write title format args sw = (case sw of (s, w) \<Rightarrow>
     let msg = Sprintf format args; (s', text) = Log G now ''error'' title msg s in
     case NotifySubscribers can_write ''logger.error'' (PText (Sprintf ''%s: %s'' [AStr title, AStr msg])) w of
       (w', Ret _) \<Rightarrow> ((s', w'), Ret (Sprintf text []))
     | (w', Panic m) \<Rightarrow> ((s', w'), Panic m)
     | (w', Fatal m) \<Rightarrow> ((s', w'), Fatal m)
     | (w', NoReturn) \<Rightarrow> ((s', w'), NoReturn))"

section \<open>The log table\<close>

abbreviation with_lID :: "nat \<Rightarrow> LogEntry \<Rightarrow> LogEntry" where
  "with_lID k r \<equiv> r\<lparr>lID := k\<rparr>"

definition log_table :: "(LogEntry, LogEntry list) gorm" where
  "log_table = list_table lID with_lID"

interpretation log_rows: gorm_reliable log_table lID with_lID "list_inv lID"
  unfolding log_table_def by (rule list_table_reliable) simp

lemma rows_log_table: "rows log_table d = d"
  by (simp add: log_table_def rows_list_table)

text \<open>The last entries of the log.\<close>

definition newest :: "'a list \<Rightarrow> 'a list" where
  "newest rs = drop (length rs - 1000) rs"

lemma length_newest: "length (newest rs) \<le> 1000"
  by (simp add: newest_def)

context gorm_reliable begin

lemma first_hd: "inv d \<Longrightarrow> g_first G (\<lambda>_. True) d = (case rows G d of [] \<Rightarrow> None | r # _ \<Rightarrow> Some r)"
  by (simp add: first)

lemma delete_first:
  assumes "inv d" and "rows G d = r # rs"
  shows "rows G (fst (g_delete G (\<lambda>x. pk x = pk r) d)) = rs \<and> inv (fst (g_delete G (\<lambda>x. pk x = pk r) d))"
proof -
  have "\<forall>x \<in> set rs. pk x \<noteq> pk r" using distinct_keys [OF assms(1)] assms(2) by (auto simp: image_iff)
  then have "filter (\<lambda>x. pk x \<noteq> pk r) (rows G d) = rs" using assms(2) by (auto simp: filter_id_conv)
  then show ?thesis using delete_rows [OF assms(1), of "\<lambda>x. pk x = pk r"] by (metis fst_conv)
qed

end

lemma purge_one_rows:
  assumes "gorm_reliable G lID with_lID ok" and "ok d"
  shows "rows G (purge_one G d) = tl (rows G d) \<and> ok (purge_one G d)"
  using gorm_reliable.first_hd [OF assms] gorm_reliable.delete_first [OF assms] assms(2)
  by (auto simp: purge_one_def split: list.splits)

lemma purge_loop_rows:
  assumes "gorm_reliable G lID with_lID ok" and "ok d"
  shows "rows G (purge_loop G n d) = drop (n - 1000) (rows G d) \<and> ok (purge_loop G n d)"
  using assms(2)
proof (induction n arbitrary: d)
  case 0
  then show ?case by (simp add: purge_loop.simps)
next
  case (Suc n)
  show ?case
  proof (cases "Suc n > 1000")
    case True
    have "Suc n - 1000 = Suc (n - 1000)" using True by simp
    then show ?thesis
      using Suc.IH [of "purge_one G d"] purge_one_rows [OF assms(1) Suc.prems] True
      by (simp add: purge_loop.simps [of G "Suc n"] drop_Suc)
  next
    case False
    then show ?thesis using Suc.prems by (simp add: purge_loop.simps [of G "Suc n"])
  qed
qed

lemma log_rows_newest:
  assumes "gorm_reliable G lID with_lID ok" and "logDB s = Some d" and "ok d"
  shows "\<exists>d' k. logDB (fst (Log G now c t m s)) = Some d' \<and> ok d' \<and>
    rows G d' = newest (rows G d @ [with_lID k (log_entry now c t m)])"
proof -
  obtain d1 k where "g_create G (log_entry now c t m) d = (d1, Some (with_lID k (log_entry now c t m)))"
      "rows G d1 = rows G d @ [with_lID k (log_entry now c t m)]" "ok d1"
    using gorm_reliable.create_rows [OF assms(1,3), of "log_entry now c t m"] by (auto simp: log_entry_def)
  then show ?thesis
    using purge_loop_rows [OF assms(1), of d1 "length (rows G d1)"] assms(2)
    by (auto simp: Log_def Let_def purge_def newest_def)
qed

text \<open>A format without directives.\<close>

lemma parse_plain: "CHR ''%'' \<notin> set s \<Longrightarrow> parse_fmt (s @ t) = map Lit s @ parse_fmt t"
  by (induction s) auto

lemma sprintf_lits: "sprintf_items (map Lit s @ is) as = s @ sprintf_items is as"
  by (induction s) simp_all

lemma Sprintf_plain: "CHR ''%'' \<notin> set s \<Longrightarrow> Sprintf s [] = s"
  using parse_plain [of s "[]"] sprintf_lits [of s "[]" "[]"] by (simp add: Sprintf_def fmt_extra_def)

lemma log_text: "Sprintf ''%s: %s, %s'' [AStr c, AStr t, AStr m] = c @ '': '' @ t @ '', '' @ m"
  by (simp add: Sprintf_def is_digit_def fmt_arg_verb_def fmt_extra_def)

lemma Sprintf_missing:
  assumes "CHR ''%'' \<notin> set h" and "CHR ''%'' \<notin> set b"
  shows "Sprintf (h @ ''%d'' @ b) [] = h @ ''%!d(MISSING)'' @ b"
proof -
  have "parse_fmt (h @ ''%d'' @ b) = map Lit h @ Verb [] (CHR ''d'') # map Lit b"
    using parse_plain [OF assms(1), of "''%d'' @ b"] parse_plain [OF assms(2), of "[]"] by (simp add: is_digit_def)
  then show ?thesis
    using sprintf_lits [of b "[]" "[]"] by (simp add: Sprintf_def sprintf_lits fmt_extra_def)
qed

section \<open>Properties\<close>

text \<open>
  C32. Logging always adds the entry and leaves the 1000 newest entries in the table, in their order;
  a table once within that bound stays within it.
\<close>

theorem log_keeps_newest:
  assumes "gorm_reliable G lID with_lID ok" and "logDB s = Some d" and "ok d"
  shows "\<exists>d' k. logDB (fst (Log G now c t m s)) = Some d' \<and> ok d' \<and>
    rows G d' = newest (rows G d @ [with_lID k (log_entry now c t m)]) \<and>
    length (rows G d') \<le> 1000 \<and> last (rows G d') = with_lID k (log_entry now c t m) \<and>
    (length (rows G d) < 1000 \<longrightarrow> rows G d' = rows G d @ [with_lID k (log_entry now c t m)])"
proof -
  have "last (newest (xs @ [x])) = x" "length xs < 1000 \<Longrightarrow> newest (xs @ [x]) = xs @ [x]" for xs and x :: LogEntry
    by (simp_all add: newest_def)
  moreover obtain d' k where "logDB (fst (Log G now c t m s)) = Some d'" "ok d'"
      "rows G d' = newest (rows G d @ [with_lID k (log_entry now c t m)])"
    using log_rows_newest [OF assms, of now c t m] by blast
  ultimately show ?thesis using length_newest by (intro exI [of _ d'] exI [of _ k]) simp
qed

lemma log_keeps_newest_witness:
  "\<exists>k. logDB (fst (Log log_table 5 ''info'' ''a'' ''b'' \<lparr>logDB = Some [], log_lines = []\<rparr>)) =
    Some [with_lID k (log_entry 5 ''info'' ''a'' ''b'')]"
proof -
  let ?s = "\<lparr>logDB = Some [], log_lines = []\<rparr>"
  have "logDB ?s = Some []" "list_inv lID []" by (simp_all add: list_inv_def)
  from log_keeps_newest [OF log_rows.gorm_reliable_axioms this, of 5 "''info''" "''a''" "''b''"]
  obtain d' k where "logDB (fst (Log log_table 5 ''info'' ''a'' ''b'' ?s)) = Some d'"
      "d' = [with_lID k (log_entry 5 ''info'' ''a'' ''b'')]"
    by (auto simp: rows_log_table)
  then show ?thesis by (intro exI [of _ k]) simp
qed

text \<open>
  A message without a percent sign is printed and returned as it is. A directive in the
  message, for instance from a file name with \<^verbatim>\<open>%d\<close> in it, is taken for one of the format: the
  line has \<^verbatim>\<open>%!d(MISSING)\<close> in its place.
\<close>

theorem log_line:
  assumes "CHR ''%'' \<notin> set (c @ t @ a @ b)"
  shows "log_lines (fst (Log G now c t (a @ b) s)) = log_lines s @ [c @ '': '' @ t @ '', '' @ a @ b] \<and>
    snd (Log G now c t (a @ b) s) = c @ '': '' @ t @ '', '' @ a @ b \<and>
    log_lines (fst (Log G now c t (a @ ''%d'' @ b) s)) =
      log_lines s @ [c @ '': '' @ t @ '', '' @ a @ ''%!d(MISSING)'' @ b]"
proof -
  let ?h = "c @ '': '' @ t @ '', '' @ a"
  have h: "CHR ''%'' \<notin> set ?h" "CHR ''%'' \<notin> set b" using assms by auto
  show ?thesis
    using Sprintf_plain [of "?h @ b"] Sprintf_missing [OF h] h unfolding Log_def Let_def log_text by simp
qed

lemma log_line_witness:
  "log_lines (fst (Log log_table 5 ''error'' ''File'' ''no 100%d.txt'' \<lparr>logDB = None, log_lines = []\<rparr>)) =
    [''error: File, no 100%!d(MISSING).txt'']"
  using log_line [of "''error''" "''File''" "''no 100''" "''.txt''" log_table 5 "\<lparr>logDB = None, log_lines = []\<rparr>"] by simp

end
