(* ===== verification/OpcGroups.thy ===== *)
theory OpcGroups imports Collector Settings Proxy GoTime begin

text \<open>
  The groups of tags (\<^verbatim>\<open>engine/groups.go\<close>): looking them up, starting and stopping their collection, what
  a collector does around the values it reads, and the start of the engine's groups. The tables of
  groups and tags and the OPC client are parameters. A collector that \<^verbatim>\<open>Start\<close> has spawned
  waits in \<open>spawned\<close> with the group and the tags it was given.
\<close>

section \<open>State\<close>

record ('g, 't) engine =
  e_groups :: 'g
  e_tags :: 't
  spawned :: "(OPCGroup \<times> OPCTag list) list"
  e_events :: "event list"

definition e_emit :: "event list \<Rightarrow> ('g, 't) engine \<Rightarrow> ('g, 't) engine" where
  "e_emit es s = s\<lparr>e_events := e_events s @ es\<rparr>"

text \<open>
  The client library: connecting gives an error text or a client; adding a tag may fail; reading may
  panic, which is \<open>None\<close>.
\<close>

record ('c, 'v) opc_client =
  oc_connect :: "string \<Rightarrow> string + 'c"
  oc_add :: "string \<Rightarrow> 'c \<Rightarrow> 'c \<times> bool"
  oc_tags :: "'c \<Rightarrow> string list"
  oc_read :: "'c \<Rightarrow> 'c \<times> (string \<times> 'v Item) list option"

section \<open>Looking up groups and tags\<close>

definition GetGroups :: "(OPCGroup, 'g) gorm \<Rightarrow> ('g, 't) engine \<Rightarrow> OPCGroup list" where
  "GetGroups GG s = rows GG (e_groups s)"

definition GetGroup :: "(OPCGroup, 'g) gorm \<Rightarrow> nat \<Rightarrow> ('g, 't) engine \<Rightarrow> OPCGroup option" where
  "GetGroup GG i s = g_first GG (\<lambda>r. gID r = i) (e_groups s)"

definition GetDefaultGroup :: "(OPCGroup, 'g) gorm \<Rightarrow> ('g, 't) engine \<Rightarrow> OPCGroup option" where
  "GetDefaultGroup GG s = g_first GG DefaultGroup (e_groups s)"

text \<open>
  The columns of the table of tags that hold numbers, by the names the database library gives the fields
  \<^verbatim>\<open>ID\<close> and \<^verbatim>\<open>GroupID\<close>. A condition on a column that is not there is an error of the query.
\<close>

definition tag_column :: "string \<Rightarrow> (OPCTag \<Rightarrow> nat) option" where
  "tag_column = [''id'' \<mapsto> tID, ''group_id'' \<mapsto> tGroupID]"

definition find_tags :: "(OPCTag, 't) gorm \<Rightarrow> string \<Rightarrow> nat \<Rightarrow> 't \<Rightarrow> OPCTag list option" where
  "find_tags GT column value d = map_option (\<lambda>f. g_find GT (\<lambda>t. f t = value) d) (tag_column column)"

definition GetGroupTags :: "(OPCTag, 't) gorm \<Rightarrow> nat \<Rightarrow> ('g, 't) engine \<Rightarrow> OPCTag list option" where
  "GetGroupTags GT i s = find_tags GT ''groupid'' i (e_tags s)"

text \<open>
  The next two look at the error of their query: \<open>qerr\<close> is its text, when the query fails.
\<close>

definition tag_names :: "(OPCTag, 't) gorm \<Rightarrow> ('g, 't) engine \<Rightarrow> string list" where
  "tag_names GT s = map tName (rows GT (e_tags s))"

definition GetTagNames :: "(OPCTag, 't) gorm \<Rightarrow> string option \<Rightarrow> ('g, 't) engine \<Rightarrow> string + string list" where
  "GetTagNames GT qerr s = (case qerr of Some e \<Rightarrow> Inl e | None \<Rightarrow> Inr (tag_names GT s))"

record TagsInfos =
  tiID :: nat
  tiName :: string

definition GetTagInfos :: "(OPCTag, 't) gorm \<Rightarrow> string option \<Rightarrow> ('g, 't) engine \<Rightarrow> string + TagsInfos list" where
  "GetTagInfos GT qerr s = (case qerr of
       Some e \<Rightarrow> Inl e
     | None \<Rightarrow>
         let items = map (\<lambda>t. \<lparr>tiID = tID t, tiName = tName t\<rparr>) (rows GT (e_tags s))
         in if length items = 0 then Inl ''Could not find any tags'' else Inr items)"

section \<open>Starting and stopping\<close>

text \<open>The error texts name the group. A failed query of the tags leaves no tags.\<close>

definition group_error :: "string \<Rightarrow> OPCGroup \<Rightarrow> string" where
  "group_error what g = Sprintf (what @ '', group: %s (id: %d)'') [AStr (gName g), AInt (int (gID g))]"

definition Start :: "(OPCTag, 't) gorm \<Rightarrow> OPCGroup \<Rightarrow> ('g, 't) engine \<Rightarrow> ('g, 't) engine \<times> string option" where
  "Start GT g s =
     (if Status g \<noteq> GroupStatusNotRunning
      then let err = group_error ''Group already running'' g
           in (e_emit [Logged ''error'' ''OPC collection start failed'' err] s, Some err)
      else let tags = (case find_tags GT ''group_id'' (gID g) (e_tags s) of None \<Rightarrow> [] | Some ts \<Rightarrow> ts)
           in if length tags \<le> 0
              then let err = group_error ''Group does not have any tags defined'' g
                   in (e_emit [Logged ''error'' ''OPC collection start failed'' err] s, Some err)
              else (s\<lparr>spawned := spawned s @ [(g, tags)]\<rparr>, None))"

text \<open>The caller's group is changed as well.\<close>

definition Stop :: "(OPCGroup, 'g) gorm \<Rightarrow> OPCGroup \<Rightarrow> ('g, 't) engine \<Rightarrow> ('g, 't) engine \<times> OPCGroup \<times> string option" where
  "Stop GG g s =
     (if Status g \<noteq> GroupStatusRunning \<and> Status g \<noteq> GroupStatusRunningWithWarning
      then let err = group_error ''Group not running'' g
           in (e_emit [Logged ''error'' ''OPC collection stop failed'' err] s, g, Some err)
      else let g' = g\<lparr>Status := GroupStatusNotRunning\<rparr>
           in (s\<lparr>e_groups := fst (g_save GG g' (e_groups s))\<rparr>, g', None))"

section \<open>A collector\<close>

fun add_tags :: "('c, 'v) opc_client \<Rightarrow> OPCGroup \<Rightarrow> OPCTag list \<Rightarrow> 'c \<Rightarrow> 'c \<times> event list" where
  "add_tags oc g [] c = (c, [])"
| "add_tags oc g (t # ts) c =
     (let (c1, ok) = oc_add oc (tName t) c; (c2, es) = add_tags oc g ts c1
      in (c2, if ok then es else Logged ''warning'' ''Unable to collect tag''
            (Sprintf ''%s, group: %s, progid: %s'' [AStr (tName t), AStr (gName g), AStr (ProgID g)]) # es))"

text \<open>\<^verbatim>\<open>read\<close> recovers from a panic of the client and gives an empty map; the mutex is free again.\<close>

definition read_items :: "('c, 'v) opc_client \<Rightarrow> 'c \<Rightarrow> 'c \<times> (string \<times> 'v Item) list" where
  "read_items oc c = (case oc_read oc c of (c', Some items) \<Rightarrow> (c', items) | (c', None) \<Rightarrow> (c', []))"

text \<open>
  Until the loop: \<open>None\<close> when the collector gives up. A ticker for an interval that is not positive, as
  64-bit nanoseconds, panics; \<^verbatim>\<open>handlePanic\<close> recovers, prints, and the collector has ended.
\<close>

definition ticker_ok :: "OPCGroup \<Rightarrow> bool" where
  "ticker_ok g \<longleftrightarrow> int64 (Interval g * 1000000000) > 0"

definition collector_start :: "(OPCGroup, 'g) gorm \<Rightarrow> ('c, 'v) opc_client \<Rightarrow> 'v \<Rightarrow> OPCGroup \<times> OPCTag list \<Rightarrow>
    ('g, 't) engine \<Rightarrow> ('g, 't) engine \<times> (OPCGroup \<times> 'c \<times> ('v, 'j) col_state) option" where
  "collector_start GG oc z gt s = (case gt of (g, tags) \<Rightarrow>
     if \<not> ticker_ok g then (s, None)
     else case oc_connect oc (ProgID g) of
       Inl err \<Rightarrow> (e_emit [Logged ''error'' ''Failed to connect OPC DA server''
           (Sprintf ''Group: %s, progid: %s, err: %s'' [AStr (gName g), AStr (ProgID g), AStr err]), Notified ''group.failed''] s, None)
     | Inr c \<Rightarrow>
         let (c1, es) = add_tags oc g tags c; s1 = e_emit es s; n = length (oc_tags oc c1)
         in if n = 0
            then (e_emit [Logged ''error'' ''No tags to collect''
                (Sprintf ''Group: %s, progid: %s'' [AStr (gName g), AStr (ProgID g)]), Notified ''group.failed''] s1, None)
            else let s2 = e_emit [Logged ''trace'' ''Collecting tags''
                      (Sprintf ''%d tags from group: %s'' [AInt (int n), AStr (gName g)])] s1;
                     (c2, _) = read_items oc c1;
                     (g1, s3) = (if n \<noteq> length tags
                       then (g\<lparr>Status := GroupStatusRunningWithWarning\<rparr>, e_emit [Notified ''group.warning''] s2)
                       else (g\<lparr>Status := GroupStatusRunning\<rparr>, e_emit [Notified ''group.started''] s2));
                     g2 = g1\<lparr>Counter := 0\<rparr>
                 in (s3\<lparr>e_groups := fst (g_save GG g2 (e_groups s3))\<rparr>, Some (g2, c2, new_collection z g2)))"

text \<open>
  \<^verbatim>\<open>Updates\<close> with a struct sets the columns of its fields that are not zero, in the row with the group's
  key; a row that is gone is not written.
\<close>

definition update_run :: "(OPCGroup, 'g) gorm \<Rightarrow> OPCGroup \<Rightarrow> 'g \<Rightarrow> 'g" where
  "update_run GG g d = (case g_first GG (\<lambda>r. gID r = gID g) d of
       None \<Rightarrow> d
     | Some r \<Rightarrow> fst (g_save GG (r\<lparr>LastRun := (if LastRun g = 0 then LastRun r else LastRun g),
                               Counter := (if Counter g = 0 then Counter r else Counter g)\<rparr>) d))"

datatype ('c, 'v, 'j) round = Stopped | Went OPCGroup 'c "('v, 'j) col_state" | Stuck "('v, 'j) col_state" "unit outcome"

text \<open>One turn of the loop, up to the wait for the ticker.\<close>

definition collector_round :: "(OPCGroup, 'g) gorm \<Rightarrow> ('c, 'v) opc_client \<Rightarrow> ('v DataMessage \<Rightarrow> 'j) \<Rightarrow> (nat \<Rightarrow> DiodeProxy option) \<Rightarrow>
    bool \<Rightarrow> int \<Rightarrow> OPCGroup \<times> 'c \<times> ('v, 'j) col_state \<Rightarrow> ('g, 't) engine \<Rightarrow> ('g, 't) engine \<times> ('c, 'v, 'j) round" where
  "collector_round GG oc json first up now gcs s = (case gcs of (g, c, col) \<Rightarrow>
     if (\<exists>r. GetGroup GG (gID g) s = Some r \<and> Status r = GroupStatusNotRunning)
     then (e_emit [Logged ''info'' ''OPC group stopped'' (Sprintf ''Group interval timer STOPPED, group: %s'' [AStr (gName g)]),
            Notified ''group.stopped''] s, Stopped)
     else let (c', items) = read_items oc c in
       case collect_items json first up items col of
         (col', Ret _) \<Rightarrow>
           (let g' = g\<lparr>LastRun := now, Counter := Counter g + of_nat (length items)\<rparr>
            in (e_emit [Notified ''data.group''] (s\<lparr>e_groups := update_run GG g' (e_groups s)\<rparr>), Went g' c' col'))
       | (col', Panic m) \<Rightarrow> (s, Stuck col' (Panic m))
       | (col', Fatal m) \<Rightarrow> (s, Stuck col' (Fatal m))
       | (col', NoReturn) \<Rightarrow> (s, Stuck col' NoReturn))"

section \<open>Starting the engine's groups\<close>

fun init_items :: "(OPCGroup, 'g) gorm \<Rightarrow> (OPCTag, 't) gorm \<Rightarrow> OPCGroup list \<Rightarrow> ('g, 't) engine \<Rightarrow> ('g, 't) engine" where
  "init_items GG GT [] s = s"
| "init_items GG GT (item # items) s =
     (let item' = item\<lparr>Status := GroupStatusNotRunning\<rparr>;
          s1 = s\<lparr>e_groups := fst (g_save GG item' (e_groups s))\<rparr>
      in init_items GG GT items (if RunAtStart item' then fst (Start GT item' s1) else s1))"

fun init_proxies :: "(string \<Rightarrow> string option) \<Rightarrow> DiodeProxy list \<Rightarrow> px_state \<Rightarrow> px_state" where
  "init_proxies dial [] px = px"
| "init_proxies dial (p # ps) px = init_proxies dial ps (fst (snd (initProxy dial p px)))"

definition InitGroups :: "(OPCGroup, 'g) gorm \<Rightarrow> (OPCTag, 't) gorm \<Rightarrow> (KeyValuePair, 'k) gorm \<Rightarrow> (DiodeProxy, 'p) gorm \<Rightarrow>
    (string \<Rightarrow> string option) \<Rightarrow> 'p \<Rightarrow> ('g, 't) engine \<times> 'k \<times> px_state \<Rightarrow> ('g, 't) engine \<times> 'k \<times> px_state" where
  "InitGroups GG GT GS GP dial dp skp = (case skp of (s, k, px) \<Rightarrow>
     (init_items GG GT (GetGroups GG s) s,
      fst (InitSetting GS ''tagpathdelimiter'' ''.'' ''Delimiter in OPC DA tag paths. Differs between OPC DA servers'' k),
      init_proxies dial (rows GP dp) px))"

section \<open>Meta data\<close>

text \<open>
  The batches of one round of \<^verbatim>\<open>metaSender\<close>, from index \<open>i\<close>; the size of the last one stays in force,
  so a size of 0 would never end.
\<close>

partial_function (option) meta_batches :: "nat \<Rightarrow> nat \<Rightarrow> 'a list \<Rightarrow> 'a list list option" where
  "meta_batches i batchsize tags =
     (if i < length tags
      then let size = (if i + batchsize > length tags then length tags - i else batchsize)
           in Option.bind (meta_batches (i + size) size tags) (\<lambda>bs. Some (take size (drop i tags) # bs))
      else Some [])"

text \<open>
  One round: what is written, and the errors logged. \<open>None\<close> would be a round that does not end. The
  error of \<^verbatim>\<open>GetTagInfos\<close> is not looked at: then, and with no tags, nothing is sent.
\<close>

definition meta_round :: "(OPCTag, 't) gorm \<Rightarrow> string option \<Rightarrow> (TagsInfos list \<Rightarrow> bytes) \<Rightarrow> (bytes \<Rightarrow> string option) \<Rightarrow> ('g, 't) engine \<Rightarrow>
    (bytes list \<times> event list) option" where
  "meta_round GT qerr json wr s =
     map_option (\<lambda>bs. (filter (\<lambda>m. wr m = None) (map json bs),
         concat (map (\<lambda>m. case wr m of None \<Rightarrow> []
             | Some e \<Rightarrow> error_events ''Groups engine'' (Sprintf ''Failed to send meta data: %s'' [AStr e])) (map json bs))))
       (meta_batches 0 100 (case GetTagInfos GT qerr s of Inl _ \<Rightarrow> [] | Inr tags \<Rightarrow> tags))"

definition metaSender :: "(OPCTag, 't) gorm \<Rightarrow> string option \<Rightarrow> (TagsInfos list \<Rightarrow> bytes) \<Rightarrow> (string \<Rightarrow> string option) \<Rightarrow> (bytes \<Rightarrow> string option) \<Rightarrow>
    DiodeProxy \<Rightarrow> ('g, 't) engine \<Rightarrow> event list \<times> (bytes list \<times> event list) option" where
  "metaSender GT qerr json dial wr p s =
     (let address = px_target p (MetaPort p); es = [Logged ''trace'' ''Setting up outgoing META'' address] in
      case dial address of
        Some e \<Rightarrow> (es @ error_events ''Groups engine''
          (Sprintf ''UDP emitter to IP: %s could not be opened, error: %s'' [AStr address, AStr e]), Some ([], []))
      | None \<Rightarrow> (es, meta_round GT qerr json wr s))"

end
