(* ===== verification/GroupRoutes.thy ===== *)
theory GroupRoutes imports OpcGroups begin

text \<open>
  The handlers for groups and tags (\<^verbatim>\<open>/opc/group\<close> and \<^verbatim>\<open>/opc/tag\<close> of \<^verbatim>\<open>routes/opc.go\<close>). A handler's
  body is parsed by the web library: the parameter \<open>parsed\<close> is the error text or the value. \<open>db_err\<close> is the text of
  a database error. A reply is a status code and a body; a handler that returns an error is
  answered by the web library with 500 and its text.
\<close>

datatype body =
    JGroups "OPCGroup list"
  | JGroup OPCGroup
  | JGroupErr OPCGroup string
  | JTags "OPCTag list"
  | JNames "string list"
  | JCounts "(string \<times> int) list"
  | JDeleted "string list"
  | JError string
  | JText string
  | JEmpty
  | JNothing

type_synonym http = "int \<times> body"

text \<open>\<^verbatim>\<open>handleError\<close>: an error value as JSON is the empty object.\<close>

definition handleError :: http where
  "handleError = (400, JEmpty)"

text \<open>\<^verbatim>\<open>gid, _ := strconv.Atoi(...)\<close> and \<^verbatim>\<open>uint(gid)\<close>\<close>

definition gid_param :: "string \<Rightarrow> nat" where
  "gid_param p = nat (uint64 (fst (Atoi p)))"

section \<open>Groups\<close>

definition GetGroups_route :: "(OPCGroup, 'g) gorm \<Rightarrow> ('g, 't) engine \<Rightarrow> ('g, 't) engine \<times> http" where
  "GetGroups_route GG s =
     (let groups = GetGroups GG s; found = (\<exists>g \<in> set groups. DefaultGroup g) in
      if \<not> found \<and> length groups > 0
      then let g0 = (hd groups)\<lparr>DefaultGroup := True\<rparr>
           in (s\<lparr>e_groups := fst (g_save GG g0 (e_groups s))\<rparr>, (200, JGroups (g0 # tl groups)))
      else (s, (200, JGroups groups)))"

text \<open>
  \<open>reset\<close> is the statement \<^verbatim>\<open>update opc_groups set 'default_group' = false\<close>, with its error; an error is
  logged and the handler goes on.
\<close>

definition reset_flags :: "string \<Rightarrow> ('g \<Rightarrow> 'g \<times> string option) \<Rightarrow> ('g, 't) engine \<Rightarrow> ('g, 't) engine" where
  "reset_flags who reset s = (case reset (e_groups s) of
       (d, None) \<Rightarrow> s\<lparr>e_groups := d\<rparr>
     | (d, Some e) \<Rightarrow> e_emit [Logged ''error'' (who @ '' failed to reset default group flag'') e] (s\<lparr>e_groups := d\<rparr>))"

definition NewGroup :: "(OPCGroup, 'g) gorm \<Rightarrow> ('g \<Rightarrow> 'g \<times> string option) \<Rightarrow> string \<Rightarrow> string + OPCGroup \<Rightarrow> ('g, 't) engine \<Rightarrow>
    ('g, 't) engine \<times> http" where
  "NewGroup GG reset db_err parsed s = (case parsed of
       Inl err \<Rightarrow> (e_emit [Logged ''error'' ''NewGroup failed (bind)'' err] s, (503, JText err))
     | Inr g \<Rightarrow>
         let s1 = (if DefaultGroup g then reset_flags ''NewGroup'' reset s else s) in
         case g_save GG g (e_groups s1) of
           (d, None) \<Rightarrow> (e_emit [Logged ''error'' ''NewGroup failed (save)'' db_err] (s1\<lparr>e_groups := d\<rparr>), (503, JText db_err))
         | (d, Some _) \<Rightarrow> GetGroups_route GG (s1\<lparr>e_groups := d\<rparr>))"

text \<open>The body comes with the id of its proxy object.\<close>

definition UpdateGroup :: "(OPCGroup, 'g) gorm \<Rightarrow> ('g \<Rightarrow> 'g \<times> string option) \<Rightarrow> string \<Rightarrow> string + OPCGroup \<times> nat \<Rightarrow> ('g, 't) engine \<Rightarrow>
    ('g, 't) engine \<times> http" where
  "UpdateGroup GG reset db_err parsed s = (case parsed of
       Inl err \<Rightarrow> (e_emit [Logged ''error'' ''UpdateGroup failed (bind)'' err] s, (503, JText err))
     | Inr (data, proxyid) \<Rightarrow>
        (case g_first GG (\<lambda>r. gID r = gID data) (e_groups s) of
           None \<Rightarrow> (e_emit [Logged ''error'' ''UpdateGroup failed (first)'' db_err] s, (503, JText db_err))
         | Some g \<Rightarrow>
             let s1 = (if DefaultGroup data then reset_flags ''UpdateGroup'' reset s else s);
                 g' = g\<lparr>gName := gName data, gDescription := gDescription data, DefaultGroup := DefaultGroup data,
                        DiodeProxyID := proxyid, Interval := Interval data, RunAtStart := RunAtStart data\<rparr> in
             case g_save GG g' (e_groups s1) of
               (d, None) \<Rightarrow> (e_emit [Logged ''error'' ''UpdateGroup failed (save)'' db_err] (s1\<lparr>e_groups := d\<rparr>), (503, JText db_err))
             | (d, Some _) \<Rightarrow> GetGroups_route GG (s1\<lparr>e_groups := d\<rparr>)))"

definition GetGroup_route :: "(OPCGroup, 'g) gorm \<Rightarrow> string \<Rightarrow> ('g, 't) engine \<Rightarrow> http" where
  "GetGroup_route GG p s = (case GetGroup GG (gid_param p) s of None \<Rightarrow> handleError | Some g \<Rightarrow> (200, JGroup g))"

definition GetGroupTags_route :: "(OPCTag, 't) gorm \<Rightarrow> string \<Rightarrow> ('g, 't) engine \<Rightarrow> http" where
  "GetGroupTags_route GT p s = (case GetGroupTags GT (gid_param p) s of None \<Rightarrow> handleError | Some ts \<Rightarrow> (200, JTags ts))"

definition GetGroupStart :: "(OPCGroup, 'g) gorm \<Rightarrow> (OPCTag, 't) gorm \<Rightarrow> string \<Rightarrow> ('g, 't) engine \<Rightarrow> ('g, 't) engine \<times> http" where
  "GetGroupStart GG GT p s = (case GetGroup GG (gid_param p) s of
       None \<Rightarrow> (s, handleError)
     | Some g \<Rightarrow>
        (case Start GT g s of
           (s', Some err) \<Rightarrow> (s', (500, JGroupErr g err))
         | (s', None) \<Rightarrow> (s', (200, JGroup g))))"

definition GetGroupStop :: "(OPCGroup, 'g) gorm \<Rightarrow> string \<Rightarrow> ('g, 't) engine \<Rightarrow> ('g, 't) engine \<times> http" where
  "GetGroupStop GG p s = (case GetGroup GG (gid_param p) s of
       None \<Rightarrow> (s, handleError)
     | Some g \<Rightarrow>
        (case Stop GG g s of
           (s', g', Some err) \<Rightarrow> (s', (500, JGroupErr g' err))
         | (s', g', None) \<Rightarrow> (s', (200, JGroup g'))))"

section \<open>Tags\<close>

text \<open>The first row with the name gets the group; the outcome of the save is not looked at.\<close>

fun move_tags :: "(OPCTag, 't) gorm \<Rightarrow> nat \<Rightarrow> string list \<Rightarrow> 't \<Rightarrow> 't" where
  "move_tags GT i [] d = d"
| "move_tags GT i (tagname # items) d =
     move_tags GT i items (case g_first GT (\<lambda>t. tName t = tagname) d of
        None \<Rightarrow> d | Some tag \<Rightarrow> fst (g_save GT (tag\<lparr>tGroupID := i\<rparr>) d))"

definition PostGroupAddTag :: "(OPCGroup, 'g) gorm \<Rightarrow> (OPCTag, 't) gorm \<Rightarrow> string \<Rightarrow> string + string list \<Rightarrow> ('g, 't) engine \<Rightarrow>
    ('g, 't) engine \<times> http" where
  "PostGroupAddTag GG GT p parsed s = (case GetGroup GG (gid_param p) s of
       None \<Rightarrow> (s, handleError)
     | Some g \<Rightarrow>
        (case parsed of
           Inl err \<Rightarrow> (s, (500, JText err))
         | Inr items \<Rightarrow> (s\<lparr>e_tags := move_tags GT (gID g) items (e_tags s)\<rparr>, (200, JGroup g))))"

definition PostGroupDelTag :: "('g, 't) engine \<Rightarrow> ('g, 't) engine \<times> http" where
  "PostGroupDelTag s = (s, (200, JNothing))"

definition GetTagNames_route :: "(OPCTag, 't) gorm \<Rightarrow> string option \<Rightarrow> ('g, 't) engine \<Rightarrow> http" where
  "GetTagNames_route GT qerr s = (case GetTagNames GT qerr s of Inl _ \<Rightarrow> handleError | Inr tags \<Rightarrow> (200, JNames tags))"

record tag_counts =
  n_saved :: int
  n_failed :: int
  n_skipped :: int

definition new_tag :: "string \<Rightarrow> nat \<Rightarrow> OPCTag" where
  "new_tag name gid = \<lparr>tID = 0, tName = name, tDescription = '''', tGroupID = gid\<rparr>"

fun post_names :: "(OPCTag, 't) gorm \<Rightarrow> nat \<Rightarrow> string list \<Rightarrow> string list \<Rightarrow> 't \<times> tag_counts \<Rightarrow> 't \<times> tag_counts" where
  "post_names GT gid tagnames [] dn = dn"
| "post_names GT gid tagnames (tagname # items) (d, n) =
     post_names GT gid tagnames items
       (if \<exists>name \<in> set tagnames. tagname = name then (d, n\<lparr>n_skipped := n_skipped n + 1\<rparr>)
        else case g_create GT (new_tag tagname gid) d of
               (d', Some _) \<Rightarrow> (d', n\<lparr>n_saved := n_saved n + 1\<rparr>)
             | (d', None) \<Rightarrow> (d', n\<lparr>n_failed := n_failed n + 1\<rparr>))"

text \<open>A body that cannot be parsed leaves no items, and is answered with zero counts.\<close>

definition PostTagNames :: "(OPCGroup, 'g) gorm \<Rightarrow> (OPCTag, 't) gorm \<Rightarrow> string option \<Rightarrow> string + string list \<Rightarrow> ('g, 't) engine \<Rightarrow>
    ('g, 't) engine \<times> http" where
  "PostTagNames GG GT qerr parsed s = (case GetTagNames GT qerr s of
       Inl _ \<Rightarrow> (s, handleError)
     | Inr tagnames \<Rightarrow> (case GetDefaultGroup GG s of
       None \<Rightarrow> (s, handleError)
     | Some defaultgroup \<Rightarrow>
         let items = (case parsed of Inl _ \<Rightarrow> [] | Inr xs \<Rightarrow> xs);
             (d, n) = post_names GT (gID defaultgroup) tagnames items
                        (e_tags s, \<lparr>n_saved = 0, n_failed = 0, n_skipped = 0\<rparr>)
         in (s\<lparr>e_tags := d\<rparr>, (200, JCounts [(''saved'', n_saved n), (''failed'', n_failed n), (''skipped'', n_skipped n),
               (''total'', int (length items))]))))"

definition DeleteTagNames :: "(OPCTag, 't) gorm \<Rightarrow> string \<Rightarrow> string + string list \<Rightarrow> ('g, 't) engine \<Rightarrow> ('g, 't) engine \<times> http" where
  "DeleteTagNames GT db_err parsed s = (case parsed of
       Inl _ \<Rightarrow> (s, (200, JDeleted []))
     | Inr items \<Rightarrow>
        (case g_delete GT (\<lambda>t. tName t \<in> set items) (e_tags s) of
           (d, True) \<Rightarrow> (s\<lparr>e_tags := d\<rparr>, (200, JDeleted items))
         | (d, False) \<Rightarrow> (s\<lparr>e_tags := d\<rparr>, (500, JError db_err))))"

text \<open>The inner loop of \<^verbatim>\<open>PostTagChanges\<close>: each name that matches is a try to save, until one succeeds.\<close>

fun try_save :: "(OPCTag, 't) gorm \<Rightarrow> OPCTag \<Rightarrow> string list \<Rightarrow> 't \<Rightarrow> 't \<times> bool" where
  "try_save GT item [] d = (d, False)"
| "try_save GT item (name # names) d =
     (if tName item = name
      then (case g_save GT item d of (d', Some _) \<Rightarrow> (d', True) | (d', None) \<Rightarrow> try_save GT item names d')
      else try_save GT item names d)"

record change_counts =
  n_new :: int
  n_updated :: int
  n_fail :: int

fun post_changes :: "(OPCTag, 't) gorm \<Rightarrow> nat \<Rightarrow> string list \<Rightarrow> OPCTag list \<Rightarrow> 't \<times> change_counts \<Rightarrow> 't \<times> change_counts" where
  "post_changes GT gid tagnames [] dn = dn"
| "post_changes GT gid tagnames (item # items) (d, n) =
     post_changes GT gid tagnames items
       (case try_save GT item tagnames d of
          (d', True) \<Rightarrow> (d', n\<lparr>n_updated := n_updated n + 1\<rparr>)
        | (d', False) \<Rightarrow>
           (case g_create GT (if tGroupID item = 0 then item\<lparr>tGroupID := gid\<rparr> else item) d' of
              (d'', Some _) \<Rightarrow> (d'', n\<lparr>n_new := n_new n + 1\<rparr>)
            | (d'', None) \<Rightarrow> (d'', n\<lparr>n_fail := n_fail n + 1\<rparr>)))"

definition PostTagChanges :: "(OPCGroup, 'g) gorm \<Rightarrow> (OPCTag, 't) gorm \<Rightarrow> string option \<Rightarrow> string + OPCTag list \<Rightarrow> ('g, 't) engine \<Rightarrow>
    ('g, 't) engine \<times> http" where
  "PostTagChanges GG GT qerr parsed s = (case GetTagNames GT qerr s of
       Inl _ \<Rightarrow> (s, handleError)
     | Inr tagnames \<Rightarrow> (case GetDefaultGroup GG s of
       None \<Rightarrow> (s, handleError)
     | Some defaultgroup \<Rightarrow>
         let items = (case parsed of Inl _ \<Rightarrow> [] | Inr xs \<Rightarrow> xs);
             (d, n) = post_changes GT (gID defaultgroup) tagnames items
                        (e_tags s, \<lparr>n_new = 0, n_updated = 0, n_fail = 0\<rparr>)
         in (s\<lparr>e_tags := d\<rparr>, (200, JCounts [(''new'', n_new n), (''updated'', n_updated n), (''failed'', n_fail n),
               (''total'', int (length items))]))))"

end
