(* ===== verification/Rows.thy ===== *)
theory Rows imports Gorm begin

text \<open>
  Reading rows by their key after a write to a reliable table, and the program's tables on the concrete
  table of \<^verbatim>\<open>Gorm\<close>.
\<close>

section \<open>Reading after writing\<close>

lemma option_ext: "(\<And>y. a = Some y \<longleftrightarrow> b = Some y) \<Longrightarrow> a = b"
  by (cases a; cases b) auto

context gorm_reliable begin

lemma find_key:
  assumes "inv d" and "r \<in> set (rows G d)"
  shows "g_first G (\<lambda>x. pk x = pk r) d = Some r"
proof -
  obtain r' where r': "g_first G (\<lambda>x. pk x = pk r) d = Some r'"
    using assms by (cases "g_first G (\<lambda>x. pk x = pk r) d") (auto simp: first_NoneD)
  then have "r' \<in> set (rows G d)" "pk r' = pk r" using first_SomeD [OF assms(1)] by auto
  then have "r' = r" using distinct_keys [OF assms(1)] assms(2) by (auto simp: distinct_map inj_on_def)
  then show ?thesis using r' by simp
qed

lemma key_row: "inv d \<Longrightarrow> g_first G (\<lambda>x. pk x = i) d = Some r \<longleftrightarrow> r \<in> set (rows G d) \<and> pk r = i"
  using first_SomeD [of d "\<lambda>x. pk x = i" r] find_key [of d r] by auto

lemma key_absent: "inv d \<Longrightarrow> g_first G (\<lambda>x. pk x = i) d = None \<longleftrightarrow> i \<notin> pk ` set (rows G d)"
  by (auto simp: first_NoneD)

lemma saved:
  assumes "inv d" and "pk r \<in> pk ` set (rows G d)"
  shows "inv (fst (g_save G r d))" "snd (g_save G r d) = Some r"
    "rows G (fst (g_save G r d)) = map (\<lambda>x. if pk x = pk r then r else x) (rows G d)"
  using save_rows [OF assms] by (metis fst_conv snd_conv)+

lemma saved_get:
  assumes "inv d" and "pk r \<in> pk ` set (rows G d)"
  shows "g_first G (\<lambda>x. pk x = i) (fst (g_save G r d)) = (if i = pk r then Some r else g_first G (\<lambda>x. pk x = i) d)"
proof -
  note s = saved [OF assms]
  have "g_first G (\<lambda>x. pk x = i) (fst (g_save G r d)) = Some y \<longleftrightarrow>
      (if i = pk r then Some r else g_first G (\<lambda>x. pk x = i) d) = Some y" for y
    using assms(2) by (auto simp: key_row [OF s(1)] key_row [OF assms(1)] s(3))
  then show ?thesis by (rule option_ext)
qed

lemma created:
  assumes "inv d" and "pk r = 0"
  shows "\<exists>k. g_create G r d = (fst (g_create G r d), Some (with_pk k r)) \<and>
    rows G (fst (g_create G r d)) = rows G d @ [with_pk k r] \<and> inv (fst (g_create G r d))"
  using create_rows [OF assms] by (metis fst_conv)

lemma deleted:
  assumes "inv d"
  shows "snd (g_delete G P d)" "inv (fst (g_delete G P d))" "rows G (fst (g_delete G P d)) = filter (\<lambda>r. \<not> P r) (rows G d)"
  using delete_rows [OF assms, of P] by (metis fst_conv snd_conv)+

end

section \<open>The program's tables\<close>

abbreviation with_gID :: "nat \<Rightarrow> OPCGroup \<Rightarrow> OPCGroup" where
  "with_gID k r \<equiv> r\<lparr>gID := k\<rparr>"

abbreviation with_tID :: "nat \<Rightarrow> OPCTag \<Rightarrow> OPCTag" where
  "with_tID k r \<equiv> r\<lparr>tID := k\<rparr>"

abbreviation with_uID :: "nat \<Rightarrow> User \<Rightarrow> User" where
  "with_uID k r \<equiv> r\<lparr>uID := k\<rparr>"

definition group_table :: "(OPCGroup, OPCGroup list) gorm" where
  "group_table = list_table gID with_gID"

definition tag_table :: "(OPCTag, OPCTag list) gorm" where
  "tag_table = list_table tID with_tID"

definition user_table :: "(User, User list) gorm" where
  "user_table = list_table uID with_uID"

interpretation group_rows: gorm_reliable group_table gID with_gID "list_inv gID"
  unfolding group_table_def by (rule list_table_reliable) simp

interpretation tag_rows: gorm_reliable tag_table tID with_tID "list_inv tID"
  unfolding tag_table_def by (rule list_table_reliable) simp

interpretation user_rows: gorm_reliable user_table uID with_uID "list_inv uID"
  unfolding user_table_def by (rule list_table_reliable) simp

lemma rows_tables [simp]:
  "rows group_table gs = gs" "rows tag_table ts = ts" "rows user_table us = us"
  by (simp_all add: group_table_def tag_table_def user_table_def list_table_def)

end
