(* ===== verification/GroupTheorems.thy ===== *)
theory GroupTheorems imports OpcGroups Rows begin

text \<open>
  What starting, stopping and running a group comes to: a stopped group's collector ends at its next
  turn, the engine starts with the groups marked for it, a collector that comes up writes back the group
  it was started with, and the batches of the meta data.
\<close>

section \<open>Lemmas\<close>

lemma e_emit_simps [simp]:
  "e_groups (e_emit es s) = e_groups s" "e_tags (e_emit es s) = e_tags s" "spawned (e_emit es s) = spawned s"
  "e_events (e_emit es s) = e_events s @ es"
  by (simp_all add: e_emit_def)

lemma find_group_id: "find_tags GT ''group_id'' i d = Some (g_find GT (\<lambda>t. tGroupID t = i) d)"
  by (simp add: find_tags_def tag_column_def)

text \<open>The tags of a group, and whether \<^verbatim>\<open>Start\<close> takes it.\<close>

definition tags_of :: "(OPCTag, 't) gorm \<Rightarrow> OPCGroup \<Rightarrow> ('g, 't) engine \<Rightarrow> OPCTag list" where
  "tags_of GT g s = g_find GT (\<lambda>t. tGroupID t = gID g) (e_tags s)"

lemma Start_eq:
  "snd (Start GT g s) = None \<longleftrightarrow> Status g = GroupStatusNotRunning \<and> tags_of GT g s \<noteq> []"
  "e_groups (fst (Start GT g s)) = e_groups s" "e_tags (fst (Start GT g s)) = e_tags s"
  "spawned (fst (Start GT g s)) =
     spawned s @ (if Status g = GroupStatusNotRunning \<and> tags_of GT g s \<noteq> [] then [(g, tags_of GT g s)] else [])"
  by (auto simp: Start_def Let_def find_group_id tags_of_def)

lemma update_run_status:
  assumes "gorm_reliable GG gID with_gID ok" and "ok d"
  shows "ok (update_run GG g d) \<and> map_option Status (g_first GG (\<lambda>r. gID r = i) (update_run GG g d)) =
    map_option Status (g_first GG (\<lambda>r. gID r = i) d)"
proof (cases "g_first GG (\<lambda>r. gID r = gID g) d")
  case (Some r)
  then have r: "r \<in> set (rows GG d)" "gID r = gID g" using gorm_reliable.key_row [OF assms] by auto
  define r' where "r' = r\<lparr>LastRun := (if LastRun g = 0 then LastRun r else LastRun g),
                               Counter := (if Counter g = 0 then Counter r else Counter g)\<rparr>"
  have "gID r' \<in> gID ` set (rows GG d)" "Status r' = Status r" "gID r' = gID g" using r by (auto simp: r'_def intro!: rev_image_eqI [of r])
  then show ?thesis
    using Some gorm_reliable.saved(1) [OF assms, of r'] gorm_reliable.saved_get [OF assms, of r' i]
    by (auto simp: update_run_def simp flip: r'_def)
qed (simp add: update_run_def assms)

lemma Stop_ok:
  assumes "gorm_reliable GG gID with_gID ok" and "ok (e_groups s)" and "GetGroup GG i s = Some g"
    and "Status g = GroupStatusRunning \<or> Status g = GroupStatusRunningWithWarning"
  shows "\<exists>s'. Stop GG g s = (s', g\<lparr>Status := GroupStatusNotRunning\<rparr>, None) \<and> ok (e_groups s') \<and>
    (\<forall>j. GetGroup GG j s' = (if j = i then Some (g\<lparr>Status := GroupStatusNotRunning\<rparr>) else GetGroup GG j s))"
proof -
  have g: "g \<in> set (rows GG (e_groups s))" "gID g = i"
    using assms(3) gorm_reliable.key_row [OF assms(1,2)] by (auto simp: GetGroup_def)
  let ?g = "g\<lparr>Status := GroupStatusNotRunning\<rparr>"
  have "gID ?g \<in> gID ` set (rows GG (e_groups s))" using g by auto
  note s = gorm_reliable.saved(1) [OF assms(1,2) this] gorm_reliable.saved_get [OF assms(1,2) this]
  have "Stop GG g s = (s\<lparr>e_groups := fst (g_save GG ?g (e_groups s))\<rparr>, ?g, None)"
    using assms(4) by (auto simp: Stop_def Let_def)
  then show ?thesis using s g(2) by (simp add: GetGroup_def)
qed

lemma round_stops:
  "GetGroup GG (gID g) s = Some r \<Longrightarrow> Status r = GroupStatusNotRunning \<Longrightarrow>
    snd (collector_round GG oc json first up now (g, c, col) s) = Stopped"
  by (simp add: collector_round_def)

section \<open>Properties\<close>

text \<open>
  C17. A stop takes effect: after \<^verbatim>\<open>Stop\<close> of a running group, the next turn of every collector of the group
  ends it without reading, also when the turn that was under way first writes its own run data;
  the other groups are untouched.
\<close>

theorem stop_ends_collector:
  assumes "gorm_reliable GG gID with_gID ok" and "ok (e_groups s)" and "GetGroup GG i s = Some g"
    and "Status g = GroupStatusRunning \<or> Status g = GroupStatusRunningWithWarning" and "Stop GG g s = (s1, g1, r)" and "gID gc = i" and "gID gc' = i"
  shows "r = None \<and> snd (collector_round GG oc json first up now (gc, c, col) s1) = Stopped \<and>
    snd (collector_round GG oc json first up now (gc, c, col) (s1\<lparr>e_groups := update_run GG gc' (e_groups s1)\<rparr>)) = Stopped \<and>
    (\<forall>j. j \<noteq> i \<longrightarrow> GetGroup GG j s1 = GetGroup GG j s)"
proof -
  obtain s' where s': "Stop GG g s = (s', g\<lparr>Status := GroupStatusNotRunning\<rparr>, None)" "ok (e_groups s')"
      "\<And>j. GetGroup GG j s' = (if j = i then Some (g\<lparr>Status := GroupStatusNotRunning\<rparr>) else GetGroup GG j s)"
    using Stop_ok [OF assms(1-4)] by blast
  then have e: "s1 = s'" "r = None" using assms(5) by auto
  have "map_option Status (GetGroup GG i (s1\<lparr>e_groups := update_run GG gc' (e_groups s1)\<rparr>)) = Some GroupStatusNotRunning"
    using update_run_status [OF assms(1) s'(2), of gc' i] s'(3) [of i] by (simp add: GetGroup_def e)
  then obtain r' where "GetGroup GG (gID gc) (s1\<lparr>e_groups := update_run GG gc' (e_groups s1)\<rparr>) = Some r'" "Status r' = GroupStatusNotRunning"
    using assms(6) by auto
  then have "snd (collector_round GG oc json first up now (gc, c, col) (s1\<lparr>e_groups := update_run GG gc' (e_groups s1)\<rparr>)) = Stopped"
    by (rule round_stops)
  moreover have "snd (collector_round GG oc json first up now (gc, c, col) s1) = Stopped"
    by (rule round_stops [where r = "g\<lparr>Status := GroupStatusNotRunning\<rparr>"]) (use s'(3) [of i] assms(6) e in simp_all)
  ultimately show ?thesis using s'(3) e by simp
qed

definition running_group :: OPCGroup where
  "running_group = test_group\<lparr>Status := GroupStatusRunning\<rparr>"

definition one_group :: "(OPCGroup list, OPCTag list) engine" where
  "one_group = \<lparr>e_groups = [running_group], e_tags = [\<lparr>tID = 1, tName = ''t'', tDescription = [], tGroupID = 1\<rparr>],
     spawned = [], e_events = []\<rparr>"

definition silent_client :: "(unit, int) opc_client" where
  "silent_client = \<lparr>oc_connect = (\<lambda>_. Inr ()), oc_add = (\<lambda>_ c. (c, True)), oc_tags = (\<lambda>_. [''t'']), oc_read = (\<lambda>c. (c, None))\<rparr>"

lemma test_group_simps [simp]:
  "gID test_group = 1" "gName test_group = ''g''" "Interval test_group = 1" "Status test_group = GroupStatusNotRunning"
  "ProgID test_group = ''s''"
  by (simp_all add: test_group_def)

lemma one_group_ok: "list_inv gID (e_groups one_group)" "GetGroup group_table 1 one_group = Some running_group"
  by (simp_all add: one_group_def list_inv_def running_group_def test_group_def GetGroup_def group_table_def list_table_def)

lemma stop_ends_collector_witness:
  "snd (collector_round group_table silent_client id (\<lambda>_. None) True 5 (running_group, (), new_collection 0 running_group)
     (fst (Stop group_table running_group one_group))) = Stopped"
proof -
  have "Status running_group = GroupStatusRunning \<or> Status running_group = GroupStatusRunningWithWarning" "gID running_group = 1" by (simp_all add: running_group_def test_group_def)
  then show ?thesis
    using stop_ends_collector [OF group_rows.gorm_reliable_axioms one_group_ok, where gc = running_group and gc' = running_group]
    by (metis prod.collapse)
qed

abbreviation stopped :: "OPCGroup \<Rightarrow> OPCGroup" where
  "stopped g \<equiv> g\<lparr>Status := GroupStatusNotRunning\<rparr>"

text \<open>The loop over some of the groups, which the table has with another status at most.\<close>

lemma init_items_run:
  assumes reliable: "gorm_reliable GG gID with_gID ok" and "ok (e_groups s)"
    and "\<forall>g \<in> set items. \<exists>g' \<in> set (GetGroups GG s). gID g' = gID g \<and> stopped g' = stopped g"
  shows "GetGroups GG (init_items GG GT items s) = map (\<lambda>g. if gID g \<in> gID ` set items then stopped g else g) (GetGroups GG s) \<and>
    ok (e_groups (init_items GG GT items s)) \<and> e_tags (init_items GG GT items s) = e_tags s \<and>
    spawned (init_items GG GT items s) = spawned s @ map (\<lambda>g. (stopped g, tags_of GT g s))
      (filter (\<lambda>g. RunAtStart g \<and> tags_of GT g s \<noteq> []) items)"
  using assms(2,3)
proof (induction items arbitrary: s)
  case (Cons g items)
  have "gID (stopped g) \<in> gID ` set (rows GG (e_groups s))" using Cons.prems(2) by (auto simp: GetGroups_def image_iff intro: sym)
  note sv = gorm_reliable.saved [OF reliable Cons.prems(1) this]
  define s1 where "s1 = s\<lparr>e_groups := fst (g_save GG (stopped g) (e_groups s))\<rparr>"
  define s2 where "s2 = (if RunAtStart g then fst (Start GT (stopped g) s1) else s1)"
  have tags: "tags_of GT (stopped h) s1 = tags_of GT h s" "tags_of GT h s2 = tags_of GT h s" for h
    by (simp_all add: tags_of_def s1_def s2_def Start_eq)
  have g2: "GetGroups GG s2 = map (\<lambda>h. if gID h = gID g then stopped g else h) (GetGroups GG s)" "ok (e_groups s2)"
      "e_tags s2 = e_tags s"
    using sv by (simp_all add: s2_def s1_def Start_eq GetGroups_def)
  have sp: "spawned s2 = spawned s @ (if RunAtStart g \<and> tags_of GT g s \<noteq> [] then [(stopped g, tags_of GT g s)] else [])"
    by (simp add: s2_def Start_eq tags) (simp add: s1_def)
  have same: "h \<in> set (GetGroups GG s) \<Longrightarrow> gID h = gID g \<Longrightarrow> stopped h = stopped g" for h
    using Cons.prems gorm_table.distinct_keys [OF gorm_reliable.axioms(1) [OF reliable] Cons.prems(1)]
    by (auto simp: GetGroups_def distinct_map inj_on_def)
  have "\<forall>h \<in> set items. \<exists>h' \<in> set (GetGroups GG s2). gID h' = gID h \<and> stopped h' = stopped h"
  proof
    fix h assume "h \<in> set items"
    then obtain h' where "h' \<in> set (GetGroups GG s)" "gID h' = gID h" "stopped h' = stopped h" using Cons.prems(2) by auto
    then show "\<exists>h' \<in> set (GetGroups GG s2). gID h' = gID h \<and> stopped h' = stopped h"
      using same [of h'] unfolding g2(1) by (intro bexI [of _ "if gID h' = gID g then stopped g else h'"]) auto
  qed
  note IH = Cons.IH [OF g2(2) this]
  have "init_items GG GT (g # items) s = init_items GG GT items s2" by (simp add: s2_def s1_def Let_def)
  then show ?case using IH g2 same sp tags(2) by (auto simp: comp_def)
qed simp

text \<open>
  C26. At the start of the engine every group of the table is set to not running, with its other fields as
  they were, and a collector is spawned for exactly those marked to run at start that have tags, in
  the order of their keys and with their own tags.
\<close>

theorem InitGroups_starts:
  assumes "gorm_reliable GG gID with_gID ok" and "ok (e_groups s)"
    and "InitGroups GG GT GS GP dial dp (s, k, px) = (s', k', px')"
  shows "GetGroups GG s' = map (\<lambda>g. g\<lparr>Status := GroupStatusNotRunning\<rparr>) (GetGroups GG s) \<and> ok (e_groups s') \<and> e_tags s' = e_tags s \<and>
    spawned s' = spawned s @ map (\<lambda>g. (g\<lparr>Status := GroupStatusNotRunning\<rparr>, tags_of GT g s))
      (filter (\<lambda>g. RunAtStart g \<and> tags_of GT g s \<noteq> []) (GetGroups GG s))"
proof -
  have "\<forall>g \<in> set (GetGroups GG s). \<exists>g' \<in> set (GetGroups GG s). gID g' = gID g \<and> stopped g' = stopped g" by blast
  note run = init_items_run [OF assms(1,2) this, of GT]
  have "map (\<lambda>g. if gID g \<in> gID ` set (GetGroups GG s) then stopped g else g) (GetGroups GG s) = map stopped (GetGroups GG s)"
    by (rule map_cong) auto
  then show ?thesis using assms(3) run by (simp add: InitGroups_def)
qed

lemma InitGroups_starts_witness:
  "spawned (fst (InitGroups group_table tag_table settings_table (list_table dpID (\<lambda>k p. p\<lparr>dpID := k\<rparr>)) (\<lambda>_. None) []
     (one_group\<lparr>e_groups := [running_group\<lparr>RunAtStart := True\<rparr>]\<rparr>, [], no_proxies))) =
    [(running_group\<lparr>RunAtStart := True, Status := GroupStatusNotRunning\<rparr>, e_tags one_group)]"
proof -
  let ?s = "one_group\<lparr>e_groups := [running_group\<lparr>RunAtStart := True\<rparr>]\<rparr>"
  have "list_inv gID (e_groups ?s)" by (simp add: list_inv_def running_group_def test_group_def)
  note run = InitGroups_starts [OF group_rows.gorm_reliable_axioms this]
  have "tags_of tag_table (running_group\<lparr>RunAtStart := True\<rparr>) ?s = e_tags one_group" "e_tags one_group \<noteq> []"
    by (simp_all add: tags_of_def tag_table_def list_table_def one_group_def running_group_def test_group_def)
  moreover have "GetGroups group_table ?s = [running_group\<lparr>RunAtStart := True\<rparr>]" "spawned ?s = []"
    by (simp_all add: GetGroups_def one_group_def)
  ultimately show ?thesis
    using run [where GT = tag_table and GS = settings_table and GP = "list_table dpID (\<lambda>k p. p\<lparr>dpID := k\<rparr>)"
        and dial = "\<lambda>_. None" and dp = "[]" and k = "[]" and px = no_proxies]
    by (cases "InitGroups group_table tag_table settings_table (list_table dpID (\<lambda>k p. p\<lparr>dpID := k\<rparr>)) (\<lambda>_. None) [] (?s, [], no_proxies)") auto
qed

text \<open>
  A collector that comes up writes the whole group it was started with back to the table, as running,
  or as running with a warning when a tag could not be added, and with its counter at zero: whatever was
  changed in the row since the start request, its name, its interval, its proxy, is undone.
\<close>

theorem collector_start_writes_back:
  assumes "gorm_reliable GG gID with_gID ok" and "ok (e_groups s)" and "GetGroup GG (gID g) s = Some edited"
    and "collector_start GG oc z (g, tags) s = (s', Some (g', c, col))"
  shows "GetGroup GG (gID g) s' = Some g' \<and>
    g' = g\<lparr>Status := (if length (oc_tags oc (fst (add_tags oc g tags (projr (oc_connect oc (ProgID g)))))) = length tags
       then GroupStatusRunning else GroupStatusRunningWithWarning), Counter := 0\<rparr> \<and>
    (\<forall>j. j \<noteq> gID g \<longrightarrow> GetGroup GG j s' = GetGroup GG j s) \<and> col = new_collection z g'"
proof -
  have "ticker_ok g" using assms(4) by (auto simp: collector_start_def split: if_splits)
  then obtain c0 where c0: "oc_connect oc (ProgID g) = Inr c0" using assms(4) by (auto simp: collector_start_def split: sum.splits)
  obtain c1 es where c1: "add_tags oc g tags c0 = (c1, es)" by fastforce
  have tags: "length (oc_tags oc c1) \<noteq> 0" using assms(4) \<open>ticker_ok g\<close> by (auto simp: collector_start_def c0 c1 Let_def)
  obtain c2 items where c2: "read_items oc c1 = (c2, items)" by fastforce
  let ?g = "g\<lparr>Status := (if length (oc_tags oc c1) = length tags then GroupStatusRunning else GroupStatusRunningWithWarning), Counter := 0\<rparr>"
  have g: "gID ?g \<in> gID ` set (rows GG (e_groups s))"
    using assms(3) gorm_reliable.key_row [OF assms(1,2)] by (auto simp: GetGroup_def image_iff intro: sym)
  have "g' = ?g \<and> e_groups s' = fst (g_save GG ?g (e_groups s)) \<and> col = new_collection z ?g"
    using assms(4) \<open>ticker_ok g\<close> tags by (auto simp: collector_start_def c0 c1 c2 Let_def split: if_splits)
  then show ?thesis
    using gorm_reliable.saved_get [OF assms(1,2) g] by (simp add: GetGroup_def c0 c1)
qed

lemma collector_start_writes_back_witness:
  "\<exists>s' g' c (col :: (int, int) col_state). collector_start group_table silent_client 0 (test_group, e_tags one_group)
      (one_group\<lparr>e_groups := [test_group\<lparr>gName := ''renamed''\<rparr>]\<rparr>) = (s', Some (g', c, col)) \<and>
    GetGroup group_table 1 s' = Some g' \<and> gName g' = ''g''"
proof -
  let ?s = "one_group\<lparr>e_groups := [test_group\<lparr>gName := ''renamed''\<rparr>]\<rparr>"
  have come_up: "snd (collector_start group_table silent_client 0 (test_group, e_tags one_group) ?s) \<noteq> (None :: (OPCGroup \<times> unit \<times> (int, int) col_state) option)"
    by (simp add: collector_start_def ticker_ok_def int64_def silent_client_def Let_def split_def)
  obtain s' g' c and col :: "(int, int) col_state" where r: "collector_start group_table silent_client 0 (test_group, e_tags one_group) ?s = (s', Some (g', c, col))"
    using come_up by (metis option.exhaust prod_cases3 prod.collapse)
  have "list_inv gID (e_groups ?s)" "GetGroup group_table (gID test_group) ?s = Some (test_group\<lparr>gName := ''renamed''\<rparr>)"
    by (simp_all add: list_inv_def GetGroup_def group_table_def list_table_def)
  note w = collector_start_writes_back [OF group_rows.gorm_reliable_axioms this r]
  then have "GetGroup group_table 1 s' = Some g'" "gName g' = ''g''" by simp_all
  then show ?thesis using r by blast
qed

text \<open>
  A group whose interval is 0 or less is started without an error, but its collector panics on its
  ticker: nothing is collected, nothing logged, and the group stays as it was. Intervals from 1 to
  9223372036 seconds make a ticker.
\<close>

theorem bad_interval:
  assumes "Status g = GroupStatusNotRunning" and "tags_of GT g s \<noteq> []" and "- 9223372036 \<le> Interval g" and "Interval g \<le> 9223372036"
  shows "\<exists>s1. Start GT g s = (s1, None) \<and> spawned s1 = spawned s @ [(g, tags_of GT g s)] \<and>
    (Interval g \<le> 0 \<longrightarrow> collector_start GG oc z (g, tags_of GT g s) s1 = (s1, None) \<and> e_groups s1 = e_groups s \<and> e_events s1 = e_events s) \<and>
    (Interval g > 0 \<longrightarrow> ticker_ok g)"
proof -
  have "Start GT g s = (s\<lparr>spawned := spawned s @ [(g, tags_of GT g s)]\<rparr>, None)"
    using assms(1,2) by (simp add: Start_def Let_def find_group_id flip: tags_of_def)
  moreover have "int64 (Interval g * 1000000000) = Interval g * 1000000000"
    using assms(3,4) by (intro int64_id) simp_all
  ultimately show ?thesis by (auto simp: collector_start_def ticker_ok_def)
qed

lemma bad_interval_witness:
  "snd (collector_start group_table silent_client 0 (test_group\<lparr>Interval := 0\<rparr>, e_tags one_group)
     (fst (Start tag_table (test_group\<lparr>Interval := 0\<rparr>) one_group))) = (None :: (OPCGroup \<times> unit \<times> (int, int) col_state) option)"
proof -
  have "tags_of tag_table (test_group\<lparr>Interval := 0\<rparr>) one_group = e_tags one_group" "e_tags one_group \<noteq> []"
    by (simp_all add: tags_of_def tag_table_def list_table_def one_group_def)
  then obtain s1 where "Start tag_table (test_group\<lparr>Interval := 0\<rparr>) one_group = (s1, None)"
      "collector_start group_table silent_client 0 (test_group\<lparr>Interval := 0\<rparr>, e_tags one_group) s1 =
         (s1, None :: (OPCGroup \<times> unit \<times> (int, int) col_state) option)"
    using bad_interval [of "test_group\<lparr>Interval := 0\<rparr>" tag_table one_group group_table silent_client 0] by auto
  then show ?thesis by simp
qed

section \<open>Meta data\<close>

lemma meta_batches_run:
  assumes "0 < bsz" and "i \<le> length tags"
  shows "\<exists>bs. meta_batches i bsz tags = Some bs \<and> concat bs = drop i tags \<and> (\<forall>b \<in> set bs. b \<noteq> [] \<and> length b \<le> bsz) \<and>
    (\<forall>b \<in> set (butlast bs). length b = bsz)"
  using assms
proof (induction "length tags - i" arbitrary: i bsz rule: less_induct)
  case less
  show ?case
  proof (cases "i < length tags")
    case False
    then show ?thesis using less.prems by (subst meta_batches.simps) simp
  next
    case True
    define n where "n = (if i + bsz > length tags then length tags - i else bsz)"
    have n: "0 < n" "i + n \<le> length tags" "n \<le> bsz" "i + n < length tags \<longrightarrow> n = bsz" using True less.prems by (auto simp: n_def)
    obtain bs where bs: "meta_batches (i + n) n tags = Some bs" "concat bs = drop (i + n) tags"
        "\<forall>b \<in> set bs. b \<noteq> [] \<and> length b \<le> n" "\<forall>b \<in> set (butlast bs). length b = n"
      using less.hyps [OF _ n(1,2)] n(1) True by (metis diff_less_mono2 less_add_same_cancel1)
    have "meta_batches i bsz tags = Some (take n (drop i tags) # bs)"
      using True bs(1) by (subst meta_batches.simps) (simp add: Let_def flip: n_def)
    moreover have "concat (take n (drop i tags) # bs) = drop i tags"
      using append_take_drop_id [of n "drop i tags"] bs(2) by (simp add: add.commute)
    moreover have "bs = [] \<or> i + n < length tags"
    proof (rule disjCI)
      assume "\<not> i + n < length tags"
      then have "concat bs = []" using bs(2) by simp
      then show "bs = []" using bs(3) by (cases bs) auto
    qed
    ultimately show ?thesis using n bs(3,4) True by (intro exI [of _ "take n (drop i tags) # bs"]) auto
  qed
qed

text \<open>
  A round of the meta data sender ends, also with no tags; written one after the other, its batches are
  the list of all tags (of none when the query fails), in messages of 100 except for the last, which is not empty.
\<close>

theorem meta_round_complete:
  "\<exists>bs. meta_batches 0 100 (case GetTagInfos GT qerr s of Inl _ \<Rightarrow> [] | Inr tags \<Rightarrow> tags) = Some bs \<and>
    map tiName (concat bs) = (case GetTagNames GT qerr s of Inl _ \<Rightarrow> [] | Inr names \<Rightarrow> names) \<and> (\<forall>b \<in> set bs. 0 < length b \<and> length b \<le> 100) \<and>
    (\<forall>b \<in> set (butlast bs). length b = 100) \<and>
    (\<exists>es. meta_round GT qerr json (\<lambda>_. None) s = Some (map json bs, es))"
proof -
  let ?tags = "case GetTagInfos GT qerr s of Inl _ \<Rightarrow> [] | Inr tags \<Rightarrow> tags"
  obtain bs where bs: "meta_batches 0 100 ?tags = Some bs" "concat bs = drop 0 ?tags"
      "\<forall>b \<in> set bs. b \<noteq> [] \<and> length b \<le> 100" "\<forall>b \<in> set (butlast bs). length b = 100"
    using meta_batches_run [of 100 0 ?tags] by auto
  have "map tiName ?tags = (case GetTagNames GT qerr s of Inl _ \<Rightarrow> [] | Inr names \<Rightarrow> names)"
    by (simp add: GetTagInfos_def GetTagNames_def tag_names_def Let_def comp_def split: option.split)
  then show ?thesis using bs by (intro exI [of _ bs]) (simp add: meta_round_def)
qed

lemma meta_round_complete_witness:
  "\<exists>bs :: TagsInfos list list. map tiName (concat bs) = [''t''] \<and> (\<exists>es. meta_round tag_table None (\<lambda>_. [1]) (\<lambda>_. None) one_group = Some (map (\<lambda>_. [1]) bs, es))"
proof -
  have "GetTagNames tag_table None one_group = Inr [''t'']" by (simp add: GetTagNames_def tag_names_def one_group_def)
  moreover obtain bs :: "TagsInfos list list" and es
    where "map tiName (concat bs) = (case GetTagNames tag_table None one_group of Inl _ \<Rightarrow> [] | Inr names \<Rightarrow> names)"
      "meta_round tag_table None (\<lambda>_. [1]) (\<lambda>_. None) one_group = Some (map (\<lambda>_. [1]) bs, es)"
    using meta_round_complete [of tag_table None one_group "\<lambda>_. [1]"] by (elim exE conjE) (erule that, assumption)
  ultimately show ?thesis by (intro exI [of _ bs] conjI exI [of _ es]) simp_all
qed

end
