(* ===== verification/GroupRouteTheorems.thy ===== *)
theory GroupRouteTheorems imports GroupRoutes GroupTheorems begin

text \<open>
  What the handlers for groups and tags keep and do: one default group, the fields an update changes, repeated
  starts, and the tags added, changed and deleted.
\<close>

section \<open>Lemmas\<close>

definition defaults :: "OPCGroup list \<Rightarrow> nat" where
  "defaults gs = length (filter DefaultGroup gs)"

text \<open>Exactly one default group, in a table that is not empty.\<close>

definition one_default :: "OPCGroup list \<Rightarrow> bool" where
  "one_default gs \<longleftrightarrow> defaults gs = (if gs = [] then 0 else 1)"

text \<open>The statement that clears the flags works.\<close>

definition reset_works :: "(OPCGroup, 'g) gorm \<Rightarrow> ('g \<Rightarrow> bool) \<Rightarrow> ('g \<Rightarrow> 'g \<times> string option) \<Rightarrow> bool" where
  "reset_works GG ok reset \<longleftrightarrow> (\<forall>d. ok d \<longrightarrow> snd (reset d) = None \<and> ok (fst (reset d)) \<and>
     rows GG (fst (reset d)) = map (\<lambda>g. g\<lparr>DefaultGroup := False\<rparr>) (rows GG d))"

lemma defaults_simps [simp]:
  "defaults [] = 0" "defaults (g # gs) = (if DefaultGroup g then Suc (defaults gs) else defaults gs)"
  "defaults (gs @ hs) = defaults gs + defaults hs" "defaults (map (\<lambda>g. g\<lparr>DefaultGroup := False\<rparr>) gs) = 0"
  by (simp_all add: defaults_def comp_def)

lemma defaults_0: "defaults gs = 0 \<longleftrightarrow> (\<forall>g \<in> set gs. \<not> DefaultGroup g)"
  by (simp add: defaults_def filter_empty_conv)

lemma replace_key:
  assumes "distinct (map gID (g # gs))"
  shows "map (\<lambda>x. if gID x = gID g then r else x) (g # gs) = r # gs"
  using assms by (auto simp: image_iff intro!: map_idI)

lemma defaults_replace:
  "distinct (map gID gs) \<Longrightarrow> defaults (map (\<lambda>x. if gID x = gID r then r else x) gs) \<le> defaults gs + (if DefaultGroup r then 1 else 0)"
proof (induction gs)
  case (Cons g gs)
  show ?case
  proof (cases "gID g = gID r")
    case True
    then have "map (\<lambda>x. if gID x = gID r then r else x) (g # gs) = r # gs" using replace_key [OF Cons.prems, of r] by simp
    then show ?thesis by simp
  next
    case False
    then show ?thesis using Cons by auto
  qed
qed simp

lemma keys_distinct:
  "gorm_reliable GG gID with_gID ok \<Longrightarrow> ok d \<Longrightarrow> distinct (map gID (rows GG d))"
  by (rule gorm_table.distinct_keys [OF gorm_reliable.axioms(1)])

lemma save_defaults:
  assumes "gorm_reliable GG gID with_gID ok" and "ok d" and "gID r = 0 \<or> gID r \<in> gID ` set (rows GG d)"
  shows "\<exists>d' r'. g_save GG r d = (d', Some r') \<and> ok d' \<and> rows GG d' \<noteq> [] \<and>
    defaults (rows GG d') \<le> defaults (rows GG d) + (if DefaultGroup r then 1 else 0)"
proof (cases "gID r = 0")
  case True
  obtain k where k: "g_create GG r d = (fst (g_create GG r d), Some (with_gID k r))"
      "rows GG (fst (g_create GG r d)) = rows GG d @ [with_gID k r]" "ok (fst (g_create GG r d))"
    using gorm_reliable.created [OF assms(1,2) True] by blast
  have "g_save GG r d = g_create GG r d"
    by (rule gorm_table.save_new [OF gorm_reliable.axioms(1) [OF assms(1)] assms(2) True])
  then show ?thesis using k by (intro exI [of _ "fst (g_create GG r d)"] exI [of _ "with_gID k r"]) auto
next
  case False
  then have key: "gID r \<in> gID ` set (rows GG d)" using assms(3) by simp
  note s = gorm_reliable.saved [OF assms(1,2) key]
  have "rows GG d \<noteq> []" using key by auto
  then show ?thesis
    using s defaults_replace [OF keys_distinct [OF assms(1,2)], of r]
    by (intro exI [of _ "fst (g_save GG r d)"] exI [of _ r]) (auto simp: prod_eq_iff)
qed

lemma list_default:
  assumes "gorm_reliable GG gID with_gID ok" and "ok (e_groups s)" and "defaults (rows GG (e_groups s)) \<le> 1"
  shows "\<exists>s' gs. GetGroups_route GG s = (s', (200, JGroups gs)) \<and> ok (e_groups s') \<and> gs = rows GG (e_groups s') \<and> one_default gs \<and>
    map (\<lambda>g. g\<lparr>DefaultGroup := False\<rparr>) gs = map (\<lambda>g. g\<lparr>DefaultGroup := False\<rparr>) (rows GG (e_groups s)) \<and> e_tags s' = e_tags s"
proof (cases "(\<exists>g \<in> set (rows GG (e_groups s)). DefaultGroup g) \<or> rows GG (e_groups s) = []")
  case True
  then have "one_default (rows GG (e_groups s))"
    using assms(3) defaults_0 [of "rows GG (e_groups s)"] by (auto simp: one_default_def)
  then show ?thesis using True assms(2) by (auto simp: GetGroups_route_def GetGroups_def Let_def)
next
  case False
  then obtain g gs where gs: "rows GG (e_groups s) = g # gs" by (cases "rows GG (e_groups s)") auto
  let ?g = "g\<lparr>DefaultGroup := True\<rparr>"
  have "gID ?g \<in> gID ` set (rows GG (e_groups s))" by (simp add: gs)
  note sv = gorm_reliable.saved [OF assms(1,2) this]
  have "rows GG (fst (g_save GG ?g (e_groups s))) = ?g # gs"
    using sv(3) replace_key [of g gs ?g] keys_distinct [OF assms(1,2)] by (simp add: gs)
  moreover have "one_default (?g # gs)" using False defaults_0 [of gs] by (simp add: one_default_def gs)
  ultimately show ?thesis
    using False sv(1) gs by (auto simp: GetGroups_route_def GetGroups_def Let_def)
qed

lemma reset_defaults:
  assumes "reset_works GG ok reset" and "ok (e_groups s)"
  shows "ok (e_groups (reset_flags who reset s)) \<and> e_tags (reset_flags who reset s) = e_tags s \<and>
    rows GG (e_groups (reset_flags who reset s)) = map (\<lambda>g. g\<lparr>DefaultGroup := False\<rparr>) (rows GG (e_groups s))"
  using assms by (cases "reset (e_groups s)") (auto simp: reset_works_def reset_flags_def)

text \<open>Saving a group, its flag cleared elsewhere first when it has it, and listing the groups.\<close>

lemma save_and_list:
  assumes "gorm_reliable GG gID with_gID ok" and "reset_works GG ok reset" and "ok (e_groups s)" and "defaults (rows GG (e_groups s)) \<le> 1"
    and "gID r = 0 \<or> gID r \<in> gID ` set (rows GG (e_groups s))"
    and "s1 = (if DefaultGroup r then reset_flags who reset s else s)"
  shows "\<exists>d r' s' gs. g_save GG r (e_groups s1) = (d, Some r') \<and> GetGroups_route GG (s1\<lparr>e_groups := d\<rparr>) = (s', (200, JGroups gs)) \<and>
    ok (e_groups s') \<and> gs = rows GG (e_groups s') \<and> one_default gs"
proof -
  have s1: "ok (e_groups s1)" "gID ` set (rows GG (e_groups s1)) = gID ` set (rows GG (e_groups s))"
      "defaults (rows GG (e_groups s1)) + (if DefaultGroup r then 1 else 0) \<le> 1"
    using reset_defaults [OF assms(2,3), of who] assms(3,4,6) by (simp_all add: image_image)
  obtain d r' where d: "g_save GG r (e_groups s1) = (d, Some r')" "ok d" "defaults (rows GG d) \<le> 1"
    using save_defaults [OF assms(1) s1(1)] assms(5) s1(2,3) by (metis (no_types, lifting) le_trans)
  then show ?thesis using list_default [OF assms(1), of "s1\<lparr>e_groups := d\<rparr>"] by auto
qed

section \<open>Properties\<close>

text \<open>
  C16. From a table with at most one default group, listing the groups, creating one and updating one, all end,
  when they end with status 200, with the groups of the table in the reply, and exactly one default
  group among them unless there is no group at all.
\<close>

theorem one_default_group:
  assumes "gorm_reliable GG gID with_gID ok" and "reset_works GG ok reset" and "ok (e_groups s)"
    and "defaults (rows GG (e_groups s)) \<le> 1"
    and "h \<in> {GetGroups_route GG, NewGroup GG reset e (Inr g), UpdateGroup GG reset e (Inr (g, p))}"
    and "gID g = 0 \<or> gID g \<in> gID ` set (rows GG (e_groups s))" and "h s = (s', (200, b))"
  shows "ok (e_groups s') \<and> b = JGroups (rows GG (e_groups s')) \<and> one_default (rows GG (e_groups s'))"
  using assms(5)
proof (elim insertE emptyE)
  assume "h = GetGroups_route GG"
  then show ?thesis using list_default [OF assms(1,3,4)] assms(7) by auto
next
  assume h: "h = NewGroup GG reset e (Inr g)"
  show ?thesis
    using save_and_list [OF assms(1-4,6) refl, of "''NewGroup''"] assms(7) by (auto simp: h NewGroup_def Let_def)
next
  assume h: "h = UpdateGroup GG reset e (Inr (g, p))"
  obtain g0 where g0: "g_first GG (\<lambda>r. gID r = gID g) (e_groups s) = Some g0"
    using assms(7) by (cases "g_first GG (\<lambda>r. gID r = gID g) (e_groups s)") (auto simp: h UpdateGroup_def)
  let ?g = "g0\<lparr>gName := gName g, gDescription := gDescription g, DefaultGroup := DefaultGroup g,
    DiodeProxyID := p, Interval := Interval g, RunAtStart := RunAtStart g\<rparr>"
  have "gID ?g \<in> gID ` set (rows GG (e_groups s))" using g0 gorm_reliable.key_row [OF assms(1,3)] by (auto simp: image_iff intro: sym)
  then show ?thesis
    using save_and_list [OF assms(1-4) disjI2 refl, of ?g "''UpdateGroup''"] assms(7) g0 by (auto simp: h UpdateGroup_def Let_def)
qed

definition clear_flags :: "OPCGroup list \<Rightarrow> OPCGroup list \<times> string option" where
  "clear_flags gs = (map (\<lambda>g. g\<lparr>DefaultGroup := False\<rparr>) gs, None)"

lemma clear_flags_works: "reset_works group_table (list_inv gID) clear_flags"
  by (auto simp: reset_works_def clear_flags_def list_inv_def comp_def)

lemma one_default_group_witness:
  "\<exists>s' gs. NewGroup group_table clear_flags ''e'' (Inr (test_group\<lparr>gID := 0\<rparr>)) one_group = (s', (200, JGroups gs)) \<and> one_default gs"
proof -
  let ?g = "test_group\<lparr>gID := 0\<rparr>"
  have d: "defaults (rows group_table (e_groups one_group)) \<le> 1" by (simp add: one_group_def)
  have k: "gID ?g = 0 \<or> gID ?g \<in> gID ` set (rows group_table (e_groups one_group))" by simp
  obtain s' b where r: "NewGroup group_table clear_flags ''e'' (Inr ?g) one_group = (s', (200, b))"
    using save_and_list [OF group_rows.gorm_reliable_axioms clear_flags_works one_group_ok(1) d k refl, of "''NewGroup''"]
    by (auto simp: NewGroup_def Let_def)
  then show ?thesis
    using one_default_group [where h = "NewGroup group_table clear_flags ''e'' (Inr ?g)" and e = "''e''" and g = ?g,
        OF group_rows.gorm_reliable_axioms clear_flags_works one_group_ok(1) d _ k r] by auto
qed

text \<open>
  An update that is answered with 200 puts the name, description, proxy, interval and start flag of the
  request into the group's row; its OPC server, status and run data stay, and of the other groups at
  most the default flag changes.
\<close>

theorem UpdateGroup_fields:
  assumes "gorm_reliable GG gID with_gID ok" and "reset_works GG ok reset" and "ok (e_groups s)"
    and "defaults (rows GG (e_groups s)) \<le> 1" and "GetGroup GG (gID data) s = Some g"
    and "UpdateGroup GG reset e (Inr (data, p)) s = (s', (200, b))"
  shows "\<exists>flag. GetGroup GG (gID data) s' = Some (g\<lparr>gName := gName data, gDescription := gDescription data, DiodeProxyID := p,
      Interval := Interval data, RunAtStart := RunAtStart data, DefaultGroup := flag\<rparr>) \<and>
    (\<forall>j. j \<noteq> gID data \<longrightarrow> map_option (\<lambda>x. x\<lparr>DefaultGroup := False\<rparr>) (GetGroup GG j s') =
      map_option (\<lambda>x. x\<lparr>DefaultGroup := False\<rparr>) (GetGroup GG j s))"
proof -
  let ?clear = "\<lambda>x :: OPCGroup. x\<lparr>DefaultGroup := False\<rparr>"
  let ?new = "g\<lparr>gName := gName data, gDescription := gDescription data, DefaultGroup := DefaultGroup data, DiodeProxyID := p,
      Interval := Interval data, RunAtStart := RunAtStart data\<rparr>"
  have by_rows: "map_option ?clear (g_first GG (\<lambda>r. gID r = j) d) = map_option ?clear (g_first GG (\<lambda>r. gID r = j) d')"
    if "ok d" "ok d'" "map ?clear (rows GG d) = map ?clear (rows GG d')" for d d' j
  proof -
    have "map_option ?clear (find (\<lambda>r. gID r = j) xs) = find (\<lambda>r. gID r = j) (map ?clear xs)" for xs
      by (induction xs) simp_all
    then show ?thesis
      using that gorm_table.first_find [OF gorm_reliable.axioms(1) [OF assms(1)]] by simp
  qed
  have g: "g_first GG (\<lambda>r. gID r = gID data) (e_groups s) = Some g" "gID g = gID data" "gID ?new \<in> gID ` set (rows GG (e_groups s))"
    using assms(5) gorm_reliable.key_row [OF assms(1,3)] by (auto simp: GetGroup_def image_iff intro: sym)
  define s1 where "s1 = (if DefaultGroup data then reset_flags ''UpdateGroup'' reset s else s)"
  have s1: "ok (e_groups s1)" "map ?clear (rows GG (e_groups s1)) = map ?clear (rows GG (e_groups s))"
    using reset_defaults [OF assms(2,3)] assms(3) by (simp_all add: s1_def)
  have "gID ` set (rows GG (e_groups s1)) = gID ` set (map ?clear (rows GG (e_groups s1)))" by (simp add: image_image)
  also have "\<dots> = gID ` set (rows GG (e_groups s))" unfolding s1(2) by (simp add: image_image)
  finally have key: "gID ?new \<in> gID ` set (rows GG (e_groups s1))" using g(3) by simp
  note sv = gorm_reliable.saved [OF assms(1) s1(1) key] gorm_reliable.saved_get [OF assms(1) s1(1) key]
  obtain d r' s'' gs where d: "g_save GG ?new (e_groups s1) = (d, Some r')"
      "GetGroups_route GG (s1\<lparr>e_groups := d\<rparr>) = (s'', (200, JGroups gs))" "ok (e_groups s'')" "gs = rows GG (e_groups s'')"
    using save_and_list [OF assms(1-4) disjI2 [OF g(3)], of s1 "''UpdateGroup''"] s1_def by auto
  have s'': "s'' = s'" using assms(6) g(1) d(1,2) by (simp add: UpdateGroup_def Let_def flip: s1_def)
  have dd: "d = fst (g_save GG ?new (e_groups s1))" using d(1) by simp
  have "defaults (rows GG d) \<le> 1"
    using save_and_list [OF assms(1-4) disjI2 [OF g(3)], of s1 "''UpdateGroup''"] save_defaults [OF assms(1) s1(1), of ?new] d(1) key
      reset_defaults [OF assms(2,3), of "''UpdateGroup''"] assms(4) by (auto simp: s1_def split: if_splits)
  then have same: "map ?clear (rows GG (e_groups s')) = map ?clear (rows GG d)"
    using list_default [OF assms(1), of "s1\<lparr>e_groups := d\<rparr>"] d(2) sv(1) s'' by (auto simp: dd)
  have ok': "ok (e_groups s')" "ok d" using d(3) s'' sv(1) dd by simp_all
  have "map_option ?clear (GetGroup GG (gID data) s') = Some (?clear ?new)"
    using by_rows [OF ok' same, of "gID data"] sv(4) [of "gID data"] g(2) by (simp add: GetGroup_def dd)
  then obtain x where x: "GetGroup GG (gID data) s' = Some x" "?clear x = ?clear ?new" by auto
  have "x = (?clear x)\<lparr>DefaultGroup := DefaultGroup x\<rparr>" by simp
  then have "x = ?new\<lparr>DefaultGroup := DefaultGroup x\<rparr>" unfolding x(2) by simp
  moreover have "map_option ?clear (GetGroup GG j s') = map_option ?clear (GetGroup GG j s)" if "j \<noteq> gID data" for j
    using by_rows [OF ok' same, of j] by_rows [OF s1(1) assms(3) s1(2), of j] sv(4) [of j] g(2) that by (simp add: GetGroup_def dd)
  ultimately show ?thesis using x(1) by (intro exI [of _ "DefaultGroup x"]) simp
qed

lemma UpdateGroup_fields_witness:
  "\<exists>s' b g'. UpdateGroup group_table clear_flags ''e'' (Inr (test_group\<lparr>gName := ''x'', ProgID := ''other''\<rparr>, 3)) one_group = (s', (200, b)) \<and>
    GetGroup group_table 1 s' = Some g' \<and> gName g' = ''x'' \<and> DiodeProxyID g' = 3 \<and> ProgID g' = ''s''"
proof -
  let ?g = "test_group\<lparr>gName := ''x'', ProgID := ''other''\<rparr>"
  have d: "defaults (rows group_table (e_groups one_group)) \<le> 1" "GetGroup group_table (gID ?g) one_group = Some running_group"
    using one_group_ok(2) by (simp_all add: one_group_def)
  have "gID running_group \<in> gID ` set (rows group_table (e_groups one_group))" by (simp add: one_group_def)
  then obtain s' b where r: "UpdateGroup group_table clear_flags ''e'' (Inr (?g, 3)) one_group = (s', (200, b))"
    using save_and_list [OF group_rows.gorm_reliable_axioms clear_flags_works one_group_ok(1) d(1) disjI2 refl, of
        "running_group\<lparr>gName := ''x'', gDescription := gDescription ?g, DefaultGroup := DefaultGroup ?g, DiodeProxyID := 3,
          Interval := Interval ?g, RunAtStart := RunAtStart ?g\<rparr>" "''UpdateGroup''"] d(2)
    by (auto simp: UpdateGroup_def Let_def GetGroup_def)
  from UpdateGroup_fields [OF group_rows.gorm_reliable_axioms clear_flags_works one_group_ok(1) d r]
  have "\<exists>g'. GetGroup group_table 1 s' = Some g' \<and> gName g' = ''x'' \<and> DiodeProxyID g' = 3 \<and> ProgID g' = ''s''"
    by (auto simp: running_group_def)
  then show ?thesis using r by blast
qed

text \<open>
  C34. A stopped group with tags can be started any number of times: until its first collector has come up
  and marked it running, every start request is answered with 200 and spawns one more collector.
\<close>

theorem started_again:
  assumes "GetGroup GG (gid_param p) s = Some g" and "Status g = GroupStatusNotRunning" and "tags_of GT g s \<noteq> []"
  shows "snd (GetGroupStart GG GT p (((\<lambda>s. fst (GetGroupStart GG GT p s)) ^^ n) s)) = (200, JGroup g) \<and>
    spawned (((\<lambda>s. fst (GetGroupStart GG GT p s)) ^^ n) s) = spawned s @ replicate n (g, tags_of GT g s)"
proof -
  let ?start = "\<lambda>s. fst (GetGroupStart GG GT p s)"
  have one: "GetGroupStart GG GT p u = (u\<lparr>spawned := spawned u @ [(g, tags_of GT g s)]\<rparr>, (200, JGroup g))"
    if "e_groups u = e_groups s" "e_tags u = e_tags s" for u
  proof -
    have "GetGroup GG (gid_param p) u = Some g" "tags_of GT g u = tags_of GT g s" using that assms(1) by (simp_all add: GetGroup_def tags_of_def)
    then have "Start GT g u = (u\<lparr>spawned := spawned u @ [(g, tags_of GT g s)]\<rparr>, None)"
      using assms(2,3) by (simp add: Start_def Let_def find_group_id flip: tags_of_def)
    then show ?thesis using \<open>GetGroup GG (gid_param p) u = Some g\<close> by (simp add: GetGroupStart_def)
  qed
  have "e_groups ((?start ^^ n) s) = e_groups s \<and> e_tags ((?start ^^ n) s) = e_tags s \<and>
      spawned ((?start ^^ n) s) = spawned s @ replicate n (g, tags_of GT g s)"
  proof (induction n)
    case (Suc n)
    then show ?case using one [of "(?start ^^ n) s"] by (simp add: replicate_append_same)
  qed simp
  then show ?thesis using one by simp
qed

lemma started_again_witness:
  "length (spawned (((\<lambda>s. fst (GetGroupStart group_table tag_table ''1'' s)) ^^ 2) (one_group\<lparr>e_groups := [test_group]\<rparr>))) = 2"
proof -
  have "gid_param ''1'' = 1"
    by (simp add: gid_param_def uint64_def Atoi_def strip_sign_def is_digit_def digit_val_def clamp64_def)
  then have "GetGroup group_table (gid_param ''1'') (one_group\<lparr>e_groups := [test_group]\<rparr>) = Some test_group"
    by (simp add: GetGroup_def group_table_def list_table_def)
  moreover have "tags_of tag_table test_group (one_group\<lparr>e_groups := [test_group]\<rparr>) \<noteq> []" "spawned one_group = []"
    by (simp_all add: tags_of_def tag_table_def list_table_def one_group_def)
  ultimately show ?thesis
    using started_again [of group_table "''1''" "one_group\<lparr>e_groups := [test_group]\<rparr>" test_group tag_table 2] by simp
qed

section \<open>Tags\<close>

lemma post_names_counts:
  "post_names GT gid names items (d, n) = (d', n') \<Longrightarrow>
    n_saved n' + n_failed n' + n_skipped n' = n_saved n + n_failed n + n_skipped n + int (length items)"
proof (induction items arbitrary: d n)
  case (Cons x items)
  then show ?case by (fastforce split: if_splits prod.splits option.splits)
qed simp

lemma post_names_rows:
  assumes "gorm_reliable GT tID with_tID ok" and "ok d"
  shows "\<exists>d' n' ts. post_names GT gid names items (d, n) = (d', n') \<and> ok d' \<and> rows GT d' = rows GT d @ ts \<and> n_failed n' = n_failed n \<and>
    n_saved n' = n_saved n + int (length ts) \<and> map tName ts = filter (\<lambda>x. x \<notin> set names) items \<and> (\<forall>t \<in> set ts. tGroupID t = gid)"
  using assms(2)
proof (induction items arbitrary: d n)
  case (Cons x items)
  show ?case
  proof (cases "x \<in> set names")
    case True
    then show ?thesis using Cons.IH [OF Cons.prems, of "n\<lparr>n_skipped := n_skipped n + 1\<rparr>"] by auto
  next
    case False
    have "tID (new_tag x gid) = 0" by (simp add: new_tag_def)
    from gorm_reliable.created [OF assms(1) Cons.prems this] obtain k d1 where
      k: "g_create GT (new_tag x gid) d = (d1, Some (with_tID k (new_tag x gid)))" "rows GT d1 = rows GT d @ [with_tID k (new_tag x gid)]" "ok d1"
      by metis
    from Cons.IH [OF k(3), of "n\<lparr>n_saved := n_saved n + 1\<rparr>"] obtain d' n' ts where
      r: "post_names GT gid names items (d1, n\<lparr>n_saved := n_saved n + 1\<rparr>) = (d', n')" "ok d'" "rows GT d' = rows GT d1 @ ts"
        "n_failed n' = n_failed n" "n_saved n' = n_saved n + 1 + int (length ts)" "map tName ts = filter (\<lambda>x. x \<notin> set names) items"
        "\<forall>t \<in> set ts. tGroupID t = gid"
      by auto
    have "post_names GT gid names (x # items) (d, n) = (d', n')" using False k(1) r(1) by auto
    then show ?thesis
      using r(2-) k(2) False by (intro exI [of _ d'] exI [of _ n'] exI [of _ "with_tID k (new_tag x gid) # ts"]) (simp add: new_tag_def)
  qed
qed auto

lemma posted_tags:
  assumes "gorm_reliable GT tID with_tID ok" and "ok (e_tags s)" and "GetDefaultGroup GG s = Some dg"
    and "PostTagNames GG GT None (Inr items) s = (s1, r1)"
  obtains ts where "ok (e_tags s1)" "rows GT (e_tags s1) = rows GT (e_tags s) @ ts"
    "map tName ts = filter (\<lambda>x. x \<notin> set (tag_names GT s)) items" "e_groups s1 = e_groups s"
proof -
  let ?n = "\<lparr>n_saved = 0, n_failed = 0, n_skipped = 0\<rparr>"
  obtain d n ts where "post_names GT (gID dg) (tag_names GT s) items (e_tags s, ?n) = (d, n)" "ok d" "rows GT d = rows GT (e_tags s) @ ts"
      "map tName ts = filter (\<lambda>x. x \<notin> set (tag_names GT s)) items"
    using post_names_rows [OF assms(1,2), of "gID dg" "tag_names GT s" items ?n] by auto
  then show thesis using assms(3,4) by (intro that [of ts]) (auto simp: PostTagNames_def GetTagNames_def)
qed

text \<open>
  C27. Posting tag names adds a tag in the default group for every name of the request that is not in the table,
  in the order of the request, and the counts add up to its length. The names are compared with those
  in the table before the request only: a new name that is in the request twice is added twice. When the
  query of the names fails, or there is no default group, nothing is added and the reply is 400.
\<close>

theorem PostTagNames_adds:
  assumes "gorm_reliable GT tID with_tID ok" and "ok (e_tags s)" and "GetDefaultGroup GG s = Some dg"
  shows "\<exists>s' saved skipped ts. PostTagNames GG GT None (Inr items) s =
      (s', (200, JCounts [(''saved'', saved), (''failed'', 0), (''skipped'', skipped), (''total'', int (length items))])) \<and>
    saved + skipped = int (length items) \<and> ok (e_tags s') \<and> rows GT (e_tags s') = rows GT (e_tags s) @ ts \<and> saved = int (length ts) \<and>
    map tName ts = filter (\<lambda>x. x \<notin> set (tag_names GT s)) items \<and> (\<forall>t \<in> set ts. tGroupID t = gID dg) \<and>
    (\<forall>e. PostTagNames GG GT (Some e) (Inr items) s = (s, handleError)) \<and>
    (\<forall>u qerr. GetDefaultGroup GG u = None \<longrightarrow> PostTagNames GG GT qerr (Inr items) u = (u, handleError))"
proof -
  let ?n = "\<lparr>n_saved = 0, n_failed = 0, n_skipped = 0\<rparr>"
  obtain d n ts where r: "post_names GT (gID dg) (tag_names GT s) items (e_tags s, ?n) = (d, n)" "ok d" "rows GT d = rows GT (e_tags s) @ ts"
      "n_failed n = 0" "n_saved n = int (length ts)" "map tName ts = filter (\<lambda>x. x \<notin> set (tag_names GT s)) items"
      "\<forall>t \<in> set ts. tGroupID t = gID dg"
    using post_names_rows [OF assms(1,2), of "gID dg" "tag_names GT s" items ?n] by auto
  have "n_saved n + n_skipped n = int (length items)" using post_names_counts [OF r(1)] r(4) by simp
  then show ?thesis
    using assms(3) r by (intro exI [of _ "s\<lparr>e_tags := d\<rparr>"] exI [of _ "n_saved n"] exI [of _ "n_skipped n"] exI [of _ ts])
      (simp add: PostTagNames_def GetTagNames_def split: option.split)
qed

lemma default_one_group: "GetDefaultGroup group_table (one_group\<lparr>e_tags := ts\<rparr>) = Some running_group"
  by (simp add: GetDefaultGroup_def one_group_def group_table_def list_table_def running_group_def test_group_def)

lemma tags_one_group: "list_inv tID (e_tags one_group)" "tag_names tag_table one_group = [''t'']"
  by (simp_all add: one_group_def list_inv_def tag_names_def)

lemma PostTagNames_adds_witness:
  "\<exists>s'. PostTagNames group_table tag_table None (Inr [''a'', ''t'', ''a'']) one_group =
      (s', (200, JCounts [(''saved'', 2), (''failed'', 0), (''skipped'', 1), (''total'', 3)])) \<and>
    map tName (e_tags s') = [''t'', ''a'', ''a'']"
proof -
  have "GetDefaultGroup group_table one_group = Some running_group" using default_one_group [of "e_tags one_group"] by simp
  from PostTagNames_adds [OF tag_rows.gorm_reliable_axioms tags_one_group(1) this, of "[''a'', ''t'', ''a'']"]
  obtain s' saved skipped ts where r: "PostTagNames group_table tag_table None (Inr [''a'', ''t'', ''a'']) one_group =
      (s', (200, JCounts [(''saved'', saved), (''failed'', 0), (''skipped'', skipped), (''total'', int (length [''a'', ''t'', ''a'']))]))"
    "saved + skipped = int (length [''a'', ''t'', ''a''])" "rows tag_table (e_tags s') = rows tag_table (e_tags one_group) @ ts"
    "saved = int (length ts)" "map tName ts = filter (\<lambda>x. x \<notin> set (tag_names tag_table one_group)) [''a'', ''t'', ''a'']"
    by (elim exE conjE) (rule that)
  have names: "map tName ts = [''a'', ''a'']" using r(5) by (simp add: tags_one_group(2))
  have "length ts = 2" using arg_cong [OF names, of length] by simp
  then have "saved = 2" "skipped = 1" using r(2,4) by simp_all
  moreover have "map tName (e_tags s') = [''t'', ''a'', ''a'']" using r(3) names by (simp add: one_group_def)
  ultimately show ?thesis using r(1) by (intro exI [of _ s']) simp
qed

text \<open>
  Posting names that are not in the table and deleting them again leaves the table as it was, whatever was
  posted twice.
\<close>

theorem post_delete_tags:
  assumes "gorm_reliable GT tID with_tID ok" and "ok (e_tags s)" and "GetDefaultGroup GG s = Some dg"
    and "set items \<inter> set (tag_names GT s) = {}"
    and "PostTagNames GG GT None (Inr items) s = (s1, r1)" and "DeleteTagNames GT e (Inr items) s1 = (s2, r2)"
  shows "r2 = (200, JDeleted items) \<and> ok (e_tags s2) \<and> rows GT (e_tags s2) = rows GT (e_tags s) \<and> e_groups s2 = e_groups s"
proof -
  obtain ts where ts: "ok (e_tags s1)" "rows GT (e_tags s1) = rows GT (e_tags s) @ ts"
      "map tName ts = filter (\<lambda>x. x \<notin> set (tag_names GT s)) items" "e_groups s1 = e_groups s"
    by (rule posted_tags [OF assms(1-3,5)])
  note del = gorm_reliable.deleted [OF assms(1) ts(1), of "\<lambda>t. tName t \<in> set items"]
  have "filter (\<lambda>t. tName t \<notin> set items) (rows GT (e_tags s)) = rows GT (e_tags s)"
    using assms(4) by (auto simp: filter_id_conv tag_names_def)
  moreover have "tName ` set ts \<subseteq> set items" using arg_cong [OF ts(3), of set] by auto
  then have "filter (\<lambda>t. tName t \<notin> set items) ts = []" by (auto simp: filter_empty_conv)
  ultimately show ?thesis
    using assms(6) del ts(2,4) by (cases "g_delete GT (\<lambda>t. tName t \<in> set items) (e_tags s1)") (auto simp: DeleteTagNames_def)
qed

lemma post_delete_tags_witness:
  "e_tags (fst (DeleteTagNames tag_table ''e'' (Inr [''a'', ''a'']) (fst (PostTagNames group_table tag_table None (Inr [''a'', ''a'']) one_group)))) =
    e_tags one_group"
proof -
  have "GetDefaultGroup group_table one_group = Some running_group" using default_one_group [of "e_tags one_group"] by simp
  moreover have "set [''a'', ''a''] \<inter> set (tag_names tag_table one_group) = {}" by (simp add: tags_one_group(2))
  ultimately show ?thesis
    using post_delete_tags [OF tag_rows.gorm_reliable_axioms tags_one_group(1)] by (metis prod.collapse rows_tables(2))
qed

lemma save_any:
  assumes "gorm_reliable GT tID with_tID ok" and "ok d" and "tID t = 0 \<or> tID t \<in> tID ` set (rows GT d)"
  shows "\<exists>d' t'. g_save GT t d = (d', Some t') \<and> ok d' \<and> tID ` set (rows GT d) \<subseteq> tID ` set (rows GT d') \<and>
    length (rows GT d') = length (rows GT d) + (if tID t = 0 then 1 else 0)"
proof (cases "tID t = 0")
  case True
  have "g_save GT t d = g_create GT t d"
    by (rule gorm_table.save_new [OF gorm_reliable.axioms(1) [OF assms(1)] assms(2) True])
  moreover obtain k where "g_create GT t d = (fst (g_create GT t d), Some (with_tID k t))"
      "rows GT (fst (g_create GT t d)) = rows GT d @ [with_tID k t]" "ok (fst (g_create GT t d))"
    using gorm_reliable.created [OF assms(1,2) True] by blast
  ultimately show ?thesis
    using True by (intro exI [of _ "fst (g_create GT t d)"] exI [of _ "with_tID k t"]) auto
next
  case False
  then have "tID t \<in> tID ` set (rows GT d)" using assms(3) by simp
  note sv = gorm_reliable.saved [OF assms(1,2) this]
  have "tID ` set (rows GT (fst (g_save GT t d))) = set (map tID (map (\<lambda>x. if tID x = tID t then t else x) (rows GT d)))"
    by (simp only: sv(3) set_map)
  also have "map tID (map (\<lambda>x. if tID x = tID t then t else x) (rows GT d)) = map tID (rows GT d)" by simp
  finally show ?thesis
    using False sv by (intro exI [of _ "fst (g_save GT t d)"] exI [of _ t]) (auto simp: prod_eq_iff)
qed

lemma try_save_found:
  assumes "g_save GT item d = (d', Some t')"
  shows "try_save GT item names d = (if tName item \<in> set names then (d', True) else (d, False))"
  using assms by (induction names) auto

lemma post_changes_rows:
  assumes "gorm_reliable GT tID with_tID ok" and "ok d"
    and "\<forall>t \<in> set items. tID t = 0 \<or> tID t \<in> tID ` set (rows GT d) \<and> tName t \<in> set names"
  shows "\<exists>d' n'. post_changes GT gid names items (d, n) = (d', n') \<and> ok d' \<and> n_fail n' = n_fail n \<and>
    n_updated n' = n_updated n + int (length (filter (\<lambda>t. tName t \<in> set names) items)) \<and>
    n_new n' = n_new n + int (length (filter (\<lambda>t. tName t \<notin> set names) items)) \<and>
    length (rows GT d') = length (rows GT d) + length (filter (\<lambda>t. tID t = 0) items)"
  using assms(2,3)
proof (induction items arbitrary: d n)
  case (Cons t items)
  show ?case
  proof (cases "tName t \<in> set names")
    case True
    obtain d1 t1 where d1: "g_save GT t d = (d1, Some t1)" "ok d1" "tID ` set (rows GT d) \<subseteq> tID ` set (rows GT d1)"
        "length (rows GT d1) = length (rows GT d) + (if tID t = 0 then 1 else 0)"
      using save_any [OF assms(1) Cons.prems(1), of t] Cons.prems(2) by auto
    have "\<forall>u \<in> set items. tID u = 0 \<or> tID u \<in> tID ` set (rows GT d1) \<and> tName u \<in> set names"
      using Cons.prems(2) subsetD [OF d1(3)] by fastforce
    then show ?thesis
      using Cons.IH [OF d1(2), of "n\<lparr>n_updated := n_updated n + 1\<rparr>"] True d1(4) try_save_found [OF d1(1), of names] by auto
  next
    case False
    let ?t = "if tGroupID t = 0 then t\<lparr>tGroupID := gid\<rparr> else t"
    have t: "tID t = 0" "tID ?t = 0" using Cons.prems(2) False by auto
    obtain k d1 where d1: "g_create GT ?t d = (d1, Some (with_tID k ?t))" "rows GT d1 = rows GT d @ [with_tID k ?t]" "ok d1"
      using gorm_reliable.created [OF assms(1) Cons.prems(1) t(2)] by metis
    have no: "try_save GT t names d = (d, False)" using False by (induction names) auto
    have "\<forall>u \<in> set items. tID u = 0 \<or> tID u \<in> tID ` set (rows GT d1) \<and> tName u \<in> set names" using Cons.prems(2) d1(2) by auto
    then show ?thesis
      using Cons.IH [OF d1(3), of "n\<lparr>n_new := n_new n + 1\<rparr>"] False d1(1,2) no t(1) by auto
  qed
qed simp

text \<open>
  Posted changes are counted as updates when their name is in the table and as new tags otherwise. But a change
  that comes without the id of its tag adds a row whatever its name: those counted as updates give the
  table a second tag of the same name.
\<close>

theorem PostTagChanges_rows:
  assumes "gorm_reliable GT tID with_tID ok" and "ok (e_tags s)" and "GetDefaultGroup GG s = Some dg"
    and "\<forall>t \<in> set items. tID t = 0 \<or> tID t \<in> tID ` set (rows GT (e_tags s)) \<and> tName t \<in> set (tag_names GT s)"
  shows "\<exists>s'. PostTagChanges GG GT None (Inr items) s = (s', (200, JCounts
      [(''new'', int (length (filter (\<lambda>t. tName t \<notin> set (tag_names GT s)) items))),
       (''updated'', int (length (filter (\<lambda>t. tName t \<in> set (tag_names GT s)) items))),
       (''failed'', 0), (''total'', int (length items))])) \<and>
    length (rows GT (e_tags s')) = length (rows GT (e_tags s)) + length (filter (\<lambda>t. tID t = 0) items)"
proof -
  obtain d n where "post_changes GT (gID dg) (tag_names GT s) items (e_tags s, \<lparr>n_new = 0, n_updated = 0, n_fail = 0\<rparr>) = (d, n)"
      "n_fail n = 0" "n_updated n = int (length (filter (\<lambda>t. tName t \<in> set (tag_names GT s)) items))"
      "n_new n = int (length (filter (\<lambda>t. tName t \<notin> set (tag_names GT s)) items))"
      "length (rows GT d) = length (rows GT (e_tags s)) + length (filter (\<lambda>t. tID t = 0) items)"
    using post_changes_rows [OF assms(1,2,4), of "gID dg" "\<lparr>n_new = 0, n_updated = 0, n_fail = 0\<rparr>"] by auto
  then show ?thesis
    using assms(3) by (intro exI [of _ "s\<lparr>e_tags := d\<rparr>"]) (simp add: PostTagChanges_def GetTagNames_def)
qed

lemma PostTagChanges_rows_witness:
  "\<exists>s'. PostTagChanges group_table tag_table None (Inr [new_tag ''t'' 1]) one_group =
      (s', (200, JCounts [(''new'', 0), (''updated'', 1), (''failed'', 0), (''total'', 1)])) \<and> length (e_tags s') = 2"
proof -
  have "GetDefaultGroup group_table one_group = Some running_group" using default_one_group [of "e_tags one_group"] by simp
  then show ?thesis
    using PostTagChanges_rows [OF tag_rows.gorm_reliable_axioms tags_one_group(1), of group_table running_group "[new_tag ''t'' 1]"]
    by (simp add: tags_one_group(2) new_tag_def) (simp add: one_group_def numeral_2_eq_2)
qed

end
