(* ===== verification/Servers.thy ===== *)
theory Servers imports GoFmt begin

text \<open>
  The OPC servers and browsing them (\<^verbatim>\<open>engine/server.go\<close> and the handlers for \<^verbatim>\<open>/opc/server\<close> of
  \<^verbatim>\<open>routes/opc.go\<close>). The browsing library is a parameter: its calls may panic, and a cursor is the
  state it moves through. One mutex guards the calls; a handler that panics has its status set to
  500 by the deferred \<^verbatim>\<open>handlePanic\<close>, but the mutex stays locked.
\<close>

section \<open>State\<close>

record 'cur Server =
  srvID :: int
  srvProgID :: string
  Cursor :: "'cur option"

record 'cur srv_state =
  servers :: "'cur Server list"
  srv_mutex :: bool
  srv_events :: "event list"

text \<open>
  The calls of the library. The cursor of \<^verbatim>\<open>CreateBrowserCursor\<close> may be nil, and comes with an
  error or without one; moves give the cursor moved.
\<close>

record 'cur browsing =
  b_create :: "string \<Rightarrow> ('cur option \<times> string option) outcome"
  b_home :: "'cur option \<Rightarrow> 'cur option outcome"
  b_to :: "string \<Rightarrow> 'cur option \<Rightarrow> 'cur option outcome"
  b_branches :: "'cur option \<Rightarrow> string list outcome"
  b_leaves :: "'cur option \<Rightarrow> string list outcome"
  b_position :: "'cur option \<Rightarrow> string outcome"

definition srv_emit :: "event list \<Rightarrow> 'cur srv_state \<Rightarrow> 'cur srv_state" where
  "srv_emit es s = s\<lparr>srv_events := srv_events s @ es\<rparr>"

section \<open>The servers\<close>

text \<open>
  \<open>gray\<close>: the simulator can be connected to; \<open>found\<close>: the servers listed by the automation
  object, \<open>None\<close> when there is none.
\<close>

fun add_servers :: "string list \<Rightarrow> int \<Rightarrow> 'cur srv_state \<Rightarrow> 'cur srv_state" where
  "add_servers [] i s = s"
| "add_servers (server # found) i s =
     (let s1 = srv_emit [Logged ''trace'' ''OPC server found'' server] s
      in add_servers found (i + 1) (s1\<lparr>servers := servers s1 @ [\<lparr>srvID = i, srvProgID = server, Cursor = None\<rparr>]\<rparr>))"

definition InitServers :: "bool \<Rightarrow> string list option \<Rightarrow> 'cur srv_state \<Rightarrow> 'cur srv_state" where
  "InitServers gray found s =
     (let (s1, i) = (if gray then (s\<lparr>servers := servers s @ [\<lparr>srvID = 0, srvProgID = ''Graybox.Simulator'', Cursor = None\<rparr>]\<rparr>, 1)
                     else (s, 0))
      in case found of
           Some fs \<Rightarrow> add_servers fs i (srv_emit [Logged ''trace'' ''OPC server init''
               (Sprintf ''Found %d server(s) on '' [AInt (int (length fs) + i)] @ [CHR 0x27] @ ''localhost'' @ [CHR 0x27, CHR '':'', CHR 0x0A])] s1)
         | None \<Rightarrow> srv_emit [Logged ''error'' ''OPC server init failure'' ''Unable to get new automation object''] s1)"

definition GetServer :: "int \<Rightarrow> 'cur srv_state \<Rightarrow> string + 'cur Server" where
  "GetServer sid s =
     (if sid < 0 \<or> sid \<ge> int (length (servers s)) then Inl (Sprintf ''no such server id: %d'' [AInt sid])
      else Inr (servers s ! nat sid))"

definition set_cursor :: "int \<Rightarrow> 'cur option \<Rightarrow> 'cur srv_state \<Rightarrow> 'cur srv_state" where
  "set_cursor sid c s = s\<lparr>servers := (servers s)[nat sid := (servers s ! nat sid)\<lparr>Cursor := c\<rparr>]\<rparr>"

definition GetServers :: "'cur srv_state \<Rightarrow> 'cur Server list" where
  "GetServers s = servers s"

text \<open>Locking does not return while another holds the mutex.\<close>

definition Lock :: "'cur srv_state \<Rightarrow> 'cur srv_state \<times> unit outcome" where
  "Lock s = (if srv_mutex s then (s, NoReturn) else (s\<lparr>srv_mutex := True\<rparr>, Ret ()))"

definition Unlock :: "'cur srv_state \<Rightarrow> 'cur srv_state" where
  "Unlock s = s\<lparr>srv_mutex := False\<rparr>"

text \<open>
  The cursor, and the error. A panic of the library is recovered from with the mutex held and gives
  nil and no error.
\<close>

definition GetBrowser :: "'cur browsing \<Rightarrow> int \<Rightarrow> 'cur srv_state \<Rightarrow> 'cur srv_state \<times> ('cur option \<times> string option) outcome" where
  "GetBrowser B sid s = (case GetServer sid s of
       Inl err \<Rightarrow> (srv_emit (error_events ''Servers engine''
           (Sprintf (''Failed to get server '' @ [CHR 0x27] @ ''%s'' @ [CHR 0x27] @ '', error: %s'') [AInt sid, AStr err])) s, Ret (None, Some err))
     | Inr server \<Rightarrow>
         (case Cursor server of
            Some c \<Rightarrow> (s, Ret (Some c, None))
          | None \<Rightarrow>
              (case Lock s of
                 (s1, Ret _) \<Rightarrow>
                   (case b_create B (srvProgID server) of
                      Ret (c, err) \<Rightarrow> (Unlock (set_cursor sid c s1), Ret (c, err))
                    | Panic m \<Rightarrow> (s1, Ret (None, None))
                    | Fatal m \<Rightarrow> (s1, Fatal m)
                    | NoReturn \<Rightarrow> (s1, NoReturn))
               | (s1, _) \<Rightarrow> (s1, NoReturn))))"

section \<open>Handlers\<close>

text \<open>
  A reply is a status code and a body. An error value has no exported fields: coded as JSON it is the
  empty object.
\<close>

datatype 'cur srv_body =
    SServers "'cur Server list"
  | SServer "'cur Server"
  | SRoot "'cur Server" string "string list" "string list"
  | SPosition string
  | SItems "string list"
  | SListing string "string list" "string list"
  | SEmpty
  | SPanic string

type_synonym 'cur reply = "int \<times> 'cur srv_body"

definition hex_val :: "char \<Rightarrow> nat option" where
  "hex_val c = (let n = of_char c :: nat in
     if 48 \<le> n \<and> n \<le> 57 then Some (n - 48)
     else if 65 \<le> n \<and> n \<le> 70 then Some (n - 55)
     else if 97 \<le> n \<and> n \<le> 102 then Some (n - 87) else None)"

text \<open>\<^verbatim>\<open>url.QueryUnescape\<close>\<close>

fun QueryUnescape :: "string \<Rightarrow> string option" where
  "QueryUnescape [] = Some []"
| "QueryUnescape (c # cs) =
     (if c = CHR ''%''
      then (case cs of
              a # b # rest \<Rightarrow> (case (hex_val a, hex_val b) of
                 (Some x, Some y) \<Rightarrow> map_option (\<lambda>r. char_of (16 * x + y) # r) (QueryUnescape rest)
               | _ \<Rightarrow> None)
            | _ \<Rightarrow> None)
      else map_option (\<lambda>r. (if c = CHR ''+'' then CHR '' '' else c) # r) (QueryUnescape cs))"

text \<open>The calls between \<^verbatim>\<open>engine.Lock\<close> and \<^verbatim>\<open>engine.Unlock\<close>, which give the cursor they leave and the answer.\<close>

definition locked :: "int \<Rightarrow> 'cur option \<Rightarrow> ('cur option \<Rightarrow> 'cur option \<times> 'a outcome) \<Rightarrow> ('a \<Rightarrow> 'cur srv_body) \<Rightarrow> 'cur srv_state \<Rightarrow>
    'cur srv_state \<times> 'cur reply outcome" where
  "locked sid browser calls answer s =
     (case Lock s of
        (s1, Ret _) \<Rightarrow>
          (case calls browser of (c, r) \<Rightarrow>
             let s2 = (if browser = None then s1 else set_cursor sid c s1) in
             case r of
               Ret a \<Rightarrow> (Unlock s2, Ret (200, answer a))
             | Panic m \<Rightarrow> (s2, Ret (500, SPanic m))
             | Fatal m \<Rightarrow> (s2, Fatal m)
             | NoReturn \<Rightarrow> (s2, NoReturn))
      | (s1, _) \<Rightarrow> (s1, NoReturn))"

definition b_move :: "('cur option \<Rightarrow> 'cur option outcome) \<Rightarrow> ('cur option \<Rightarrow> 'cur option \<times> 'a outcome) \<Rightarrow> 'cur option \<Rightarrow> 'cur option \<times> 'a outcome" where
  "b_move mv k c = (case mv c of Ret c' \<Rightarrow> k c' | Panic m \<Rightarrow> (c, Panic m) | Fatal m \<Rightarrow> (c, Fatal m) | NoReturn \<Rightarrow> (c, NoReturn))"

definition b_ask :: "('cur option \<Rightarrow> 'b outcome) \<Rightarrow> ('b \<Rightarrow> 'cur option \<Rightarrow> 'cur option \<times> 'a outcome) \<Rightarrow> 'cur option \<Rightarrow> 'cur option \<times> 'a outcome" where
  "b_ask q k c = (case q c of Ret b \<Rightarrow> k b c | Panic m \<Rightarrow> (c, Panic m) | Fatal m \<Rightarrow> (c, Fatal m) | NoReturn \<Rightarrow> (c, NoReturn))"

definition GetAllServers :: "'cur srv_state \<Rightarrow> 'cur reply" where
  "GetAllServers s = (200, SServers (GetServers s))"

text \<open>A server id that is not a number is 0, the first server.\<close>

definition GetServerById :: "string \<Rightarrow> 'cur srv_state \<Rightarrow> 'cur reply" where
  "GetServerById serverid s = (case GetServer (fst (Atoi serverid)) s of
      Inl err \<Rightarrow> (400, SEmpty)
    | Inr server \<Rightarrow> (200, SServer server))"

definition with_browser :: "'cur browsing \<Rightarrow> string \<Rightarrow> (int \<Rightarrow> 'cur option \<Rightarrow> 'cur srv_state \<Rightarrow> 'cur srv_state \<times> 'cur reply outcome) \<Rightarrow>
    'cur srv_state \<Rightarrow> 'cur srv_state \<times> 'cur reply outcome" where
  "with_browser B serverid k s =
     (let sid = fst (Atoi serverid) in
      case GetBrowser B sid s of
        (s', Ret (browser, None)) \<Rightarrow> k sid browser s'
      | (s', Ret (browser, Some err)) \<Rightarrow> (s', Ret (400, SEmpty))
      | (s', Panic m) \<Rightarrow> (s', Panic m)
      | (s', Fatal m) \<Rightarrow> (s', Fatal m)
      | (s', NoReturn) \<Rightarrow> (s', NoReturn))"

definition root_position :: "string \<Rightarrow> string" where
  "root_position p = Sprintf ''root.%s'' [AStr p]"

text \<open>Here \<^verbatim>\<open>GetServer\<close> finds the server, since \<^verbatim>\<open>GetBrowser\<close> has.\<close>

definition GetServerRoot :: "'cur browsing \<Rightarrow> string \<Rightarrow> 'cur srv_state \<Rightarrow> 'cur srv_state \<times> 'cur reply outcome" where
  "GetServerRoot B serverid = with_browser B serverid (\<lambda>sid browser s.
     locked sid browser
       (b_move (b_home B) (b_ask (b_branches B) (\<lambda>branches. b_ask (b_leaves B) (\<lambda>leaves. b_ask (b_position B) (\<lambda>p c.
          (c, Ret (root_position p, branches, leaves, c)))))))
       (\<lambda>(position, branches, leaves, c). SRoot ((servers s ! nat sid)\<lparr>Cursor := c\<rparr>) position branches leaves) s)"

definition GetServerPosition :: "'cur browsing \<Rightarrow> string \<Rightarrow> 'cur srv_state \<Rightarrow> 'cur srv_state \<times> 'cur reply outcome" where
  "GetServerPosition B serverid = with_browser B serverid (\<lambda>sid browser.
     locked sid browser (b_ask (b_position B) (\<lambda>p c. (c, Ret p))) SPosition)"

text \<open>A branch that cannot be decoded is answered with 400 and logged.\<close>

definition with_branch :: "string \<Rightarrow> string \<Rightarrow> (string \<Rightarrow> 'cur srv_state \<Rightarrow> 'cur srv_state \<times> 'cur reply outcome) \<Rightarrow>
    'cur srv_state \<Rightarrow> 'cur srv_state \<times> 'cur reply outcome" where
  "with_branch title encodedbranch k s = (case QueryUnescape encodedbranch of
       None \<Rightarrow> (srv_emit (error_events title (Sprintf ''Failed to decode branch: %s'' [AStr encodedbranch])) s, Ret (400, SEmpty))
     | Some branch \<Rightarrow> k branch s)"

definition GetServerBranches :: "'cur browsing \<Rightarrow> string \<Rightarrow> string \<Rightarrow> 'cur srv_state \<Rightarrow> 'cur srv_state \<times> 'cur reply outcome" where
  "GetServerBranches B serverid encodedbranch = with_browser B serverid (\<lambda>sid browser.
     with_branch ''OPC route'' encodedbranch (\<lambda>branch.
       locked sid browser (b_move (b_to B branch) (b_ask (b_branches B) (\<lambda>items c. (c, Ret items)))) SItems))"

definition GetServerLeaves :: "'cur browsing \<Rightarrow> string \<Rightarrow> string \<Rightarrow> 'cur srv_state \<Rightarrow> 'cur srv_state \<times> 'cur reply outcome" where
  "GetServerLeaves B serverid encodedbranch = with_browser B serverid (\<lambda>sid browser.
     with_branch ''File transfer'' encodedbranch (\<lambda>branch.
       locked sid browser (b_move (b_to B branch) (b_ask (b_leaves B) (\<lambda>items c. (c, Ret items)))) SItems))"

definition GetServerListBranches :: "'cur browsing \<Rightarrow> string \<Rightarrow> string \<Rightarrow> 'cur srv_state \<Rightarrow> 'cur srv_state \<times> 'cur reply outcome" where
  "GetServerListBranches B serverid encodedbranch = with_browser B serverid (\<lambda>sid browser.
     with_branch ''File transfer'' encodedbranch (\<lambda>branch.
       locked sid browser
         (b_move (b_to B branch) (b_ask (b_branches B) (\<lambda>branches. b_ask (b_leaves B) (\<lambda>leaves. b_ask (b_position B) (\<lambda>p c.
            (c, Ret (root_position p, branches, leaves)))))))
         (\<lambda>(position, branches, leaves). SListing position branches leaves)))"

text \<open>The requests that browse, with the handler of each; an encoded branch may be one that cannot be decoded.\<close>

datatype browse_req = Root | Position | Branches string | Leaves string | ListBranches string

fun browse :: "'cur browsing \<Rightarrow> string \<Rightarrow> browse_req \<Rightarrow> 'cur srv_state \<Rightarrow> 'cur srv_state \<times> 'cur reply outcome" where
  "browse B i Root s = GetServerRoot B i s"
| "browse B i Position s = GetServerPosition B i s"
| "browse B i (Branches br) s = GetServerBranches B i br s"
| "browse B i (Leaves br) s = GetServerLeaves B i br s"
| "browse B i (ListBranches br) s = GetServerListBranches B i br s"

fun decodable :: "browse_req \<Rightarrow> bool" where
  "decodable (Branches br) = (QueryUnescape br \<noteq> None)"
| "decodable (Leaves br) = (QueryUnescape br \<noteq> None)"
| "decodable (ListBranches br) = (QueryUnescape br \<noteq> None)"
| "decodable r = True"

definition known_server :: "string \<Rightarrow> 'cur srv_state \<Rightarrow> bool" where
  "known_server i s \<longleftrightarrow> 0 \<le> fst (Atoi i) \<and> fst (Atoi i) < int (length (servers s))"

section \<open>Lemmas\<close>

named_theorems browse_simps \<open>handlers with a browser\<close>

lemma srv_emit_simps [simp]:
  "servers (srv_emit es s) = servers s" "srv_mutex (srv_emit es s) = srv_mutex s"
  by (simp_all add: srv_emit_def)

lemma GetServer_ok: "0 \<le> sid \<Longrightarrow> sid < int (length (servers s)) \<Longrightarrow> GetServer sid s = Inr (servers s ! nat sid)"
  by (simp add: GetServer_def)

lemma GetServer_no: "sid < 0 \<or> sid \<ge> int (length (servers s)) \<Longrightarrow> \<exists>e. GetServer sid s = Inl e"
  by (simp add: GetServer_def)

lemma set_cursor_simps [simp]:
  "srv_mutex (set_cursor sid c s) = srv_mutex s" "length (servers (set_cursor sid c s)) = length (servers s)"
  by (simp_all add: set_cursor_def)

lemma Lock_free: "\<not> srv_mutex s \<Longrightarrow> Lock s = (s\<lparr>srv_mutex := True\<rparr>, Ret ())"
  by (simp add: Lock_def)

lemma Lock_busy: "srv_mutex s \<Longrightarrow> Lock s = (s, NoReturn)"
  by (simp add: Lock_def)

lemma Unlock_cursor [simp]:
  "\<not> srv_mutex s \<Longrightarrow> Unlock (set_cursor sid c (s\<lparr>srv_mutex := True\<rparr>)) = set_cursor sid c s"
  "\<not> srv_mutex s \<Longrightarrow> Unlock (s\<lparr>srv_mutex := True\<rparr>) = s"
  by (cases s; simp add: Unlock_def set_cursor_def)+

lemma set_cursor_nth:
  "0 \<le> sid \<Longrightarrow> sid < int (length (servers s)) \<Longrightarrow> servers (set_cursor sid c s) ! nat sid = (servers s ! nat sid)\<lparr>Cursor := c\<rparr>"
  "k \<noteq> nat sid \<Longrightarrow> servers (set_cursor sid c s) ! k = servers s ! k"
  by (simp_all add: set_cursor_def)

lemma browser_at:
  "0 \<le> fst (Atoi i) \<Longrightarrow> fst (Atoi i) < int (length (servers s)) \<Longrightarrow> Cursor (servers s ! nat (fst (Atoi i))) = Some c \<Longrightarrow>
    with_browser B i k s = k (fst (Atoi i)) (Some c) s"
  by (simp add: with_browser_def Let_def GetBrowser_def GetServer_ok)

lemma browser_locked:
  assumes "srv_mutex s" and "0 \<le> fst (Atoi i)" and "fst (Atoi i) < int (length (servers s))"
    and "\<And>sid c. snd (k sid (Some c) s) = NoReturn"
  shows "snd (with_browser B i k s) = NoReturn"
  using assms by (simp add: with_browser_def Let_def GetBrowser_def GetServer_ok Lock_busy split: option.splits)

lemma locked_busy [simp]: "srv_mutex s \<Longrightarrow> locked sid c calls answer s = (s, NoReturn)"
  by (simp add: locked_def Lock_busy)

lemma locked_ok:
  "\<not> srv_mutex s \<Longrightarrow> calls (Some c) = (c', Ret a) \<Longrightarrow> locked sid (Some c) calls answer s = (set_cursor sid c' s, Ret (200, answer a))"
  by (simp add: locked_def Lock_free)

lemma root_position: "root_position p = ''root.'' @ p"
  by (simp add: root_position_def Sprintf_def is_digit_def fmt_arg_verb_def fmt_extra_def)

lemma add_servers_eq:
  "servers (add_servers fs i s) = servers s @ map (\<lambda>(k, n). \<lparr>srvID = i + int k, srvProgID = n, Cursor = None\<rparr>) (List.enumerate 0 fs)"
proof (induction fs arbitrary: i s)
  case (Cons f fs)
  have "map (\<lambda>(k, n). \<lparr>srvID = i + 1 + int k, srvProgID = n, Cursor = None\<rparr>) (List.enumerate 0 fs) =
      map (\<lambda>(k, n). \<lparr>srvID = i + int k, srvProgID = n, Cursor = None :: 'a option\<rparr>) (List.enumerate 1 fs)"
    by (intro nth_equalityI) (simp_all add: nth_enumerate_eq)
  then show ?case using Cons by (simp add: Let_def)
qed simp

section \<open>Properties\<close>

text \<open>
  After the start of the engine the id of every server is its index, the one a request looks it up by:
  the simulator, when there, is server 0, the others follow in the order found; all other ids
  are refused.
\<close>

theorem server_ids:
  assumes "servers s = []" and "s' = InitServers gray (Some found) s"
  shows "map srvProgID (servers s') = (if gray then [''Graybox.Simulator''] else []) @ found \<and>
    (\<forall>k. GetServer k s' = (if 0 \<le> k \<and> k < int (length (servers s')) then Inr (servers s' ! nat k)
       else Inl (Sprintf ''no such server id: %d'' [AInt k]))) \<and>
    (\<forall>k server. GetServer k s' = Inr server \<longrightarrow> srvID server = k \<and> Cursor server = None)"
proof -
  define new :: "int \<Rightarrow> 'a Server list" where
    "new i = map (\<lambda>(k, n). \<lparr>srvID = i + int k, srvProgID = n, Cursor = None\<rparr>) (List.enumerate 0 found)" for i
  let ?gray = "\<lparr>srvID = 0, srvProgID = ''Graybox.Simulator'', Cursor = None\<rparr>"
  have s': "servers s' = (if gray then ?gray # new 1 else new 0)"
    using assms by (simp add: InitServers_def Let_def add_servers_eq new_def)
  have names: "map srvProgID (new i) = found" "length (new i) = length found" for i
    unfolding new_def by (intro nth_equalityI) (simp_all add: nth_enumerate_eq)
  have at: "srvID (new i ! k) = i + int k" "Cursor (new i ! k) = None" if "k < length found" for i k
    using that by (simp_all add: new_def nth_enumerate_eq)
  have "srvID (servers s' ! k) = int k \<and> Cursor (servers s' ! k) = None" if "k < length (servers s')" for k
  proof (cases gray)
    case True
    then show ?thesis using that at names(2) by (cases k) (simp_all add: s')
  next
    case False
    then show ?thesis using that at [of k 0] names(2) [of 0] by (simp add: s')
  qed
  then show ?thesis using names by (auto simp: s' GetServer_def split: if_splits)
qed

definition no_servers :: "nat srv_state" where
  "no_servers = \<lparr>servers = [], srv_mutex = False, srv_events = []\<rparr>"

lemma server_ids_witness:
  "map srvProgID (servers (InitServers True (Some [''A'', ''B'']) no_servers)) = [''Graybox.Simulator'', ''A'', ''B''] \<and>
   (\<exists>server. GetServer 2 (InitServers True (Some [''A'', ''B'']) no_servers) = Inr server \<and> srvID server = 2)"
proof -
  have "servers no_servers = []" by (simp add: no_servers_def)
  note ids = server_ids [OF this refl, of True "[''A'', ''B'']"]
  have "length (map srvProgID (servers (InitServers True (Some [''A'', ''B'']) no_servers))) = 3"
    by (subst ids [THEN conjunct1]) simp
  then have "length (servers (InitServers True (Some [''A'', ''B'']) no_servers)) = 3" by simp
  then have two: "GetServer 2 (InitServers True (Some [''A'', ''B'']) no_servers) =
      Inr (servers (InitServers True (Some [''A'', ''B'']) no_servers) ! 2)"
    using ids [THEN conjunct2, THEN conjunct1, rule_format, of 2] by simp
  show ?thesis
    using ids [THEN conjunct1] two ids [THEN conjunct2, THEN conjunct2, rule_format, OF two] by simp
qed

text \<open>A request on a server whose cursor is yet to be made, and making it panics.\<close>

definition create_panics :: "'cur browsing \<Rightarrow> string \<Rightarrow> 'cur srv_state \<Rightarrow> bool" where
  "create_panics B i s \<longleftrightarrow> known_server i s \<and> \<not> srv_mutex s \<and> Cursor (servers s ! nat (fst (Atoi i))) = None \<and>
     (\<exists>m. b_create B (srvProgID (servers s ! nat (fst (Atoi i)))) = Panic m)"

text \<open>Every handler that browses is a \<open>k\<close> behind \<open>with_browser\<close> that only touches the mutex through \<open>locked\<close>.\<close>

definition guarded :: "(int \<Rightarrow> 'cur option \<Rightarrow> 'cur srv_state \<Rightarrow> 'cur srv_state \<times> 'cur reply outcome) \<Rightarrow> bool" where
  "guarded k \<longleftrightarrow> (\<forall>sid c s s' r. k sid c s = (s', r) \<longrightarrow>
     (r = NoReturn \<or> (\<exists>b. r = Ret (500, b)) \<longrightarrow> srv_mutex s') \<and>
     (srv_mutex s \<longrightarrow> srv_mutex s' \<and> length (servers s') = length (servers s)))"

lemma locked_held: "locked sid c calls answer s = (s', r) \<Longrightarrow> r = NoReturn \<or> (\<exists>b. r = Ret (500, b)) \<Longrightarrow> srv_mutex s'"
  by (auto simp: locked_def Let_def Lock_def split: if_splits prod.splits outcome.splits)

lemma guarded_locked: "guarded (\<lambda>sid c s. locked sid c calls (answer sid s) s)"
  unfolding guarded_def using locked_held by (auto, blast+)

lemma guarded_branch: "guarded (\<lambda>sid c. with_branch t enc (\<lambda>br. locked sid c (calls br) answer))"
  unfolding guarded_def using locked_held by (cases "QueryUnescape enc") (auto simp: with_branch_def, blast+)

lemma GetBrowser_held:
  assumes "GetBrowser B sid s = (s', r)"
  shows "r = NoReturn \<Longrightarrow> srv_mutex s'" and "srv_mutex s \<Longrightarrow> srv_mutex s' \<and> length (servers s') = length (servers s)"
  using assms by (auto simp: GetBrowser_def Lock_def split: sum.splits option.splits outcome.splits if_splits)

lemma with_browser_held:
  assumes "guarded k" and "with_browser B i k s = (s', r)"
  shows "r = NoReturn \<or> (\<exists>b. r = Ret (500, b)) \<Longrightarrow> srv_mutex s'"
    and "srv_mutex s \<Longrightarrow> srv_mutex s' \<and> length (servers s') = length (servers s)"
proof -
  obtain s1 r1 where g: "GetBrowser B (fst (Atoi i)) s = (s1, r1)" by fastforce
  note held = GetBrowser_held [OF g]
  show "r = NoReturn \<or> (\<exists>b. r = Ret (500, b)) \<Longrightarrow> srv_mutex s'"
    using assms held(1) g unfolding guarded_def
    by (auto simp: with_browser_def Let_def split: outcome.splits option.splits)
  show "srv_mutex s \<Longrightarrow> srv_mutex s' \<and> length (servers s') = length (servers s)"
    using assms held(2) g unfolding guarded_def
    by (auto simp: with_browser_def Let_def split: outcome.splits option.splits)
qed

lemma browse_eqs:
  "browse B i Root = GetServerRoot B i" "browse B i Position = GetServerPosition B i"
  "browse B i (Branches br) = GetServerBranches B i br" "browse B i (Leaves br) = GetServerLeaves B i br"
  "browse B i (ListBranches br) = GetServerListBranches B i br"
  by (simp_all add: fun_eq_iff)

lemma browse_guarded: "\<exists>k. browse B i req = with_browser B i k \<and> guarded k"
proof (cases req)
  case Root
  show ?thesis unfolding Root browse_eqs GetServerRoot_def by (rule exI, rule conjI, rule refl, rule guarded_locked)
next
  case Position
  show ?thesis unfolding Position browse_eqs GetServerPosition_def by (rule exI, rule conjI, rule refl, rule guarded_locked)
next
  case (Branches br)
  show ?thesis unfolding Branches browse_eqs GetServerBranches_def by (rule exI, rule conjI, rule refl, rule guarded_branch)
next
  case (Leaves br)
  show ?thesis unfolding Leaves browse_eqs GetServerLeaves_def by (rule exI, rule conjI, rule refl, rule guarded_branch)
next
  case (ListBranches br)
  show ?thesis unfolding ListBranches browse_eqs GetServerListBranches_def by (rule exI, rule conjI, rule refl, rule guarded_branch)
qed

lemma create_held:
  assumes "create_panics B i s" and "guarded k" and "with_browser B i k s = (s', r)"
  shows "srv_mutex s'"
proof -
  have "GetBrowser B (fst (Atoi i)) s = (s\<lparr>srv_mutex := True\<rparr>, Ret (None, None))"
    using assms(1) by (auto simp: create_panics_def known_server_def GetBrowser_def GetServer_ok Lock_free)
  then show ?thesis using assms(2,3) unfolding guarded_def by (auto simp: with_browser_def Let_def)
qed

lemma browse_busy: "srv_mutex s \<Longrightarrow> known_server i s \<Longrightarrow> decodable req \<Longrightarrow> snd (browse B i req s) = NoReturn"
  by (cases req)
    (auto simp: known_server_def with_branch_def GetServerRoot_def GetServerPosition_def GetServerBranches_def GetServerLeaves_def
      GetServerListBranches_def intro!: browser_locked)

text \<open>
  C35. Once a request that browses panics in the library (it is answered with 500, or, when the panic was in
  making the cursor, \<open>GetBrowser\<close> has recovered from it) or does not return, no later request that browses a
  known server returns, whatever requests that browse come before it: the mutex stays locked. Only unknown
  servers, and branches that cannot be decoded, are still answered.
\<close>

theorem panic_keeps_lock:
  assumes "browse B i req s = (s', r)" and "r = Ret (500, b) \<or> r = NoReturn \<or> create_panics B i s"
    and "s'' = foldl (\<lambda>u (B, j, q). fst (browse B j q u)) s' between"
    and "known_server j s'" and "decodable later"
  shows "snd (browse B' j later s'') = NoReturn"
proof -
  obtain k where k: "guarded k" "browse B i req = with_browser B i k" using browse_guarded by blast
  have "srv_mutex s'"
    using assms(1,2) with_browser_held(1) [OF k(1)] create_held [OF _ k(1)] unfolding k(2) by blast
  then have "srv_mutex (foldl (\<lambda>u (B, j, q). fst (browse B j q u)) s' between) \<and>
      length (servers (foldl (\<lambda>u (B, j, q). fst (browse B j q u)) s' between)) = length (servers s')"
  proof (induction between rule: rev_induct)
    case (snoc x xs)
    obtain C m q where x: "x = (C, m, q)" by (cases x)
    obtain h where h: "guarded h" "browse C m q = with_browser C m h" using browse_guarded by blast
    show ?case using snoc with_browser_held(2) [OF h(1)] by (simp add: x h(2) prod_eq_iff)
  qed simp
  then show ?thesis using assms(3-5) by (intro browse_busy) (simp_all add: known_server_def)
qed

definition broken :: "nat browsing" where
  "broken = \<lparr>b_create = (\<lambda>_. Ret (Some 0, None)), b_home = (\<lambda>_. Panic ''ole''), b_to = (\<lambda>_. Ret), b_branches = (\<lambda>_. Ret []),
     b_leaves = (\<lambda>_. Ret []), b_position = (\<lambda>_. Ret [])\<rparr>"

definition one_server :: "nat srv_state" where
  "one_server = \<lparr>servers = [\<lparr>srvID = 0, srvProgID = ''A'', Cursor = None\<rparr>], srv_mutex = False, srv_events = []\<rparr>"

lemma Atoi_0: "Atoi ''0'' = (0, False)"
  by (simp add: Atoi_def strip_sign_def is_digit_def digit_val_def clamp64_def)

lemma panic_keeps_lock_witness:
  "\<exists>s'. browse broken ''0'' Root one_server = (s', Ret (500, SPanic ''ole'')) \<and>
    snd (browse broken ''0'' Position (fst (browse broken ''0'' Root s'))) = NoReturn"
proof -
  let ?s = "one_server\<lparr>servers := [\<lparr>srvID = 0, srvProgID = ''A'', Cursor = Some 0\<rparr>], srv_mutex := True\<rparr>"
  have r: "browse broken ''0'' Root one_server = (?s, Ret (500, SPanic ''ole''))"
    by (simp add: GetServerRoot_def with_browser_def Atoi_0 GetBrowser_def GetServer_def one_server_def broken_def set_cursor_def
        locked_def b_move_def Lock_def Unlock_def)
  have known: "known_server ''0'' ?s" by (simp add: known_server_def Atoi_0)
  have "snd (browse broken ''0'' Position (fst (browse broken ''0'' Root ?s))) = NoReturn"
    by (rule panic_keeps_lock [OF r _ _ known, where b = "SPanic ''ole''" and between = "[(broken, ''0'', Root)]"]) simp_all
  then show ?thesis using r by blast
qed

text \<open>
  Listing a branch moves the server's cursor there and answers with its branches, leaves and position;
  the cursor is the server's own, so whoever asks for the position next, from any client, is told this one.
\<close>

theorem listing_moves_cursor:
  assumes "\<not> srv_mutex s" and "0 \<le> fst (Atoi i)" and "fst (Atoi i) < int (length (servers s))"
    and "Cursor (servers s ! nat (fst (Atoi i))) = Some c" and "QueryUnescape enc = Some branch"
    and "b_to B branch (Some c) = Ret (Some c')"
    and "b_branches B (Some c') = Ret bs" and "b_leaves B (Some c') = Ret ls" and "b_position B (Some c') = Ret p"
  shows "\<exists>s'. GetServerListBranches B i enc s = (s', Ret (200, SListing (''root.'' @ p) bs ls)) \<and> \<not> srv_mutex s' \<and>
    snd (GetServerPosition B i s') = Ret (200, SPosition p) \<and>
    snd (GetServerBranches B i enc s) = Ret (200, SItems bs) \<and> snd (GetServerLeaves B i enc s) = Ret (200, SItems ls) \<and>
    (\<forall>k. k \<noteq> nat (fst (Atoi i)) \<longrightarrow> servers s' ! k = servers s ! k)"
proof -
  let ?i = "fst (Atoi i)"
  let ?s = "set_cursor ?i (Some c') s"
  have at: "with_browser B i k s = k ?i (Some c) s" for k by (rule browser_at [OF assms(2-4)])
  have "Cursor (servers ?s ! nat ?i) = Some c'" using assms(2,3) by (simp add: set_cursor_nth)
  then have at': "with_browser B i k ?s = k ?i (Some c') ?s" for k using assms(2,3) by (simp add: browser_at)
  have "GetServerListBranches B i enc s = (?s, Ret (200, SListing (''root.'' @ p) bs ls))"
    using assms unfolding GetServerListBranches_def at with_branch_def
    by (simp add: locked_def Lock_free b_move_def b_ask_def root_position)
  moreover have "snd (GetServerPosition B i ?s) = Ret (200, SPosition p)"
    using assms unfolding GetServerPosition_def at' by (simp add: locked_def Lock_free b_ask_def)
  moreover have "snd (GetServerBranches B i enc s) = Ret (200, SItems bs)" "snd (GetServerLeaves B i enc s) = Ret (200, SItems ls)"
    using assms unfolding GetServerBranches_def GetServerLeaves_def at with_branch_def
    by (simp_all add: locked_def Lock_free b_move_def b_ask_def)
  ultimately show ?thesis using assms(1) set_cursor_nth(2) by auto
qed

definition flat_library :: "string browsing" where
  "flat_library = \<lparr>b_create = (\<lambda>_. Ret (Some [], None)), b_home = (\<lambda>_. Ret (Some [])), b_to = (\<lambda>br _. Ret (Some br)), b_branches = (\<lambda>_. Ret []),
     b_leaves = (\<lambda>_. Ret [''x'']), b_position = (\<lambda>c. Ret (the c))\<rparr>"

lemma listing_moves_cursor_witness:
  "\<exists>s'. GetServerListBranches flat_library ''0'' ''a%20b'' \<lparr>servers = [\<lparr>srvID = 0, srvProgID = ''A'', Cursor = Some []\<rparr>], srv_mutex = False, srv_events = []\<rparr> =
      (s', Ret (200, SListing ''root.a b'' [] [''x''])) \<and>
    snd (GetServerPosition flat_library ''0'' s') = Ret (200, SPosition ''a b'')"
proof -
  have "QueryUnescape ''a%20b'' = Some ''a b''" by code_simp
  then show ?thesis
    using listing_moves_cursor [of "\<lparr>servers = [\<lparr>srvID = 0, srvProgID = ''A'', Cursor = Some []\<rparr>], srv_mutex = False, srv_events = []\<rparr>"
      "''0''" "[]" "''a%20b''" "''a b''" flat_library "''a b''" "[]" "[''x'']" "''a b''"]
    by (auto simp: Atoi_0 flat_library_def)
qed

end
