(* ===== verification/DataRoutes.thy ===== *)
theory DataRoutes imports Types GoPath GoFmt begin

text \<open>
  The registry of types (\<^verbatim>\<open>types/registry.go\<close>), its filling when the database is connected
  (\<^verbatim>\<open>db/db.go\<close>), and the handlers for rows of any registered type (\<^verbatim>\<open>routes/data.go\<close>). The database
  calls, the names of the tables and the printing of values are parameters. These handlers have no
  \<^verbatim>\<open>recover\<close>, and neither has the web server: a panic ends the process.
\<close>

section \<open>The registry\<close>

text \<open>The types the program registers.\<close>

datatype go_type = GoLog | GoKeyValuePair | GoUser | GoSettings | GoDiodeProxy | GoOPCGroup | GoOPCTag | GoFileTransferConfig

type_synonym registry = "string \<rightharpoonup> go_type"

definition RegisterType :: "string \<Rightarrow> go_type \<Rightarrow> registry \<Rightarrow> registry" where
  "RegisterType name datatype typeRegistry = typeRegistry(name \<mapsto> datatype)"

text \<open>A new value of the type: the model keeps its type. \<^verbatim>\<open>reflect.New\<close> of no type panics.\<close>

definition CreateType :: "string \<Rightarrow> registry \<Rightarrow> go_type outcome" where
  "CreateType name typeRegistry = (case typeRegistry name of None \<Rightarrow> Panic ''reflect: New(nil)'' | Some t \<Rightarrow> Ret t)"

definition CreateSlice :: "string \<Rightarrow> registry \<Rightarrow> go_type option" where
  "CreateSlice name typeRegistry = (case typeRegistry name of None \<Rightarrow> None | Some tr \<Rightarrow> Some tr)"

interpretation registry: kv_store "\<lambda>r :: registry. r" RegisterType "\<lambda>_. True"
  by unfold_locales (simp_all add: RegisterType_def)

section \<open>Connecting the database\<close>

record connection =
  typeRegistry :: registry
  migrated :: "go_type list"
  DB :: "string option"
  db_lines :: "string list"

definition ConfigureTypes :: "(go_type \<Rightarrow> string) \<Rightarrow> go_type list \<Rightarrow> connection \<Rightarrow> connection" where
  "ConfigureTypes table_of datatypes c =
     fold (\<lambda>t c. c\<lparr>typeRegistry := RegisterType (table_of t) t (typeRegistry c), migrated := migrated c @ [t]\<rparr>) datatypes c"

text \<open>\<open>open_db\<close> gives the error of opening the file, if any.\<close>

definition ConnectDatabase :: "(go_type \<Rightarrow> string) \<Rightarrow> (string \<Rightarrow> string option) \<Rightarrow> Context \<Rightarrow> connection \<Rightarrow> connection" where
  "ConnectDatabase table_of open_db ctx c =
     (let filename = path_Join [Wdir ctx, ''test.db''] in
      case open_db filename of
        Some e \<Rightarrow> c\<lparr>db_lines := db_lines c @ [Sprintf ''Failed to connect to database: %s'' [AStr e]]\<rparr>
      | None \<Rightarrow>
          let c1 = c\<lparr>db_lines := db_lines c @ [''Database connected''], migrated := migrated c @ [GoUser]\<rparr>;
              c2 = ConfigureTypes table_of [GoLog, GoKeyValuePair] c1;
              c3 = ConfigureTypes table_of [GoUser, GoSettings] c2;
              c4 = ConfigureTypes table_of [GoDiodeProxy] c3;
              c5 = ConfigureTypes table_of [GoOPCGroup, GoOPCTag] c4;
              c6 = ConfigureTypes table_of [GoFileTransferConfig] c5
          in c6\<lparr>DB := Some filename\<rparr>)"

section \<open>Handlers\<close>

text \<open>
  The calls of the database library, each of which may panic; an \<open>Inl\<close> is the text of its error. A row
  that is \<open>None\<close> is a nil pointer: the JSON body \<^verbatim>\<open>null\<close> leaves one in place of the new value. The
  slice given for an unknown type is nil as well.
\<close>

record ('r, 'd) data_db =
  dd_all :: "string \<Rightarrow> go_type \<Rightarrow> 'd \<Rightarrow> 'r list outcome"
  dd_take :: "go_type \<Rightarrow> string \<Rightarrow> 'd \<Rightarrow> (string + 'r) outcome"
  dd_find :: "go_type option \<Rightarrow> string \<Rightarrow> string \<Rightarrow> 'd \<Rightarrow> (string + 'r list) outcome"
  dd_create :: "go_type \<Rightarrow> 'r option \<Rightarrow> 'd \<Rightarrow> 'd \<times> (string + 'r option) outcome"
  dd_save :: "go_type \<Rightarrow> 'r option \<Rightarrow> 'd \<Rightarrow> 'd \<times> 'r option outcome"
  dd_delete_id :: "go_type \<Rightarrow> string \<Rightarrow> 'd \<Rightarrow> 'd \<times> string option outcome"
  dd_delete_field :: "go_type option \<Rightarrow> string \<Rightarrow> string \<Rightarrow> 'd \<Rightarrow> 'd \<times> string option outcome"
  dd_delete_all :: "string \<Rightarrow> go_type option \<Rightarrow> 'd \<Rightarrow> 'd \<times> (string + int) outcome"

datatype 'r data_body =
    DItems "'r list"
  | DItem "'r option"
  | DMsg string
  | DError string
  | DText string
  | DCount int
  | DNew go_type
  | DNewSlice "go_type option"

type_synonym 'r data_reply = "(int \<times> 'r data_body) outcome"

record 'd data_state =
  dt_db :: 'd
  dt_events :: "event list"

definition dt_log :: "string \<Rightarrow> string \<Rightarrow> string \<Rightarrow> 'd data_state \<Rightarrow> 'd data_state" where
  "dt_log cat title msg s = s\<lparr>dt_events := dt_events s @ [Logged cat title msg]\<rparr>"

text \<open>The text \<^verbatim>\<open>logger.Log\<close> gives back.\<close>

definition log_msg :: "string \<Rightarrow> string \<Rightarrow> string \<Rightarrow> string" where
  "log_msg cat title msg = Sprintf ''%s: %s, %s'' [AStr cat, AStr title, AStr msg]"

definition dt_error :: "string \<Rightarrow> string \<Rightarrow> 'd data_state \<Rightarrow> 'd data_state \<times> 'r data_reply" where
  "dt_error title msg s =
     (s\<lparr>dt_events := dt_events s @ error_events title msg\<rparr>, Ret (400, DError (Sprintf (log_msg ''error'' title msg) [])))"

text \<open>A call that does not return ends the handler.\<close>

definition then_do :: "'a outcome \<Rightarrow> ('a \<Rightarrow> 'd data_state \<Rightarrow> 'd data_state \<times> 'r data_reply) \<Rightarrow> 'd data_state \<Rightarrow>
    'd data_state \<times> 'r data_reply" where
  "then_do r k s = (case r of Ret x \<Rightarrow> k x s | Panic m \<Rightarrow> (s, Panic m) | Fatal m \<Rightarrow> (s, Fatal m) | NoReturn \<Rightarrow> (s, NoReturn))"

definition with_type :: "registry \<Rightarrow> string \<Rightarrow> (go_type \<Rightarrow> 'd data_state \<Rightarrow> 'd data_state \<times> 'r data_reply) \<Rightarrow> 'd data_state \<Rightarrow>
    'd data_state \<times> 'r data_reply" where
  "with_type reg table k s = then_do (CreateType table reg) k s"

definition quoted :: "string \<Rightarrow> string" where
  "quoted x = [CHR 0x27] @ x @ [CHR 0x27]"

definition GetAllOfType :: "('r, 'd) data_db \<Rightarrow> registry \<Rightarrow> string \<Rightarrow> 'd data_state \<Rightarrow> 'd data_state \<times> 'r data_reply" where
  "GetAllOfType D reg table s = (case CreateSlice table reg of
       None \<Rightarrow> (dt_log ''error'' ''Failed to map provided data to type'' table s, Ret (503, DText table))
     | Some t \<Rightarrow> then_do (dd_all D table t (dt_db s)) (\<lambda>items s. (s, Ret (200, DItems items))) s)"

definition GetDataByID :: "('r, 'd) data_db \<Rightarrow> registry \<Rightarrow> string \<Rightarrow> string \<Rightarrow> 'd data_state \<Rightarrow> 'd data_state \<times> 'r data_reply" where
  "GetDataByID D reg table i = with_type reg table (\<lambda>t s. then_do (dd_take D t i (dt_db s)) (\<lambda>r s. case r of
       Inl err \<Rightarrow> (dt_log ''error'' ''Failed to find item''
          (Sprintf (''Item type '' @ quoted ''%s'' @ '', id: %s, database error: %s'') [AStr table, AStr i, AStr err]) s, Ret (503, DText err))
     | Inr item \<Rightarrow> (s, Ret (200, DItem (Some item)))) s)"

definition field_error :: "string \<Rightarrow> string \<Rightarrow> string \<Rightarrow> string \<Rightarrow> string" where
  "field_error table field val err = Sprintf (''Item type '' @ quoted ''%s'' @ '', field: %s, value: %s, database error: %s'')
     [AStr table, AStr field, AStr val, AStr err]"

definition GetDataByField :: "('r, 'd) data_db \<Rightarrow> registry \<Rightarrow> string \<Rightarrow> string \<Rightarrow> string \<Rightarrow> 'd data_state \<Rightarrow> 'd data_state \<times> 'r data_reply" where
  "GetDataByField D reg table field val s = then_do (dd_find D (CreateSlice table reg) field val (dt_db s)) (\<lambda>r s. case r of
       Inl err \<Rightarrow> (dt_log ''error'' ''Failed to find items'' (field_error table field val err) s,
          Ret (400, DMsg (log_msg ''error'' ''Failed to find items'' (field_error table field val err))))
     | Inr items \<Rightarrow> (s, Ret (200, DItems items))) s"

text \<open>
  \<open>parse t\<close> reads the body into a value of the type, or makes it nil; \<open>pr\<close> is the format \<^verbatim>\<open>%#v\<close> of a value.
\<close>

definition NewData :: "('r, 'd) data_db \<Rightarrow> ('r option \<Rightarrow> string) \<Rightarrow> registry \<Rightarrow> string \<Rightarrow> (go_type \<Rightarrow> string + 'r option) \<Rightarrow>
    'd data_state \<Rightarrow> 'd data_state \<times> 'r data_reply" where
  "NewData D pr reg table parse = with_type reg table (\<lambda>t s. case parse t of
       Inl err \<Rightarrow> (dt_log ''error'' ''Failed to map provided data to type'' err s, Ret (503, DText err))
     | Inr item \<Rightarrow>
         let (d, r) = dd_create D t item (dt_db s) in
         then_do r (\<lambda>r s. case r of
           Inl err \<Rightarrow>
             (let msg = ''Type: '' @ table @ '', data: '' @ pr item @ '', error: '' @ err
              in (dt_log ''error'' ''Failed to create item'' msg s, Ret (400, DMsg (log_msg ''error'' ''Failed to create item'' msg))))
         | Inr item' \<Rightarrow>
             (dt_log ''trace'' ''Item created'' (''Type: '' @ table @ '', item: '' @ pr item') s, Ret (200, DItem item'))) (s\<lparr>dt_db := d\<rparr>))"

text \<open>The error of the save is not looked at.\<close>

definition UpdateData :: "('r, 'd) data_db \<Rightarrow> registry \<Rightarrow> string \<Rightarrow> (go_type \<Rightarrow> string + 'r option) \<Rightarrow> 'd data_state \<Rightarrow>
    'd data_state \<times> 'r data_reply" where
  "UpdateData D reg table parse = with_type reg table (\<lambda>t s. case parse t of
       Inl err \<Rightarrow> dt_error ''Failed to update item'' (Sprintf ''Unable to map provided data to type: %s'' [AStr err]) s
     | Inr item \<Rightarrow>
         let (d, r) = dd_save D t item (dt_db s) in
         then_do r (\<lambda>item' s. (s, Ret (200, DItem item'))) (s\<lparr>dt_db := d\<rparr>))"

definition DeleteDataByID :: "('r, 'd) data_db \<Rightarrow> registry \<Rightarrow> string \<Rightarrow> string \<Rightarrow> 'd data_state \<Rightarrow> 'd data_state \<times> 'r data_reply" where
  "DeleteDataByID D reg table i = with_type reg table (\<lambda>t s.
     let (d, r) = dd_delete_id D t i (dt_db s) in
     then_do r (\<lambda>r s. case r of
       Some err \<Rightarrow> dt_error ''Failed to delete item'' (Sprintf ''Error from database: %s'' [AStr err]) s
     | None \<Rightarrow> (dt_log ''trace'' ''Item deleted'' (Sprintf ''Type: %s, ID: %s'' [AStr table, AStr i]) s, Ret (200, DNew t))) (s\<lparr>dt_db := d\<rparr>))"

text \<open>\<open>unescape\<close> is \<^verbatim>\<open>url.QueryUnescape\<close>; its error is not looked at, and the value then is empty.\<close>

definition DeleteDataByField :: "('r, 'd) data_db \<Rightarrow> (string \<Rightarrow> string option) \<Rightarrow> registry \<Rightarrow> string \<Rightarrow> string \<Rightarrow> string \<Rightarrow> 'd data_state \<Rightarrow>
    'd data_state \<times> 'r data_reply" where
  "DeleteDataByField D unescape reg table field v s =
     (let val = (case unescape v of Some x \<Rightarrow> x | None \<Rightarrow> []); item = CreateSlice table reg;
          (d, r) = dd_delete_field D item field val (dt_db s) in
      then_do r (\<lambda>r s. case r of
        Some err \<Rightarrow> dt_error ''Failed to delete item'' (field_error table field val err) s
      | None \<Rightarrow> (s, Ret (200, DNewSlice item))) (s\<lparr>dt_db := d\<rparr>))"

definition DeleteDataAllItems :: "('r, 'd) data_db \<Rightarrow> registry \<Rightarrow> string \<Rightarrow> 'd data_state \<Rightarrow> 'd data_state \<times> 'r data_reply" where
  "DeleteDataAllItems D reg table s =
     (let (d, r) = dd_delete_all D table (CreateSlice table reg) (dt_db s) in
      then_do r (\<lambda>r s. case r of
        Inl err \<Rightarrow> dt_error ''Failed to delete item'' (Sprintf (''Item type '' @ quoted ''%s'' @ '',database error: %s'') [AStr table, AStr err]) s
      | Inr n \<Rightarrow> (s, Ret (200, DCount n))) (s\<lparr>dt_db := d\<rparr>))"

section \<open>Properties\<close>

text \<open>
  C36. Connecting the database registers the eight tables under the names the library gives them: each name
  makes a value and a slice of its own type, and all of them are migrated. When the database cannot be
  opened, nothing is registered and there is no database.
\<close>

theorem ConnectDatabase_types:
  assumes "inj table_of" and "typeRegistry c = Map.empty" and "DB c = None" and "c' = ConnectDatabase table_of open_db ctx c"
  shows "(case open_db (path_Join [Wdir ctx, ''test.db'']) of
      None \<Rightarrow> (\<forall>t. CreateType (table_of t) (typeRegistry c') = Ret t \<and> CreateSlice (table_of t) (typeRegistry c') = Some t \<and> t \<in> set (migrated c')) \<and>
        dom (typeRegistry c') = range table_of \<and> DB c' = Some (path_Join [Wdir ctx, ''test.db''])
    | Some _ \<Rightarrow> typeRegistry c' = Map.empty \<and> DB c' = None)"
proof (cases "open_db (path_Join [Wdir ctx, ''test.db''])")
  case None
  let ?all = "[GoLog, GoKeyValuePair, GoUser, GoSettings, GoDiodeProxy, GoOPCGroup, GoOPCTag, GoFileTransferConfig]"
  have all: "set ?all = UNIV"
  proof -
    have "t \<in> set ?all" for t by (cases t) simp_all
    then show ?thesis by blast
  qed
  have reg: "typeRegistry (ConfigureTypes table_of ts c) = fold (\<lambda>t. RegisterType (table_of t) t) ts (typeRegistry c)"
    "migrated (ConfigureTypes table_of ts c) = migrated c @ ts" for ts c
    unfolding ConfigureTypes_def by (induction ts arbitrary: c) simp_all
  have c': "typeRegistry c' = fold (\<lambda>t. RegisterType (table_of t) t) ?all Map.empty" "set ?all \<subseteq> set (migrated c')"
      "DB c' = Some (path_Join [Wdir ctx, ''test.db''])"
    using None assms(2,4) by (simp_all add: ConnectDatabase_def Let_def reg)
  have get: "fold (\<lambda>t. RegisterType (table_of t) t) ts r (table_of u) = (if u \<in> set ts then Some u else r (table_of u))" for ts r u
    by (induction ts arbitrary: r) (auto simp: RegisterType_def inj_eq [OF assms(1)])
  have other: "n \<notin> range table_of \<Longrightarrow> fold (\<lambda>t. RegisterType (table_of t) t) ts r n = r n" for ts r n
    by (induction ts arbitrary: r) (auto simp: RegisterType_def)
  have own: "typeRegistry c' (table_of t) = Some t" for t unfolding c'(1) get using all by simp
  moreover have "dom (typeRegistry c') = range table_of"
  proof (intro set_eqI iffI)
    fix n assume "n \<in> dom (typeRegistry c')"
    then show "n \<in> range table_of" unfolding c'(1) using other [of n ?all Map.empty] by (cases "n \<in> range table_of") auto
  qed (auto simp: own)
  moreover have "t \<in> set (migrated c')" for t using c'(2) all by (simp only:) blast
  ultimately show ?thesis using None c'(3) by (simp add: CreateType_def CreateSlice_def)
next
  case (Some e)
  then show ?thesis using assms(2-4) by (simp add: ConnectDatabase_def)
qed

definition no_connection :: connection where
  "no_connection = \<lparr>typeRegistry = Map.empty, migrated = [], DB = None, db_lines = []\<rparr>"

text \<open>The names the library gives: plural, in lower case, words joined by underscores.\<close>

fun snake_names :: "go_type \<Rightarrow> string" where
  "snake_names GoLog = ''logs''"
| "snake_names GoKeyValuePair = ''key_value_pairs''"
| "snake_names GoUser = ''users''"
| "snake_names GoSettings = ''settings''"
| "snake_names GoDiodeProxy = ''diode_proxies''"
| "snake_names GoOPCGroup = ''opc_groups''"
| "snake_names GoOPCTag = ''opc_tags''"
| "snake_names GoFileTransferConfig = ''file_transfer_configs''"

lemma inj_snake_names: "inj snake_names"
proof (rule injI)
  show "snake_names x = snake_names y \<Longrightarrow> x = y" for x y by (cases x; cases y) simp_all
qed

lemma ConnectDatabase_types_witness:
  "CreateType ''opc_tags'' (typeRegistry (ConnectDatabase snake_names (\<lambda>_. None)
     \<lparr>Cmd = ''debug'', Wdir = ''.'', Trace = False, TraceOpc = False, ShowVersion = False\<rparr> no_connection)) = Ret GoOPCTag"
  using ConnectDatabase_types [OF inj_snake_names _ _ refl, of no_connection "\<lambda>_. None"
      "\<lparr>Cmd = ''debug'', Wdir = ''.'', Trace = False, TraceOpc = False, ShowVersion = False\<rparr>"]
  by (simp add: no_connection_def) (metis snake_names.simps(7))

text \<open>The library does not panic when it is given a row and a slice of a type.\<close>

definition calls_return :: "('r, 'd) data_db \<Rightarrow> bool" where
  "calls_return D \<longleftrightarrow> (\<forall>table t d. returns (dd_all D table t d)) \<and> (\<forall>t i d. returns (dd_take D t i d)) \<and>
     (\<forall>t f v d. returns (dd_find D (Some t) f v d)) \<and> (\<forall>t r d. returns (snd (dd_create D t (Some r) d))) \<and>
     (\<forall>t r d. returns (snd (dd_save D t (Some r) d))) \<and> (\<forall>t i d. returns (snd (dd_delete_id D t i d))) \<and>
     (\<forall>t f v d. returns (snd (dd_delete_field D (Some t) f v d))) \<and> (\<forall>table t d. returns (snd (dd_delete_all D table (Some t) d)))"

lemma unknown: "reg table = None \<Longrightarrow> with_type reg table k s = (s, Panic ''reflect: New(nil)'')"
  by (simp add: with_type_def CreateType_def then_do_def)

lemma known: "reg table = Some t \<Longrightarrow> with_type reg table k s = k t s"
  by (simp add: with_type_def CreateType_def then_do_def)

lemma dt_error_returns [simp]: "returns (snd (dt_error a b s))"
  by (simp add: dt_error_def)

lemma then_do_panics: "(\<And>x s. returns (snd (k x s))) \<Longrightarrow> returns (snd (then_do r k s)) \<longleftrightarrow> returns r"
  by (cases r) (simp_all add: then_do_def)

lemma handlers_return:
  assumes "reg table = Some t" and "calls_return D"
  shows "returns (snd (GetAllOfType D reg table s))" "returns (snd (GetDataByID D reg table i s))"
    "returns (snd (GetDataByField D reg table f v s))" "returns (snd (DeleteDataByID D reg table i s))"
    "returns (snd (DeleteDataByField D un reg table f v s))" "returns (snd (DeleteDataAllItems D reg table s))"
proof -
  have lib: "returns (dd_all D table t d)" "returns (dd_take D t i d)" "returns (dd_find D (Some t) f v d)"
      "returns (snd (dd_delete_id D t i d))" "returns (snd (dd_delete_field D (Some t) f w d))" "returns (snd (dd_delete_all D table (Some t) d))" for d w
    using assms(2) by (simp_all add: calls_return_def)
  show "returns (snd (GetAllOfType D reg table s))"
    by (simp add: GetAllOfType_def CreateSlice_def assms(1) then_do_panics lib)
  show "returns (snd (GetDataByID D reg table i s))"
    by (simp add: GetDataByID_def known [of reg, OF assms(1)] then_do_panics lib split: sum.split)
  show "returns (snd (GetDataByField D reg table f v s))"
    by (simp add: GetDataByField_def CreateSlice_def assms(1) then_do_panics lib split: sum.split)
  show "returns (snd (DeleteDataByID D reg table i s))"
    by (simp add: DeleteDataByID_def known [of reg, OF assms(1)] Let_def split_def then_do_panics lib split: option.split)
  show "returns (snd (DeleteDataByField D un reg table f v s))"
    by (simp add: DeleteDataByField_def CreateSlice_def assms(1) Let_def split_def then_do_panics lib split: option.split)
  show "returns (snd (DeleteDataAllItems D reg table s))"
    by (simp add: DeleteDataAllItems_def CreateSlice_def assms(1) Let_def split_def then_do_panics lib split: sum.split)
qed

lemma bodies_return:
  assumes "reg table = Some t"
  shows "returns (snd (NewData D pr reg table parse s)) \<longleftrightarrow>
      (case parse t of Inl _ \<Rightarrow> True | Inr item \<Rightarrow> returns (snd (dd_create D t item (dt_db s))))"
    and "returns (snd (UpdateData D reg table parse s)) \<longleftrightarrow>
      (case parse t of Inl _ \<Rightarrow> True | Inr item \<Rightarrow> returns (snd (dd_save D t item (dt_db s))))"
  by (simp_all add: NewData_def UpdateData_def known [of reg, OF assms] split_def then_do_panics Let_def split: sum.split)

text \<open>
  C37. With a table name in the path that is not registered, listing all rows answers 503, but reading, creating,
  updating and deleting a single row panic, before they touch the database, and nothing recovers. With a
  registered name, and a database library that does not panic on rows and slices of a type, the other handlers
  return, and the two that take a body return when it cannot be parsed or gives a value; a body \<^verbatim>\<open>null\<close>
  gives none, and then they return exactly when the library returns on a nil row.
\<close>

theorem unknown_type_panics:
  "(reg table = None \<longrightarrow>
      snd (GetAllOfType D reg table s) = Ret (503, DText table) \<and>
      (\<forall>h \<in> {GetDataByID D reg table i, NewData D pr reg table parse, UpdateData D reg table parse, DeleteDataByID D reg table i}.
         h s = (s, Panic ''reflect: New(nil)''))) \<and>
   (reg table = Some t \<and> calls_return D \<longrightarrow>
      (\<forall>h \<in> {GetAllOfType D reg table, GetDataByID D reg table i, GetDataByField D reg table f v, DeleteDataByID D reg table i,
          DeleteDataByField D un reg table f v, DeleteDataAllItems D reg table}. returns (snd (h s))) \<and>
      (parse t \<noteq> Inr None \<longrightarrow> returns (snd (NewData D pr reg table parse s)) \<and> returns (snd (UpdateData D reg table parse s))) \<and>
      (parse t = Inr None \<longrightarrow>
         (returns (snd (NewData D pr reg table parse s)) \<longleftrightarrow> returns (snd (dd_create D t None (dt_db s)))) \<and>
         (returns (snd (UpdateData D reg table parse s)) \<longleftrightarrow> returns (snd (dd_save D t None (dt_db s))))))"
proof -
  have "h s = (s, Panic ''reflect: New(nil)'')"
    if "reg table = None" "h \<in> {GetDataByID D reg table i, NewData D pr reg table parse, UpdateData D reg table parse, DeleteDataByID D reg table i}" for h
    using that(2) unknown [of reg table, OF that(1)] by (auto simp: GetDataByID_def NewData_def UpdateData_def DeleteDataByID_def)
  moreover have "snd (GetAllOfType D reg table s) = Ret (503, DText table)" if "reg table = None"
    using that by (simp add: GetAllOfType_def CreateSlice_def)
  moreover have "returns (snd (NewData D pr reg table parse s)) \<and> returns (snd (UpdateData D reg table parse s))"
    if "reg table = Some t" "calls_return D" "parse t \<noteq> Inr None"
    using that(2,3) by (simp add: bodies_return [of reg, OF that(1)] calls_return_def split: sum.split) (metis not_Some_eq)
  moreover have "(returns (snd (NewData D pr reg table parse s)) \<longleftrightarrow> returns (snd (dd_create D t None (dt_db s)))) \<and>
      (returns (snd (UpdateData D reg table parse s)) \<longleftrightarrow> returns (snd (dd_save D t None (dt_db s))))"
    if "reg table = Some t" "parse t = Inr None"
    by (simp add: bodies_return [of reg, OF that(1)] that(2))
  ultimately show ?thesis using handlers_return [of reg table t D] by blast
qed

text \<open>A library for the witness that panics when it is to create nothing.\<close>

definition some_db :: "(nat, nat list) data_db" where
  "some_db = \<lparr>dd_all = (\<lambda>_ _ d. Ret d), dd_take = (\<lambda>_ _ _. Ret (Inl ''record not found'')), dd_find = (\<lambda>_ _ _ d. Ret (Inr d)),
     dd_create = (\<lambda>_ r d. case r of None \<Rightarrow> (d, Panic ''nil pointer'') | Some x \<Rightarrow> (d @ [x], Ret (Inr r))),
     dd_save = (\<lambda>_ r d. (d, Ret r)), dd_delete_id = (\<lambda>_ _ d. (d, Ret None)), dd_delete_field = (\<lambda>_ _ _ d. (d, Ret None)),
     dd_delete_all = (\<lambda>_ _ d. ([], Ret (Inr (int (length d)))))\<rparr>"

lemma unknown_type_panics_witness:
  "\<forall>s0 pr0. GetDataByID some_db Map.empty ''no_such'' ''1'' s0 = (s0, Panic ''reflect: New(nil)'') \<and>
   returns (snd (NewData some_db pr0 [''logs'' \<mapsto> GoLog] ''logs'' (\<lambda>_. Inr (Some 7)) s0)) \<and>
   \<not> returns (snd (NewData some_db pr0 [''logs'' \<mapsto> GoLog] ''logs'' (\<lambda>_. Inr None) s0))"
proof -
  have "calls_return some_db" by (simp add: calls_return_def some_db_def)
  moreover have "\<not> returns (snd (dd_create some_db GoLog None d))" for d by (simp add: some_db_def)
  ultimately have "GetDataByID some_db Map.empty ''no_such'' ''1'' s0 = (s0, Panic ''reflect: New(nil)'') \<and>
      returns (snd (NewData some_db pr0 [''logs'' \<mapsto> GoLog] ''logs'' (\<lambda>_. Inr (Some 7)) s0)) \<and>
      \<not> returns (snd (NewData some_db pr0 [''logs'' \<mapsto> GoLog] ''logs'' (\<lambda>_. Inr None) s0))" for s0 pr0
    using unknown_type_panics [of Map.empty "''no_such''" some_db s0 "''1''" pr0 "\<lambda>_. Inr None"]
      unknown_type_panics [of "[''logs'' \<mapsto> GoLog]" "''logs''" some_db s0 "''1''" pr0 "\<lambda>_. Inr None" GoLog]
      unknown_type_panics [of "[''logs'' \<mapsto> GoLog]" "''logs''" some_db s0 "''1''" pr0 "\<lambda>_. Inr (Some 7)" GoLog]
    by simp
  then show ?thesis by blast
qed

end
