(* ===== verification/UserRoutes.thy ===== *)
theory UserRoutes imports Rows begin

text \<open>
  Users and logging in (\<^verbatim>\<open>routes/users.go\<close>, \<^verbatim>\<open>routes/auth.go\<close>). The table of users is a
  parameter, and so are the parsed body, the signing of a token and the text of a database error. Only
  \<^verbatim>\<open>/user\<close> is behind the token check of \<^verbatim>\<open>web/server.go\<close>; \<^verbatim>\<open>/auth\<close> is not.
\<close>

section \<open>Bodies and replies\<close>

record UserData =
  udID :: nat
  udUserName :: string
  udFullName :: string
  udSettings :: Settings
  udSettingsID :: nat

record Claims =
  claim_name :: string
  claim_email :: string
  claim_id :: nat
  claim_exp :: int

datatype user_body =
    UUsers "UserData list"
  | UUser User
  | ULogin string User
  | UText string
  | UStatus string
  | UNothing

type_synonym user_reply = "int \<times> user_body"

record 'd user_state =
  u_db :: 'd
  u_events :: "event list"

definition u_fail :: "string \<Rightarrow> string \<Rightarrow> 'd user_state \<Rightarrow> 'd user_state" where
  "u_fail title e s = s\<lparr>u_events := u_events s @ [Logged ''error'' title e]\<rparr>"

definition zero_settings :: Settings where
  "zero_settings = \<lparr>sID = 0, Dark = False, ImageURL = ''''\<rparr>"

section \<open>Users\<close>

text \<open>Scanning a row into \<^verbatim>\<open>UserData\<close> takes the columns it has a field for.\<close>

definition user_data :: "User \<Rightarrow> UserData" where
  "user_data u = \<lparr>udID = uID u, udUserName = UserName u, udFullName = FullName u, udSettings = zero_settings, udSettingsID = SettingsID u\<rparr>"

definition GetAllUsers :: "(User, 'd) gorm \<Rightarrow> string option \<Rightarrow> 'd user_state \<Rightarrow> 'd user_state \<times> user_reply" where
  "GetAllUsers G err s = (case err of
       Some e \<Rightarrow> (u_fail ''GetAllUsers failed'' e s, (503, UText e))
     | None \<Rightarrow> (s, (200, UUsers (map user_data (rows G (u_db s))))))"

text \<open>The id is the one of the token's claims.\<close>

definition GetCurrentUser :: "(User, 'd) gorm \<Rightarrow> string \<Rightarrow> nat \<Rightarrow> 'd user_state \<Rightarrow> 'd user_state \<times> user_reply" where
  "GetCurrentUser G db_err i s = (case g_first G (\<lambda>u. uID u = i) (u_db s) of
       None \<Rightarrow> (u_fail ''GetCurrentUser failed (first)'' db_err s, (503, UText db_err))
     | Some u \<Rightarrow> (s, (200, UUser u)))"

definition GetUserByID :: "'d user_state \<Rightarrow> 'd user_state \<times> user_reply" where
  "GetUserByID s = (s, (200, UNothing))"

definition GetUserByField :: "'d user_state \<Rightarrow> 'd user_state \<times> user_reply" where
  "GetUserByField s = (s, (200, UNothing))"

text \<open>The error of the create is not looked at; then the user keeps the key 0.\<close>

definition NewUser :: "(User, 'd) gorm \<Rightarrow> string + User \<Rightarrow> 'd user_state \<Rightarrow> 'd user_state \<times> user_reply" where
  "NewUser G parsed s = (case parsed of
       Inl err \<Rightarrow> (u_fail ''NewUser failed (bind)'' err s, (503, UText err))
     | Inr data \<Rightarrow>
         let u = \<lparr>uID = 0, UserName = UserName data, Password = Password data, FullName = FullName data,
                  uSettings = zero_settings, SettingsID = 0\<rparr>
         in case g_create G u (u_db s) of
              (d, Some u') \<Rightarrow> (s\<lparr>u_db := d\<rparr>, (200, UUser u'))
            | (d, None) \<Rightarrow> (s\<lparr>u_db := d\<rparr>, (200, UUser u)))"

text \<open>The row is the one of the body's id; the id in the path is not used.\<close>

definition UpdateUser :: "(User, 'd) gorm \<Rightarrow> string \<Rightarrow> string + UserData \<Rightarrow> 'd user_state \<Rightarrow> 'd user_state \<times> user_reply" where
  "UpdateUser G db_err parsed s = (case parsed of
       Inl err \<Rightarrow> (u_fail ''UpdateUser failed (bind)'' err s, (503, UText err))
     | Inr data \<Rightarrow>
        (case g_first G (\<lambda>u. uID u = udID data) (u_db s) of
           None \<Rightarrow> (u_fail ''UpdateUser failed (first)'' db_err s, (503, UText db_err))
         | Some u \<Rightarrow>
             let u' = u\<lparr>FullName := udFullName data, UserName := udUserName data\<rparr>
             in case g_save G u' (u_db s) of
                  (d, None) \<Rightarrow> (u_fail ''UpdateUser failed (save)'' db_err (s\<lparr>u_db := d\<rparr>), (503, UText db_err))
                | (d, Some _) \<Rightarrow> (s\<lparr>u_db := d\<rparr>, (200, UUser u'))))"

section \<open>Logging in\<close>

definition verifyToken :: "'d user_state \<Rightarrow> 'd user_state \<times> user_reply" where
  "verifyToken s = (s, (200, UStatus ''ok''))"

definition login_claims :: "User \<Rightarrow> Claims" where
  "login_claims u = \<lparr>claim_name = FullName u, claim_email = UserName u, claim_id = uID u, claim_exp = 0\<rparr>"

definition login :: "(User, 'd) gorm \<Rightarrow> (Claims \<Rightarrow> string option) \<Rightarrow> string \<Rightarrow> string + User \<Rightarrow> 'd user_state \<Rightarrow> 'd user_state \<times> user_reply" where
  "login G sign db_err parsed s = (case parsed of
       Inl err \<Rightarrow> (u_fail ''login failed (bind)'' err s, (503, UText err))
     | Inr data \<Rightarrow>
        (case g_first G (\<lambda>u. UserName u = UserName data \<and> Password u = Password data) (u_db s) of
           None \<Rightarrow> (u_fail ''login failed'' db_err s, (401, UText ''Unauthorized''))
         | Some u \<Rightarrow>
            (case sign (login_claims u) of
               None \<Rightarrow> (s, (500, UText ''Internal Server Error''))
             | Some t \<Rightarrow> (s, (200, ULogin t u)))))"

definition logout :: "'d user_state \<Rightarrow> 'd user_state \<times> user_reply" where
  "logout s = (s, (200, UNothing))"

section \<open>Properties\<close>

lemma login_row:
  assumes "gorm_reliable G uID with_uID ok" and "ok (u_db s)" and "\<forall>c. sign c \<noteq> None"
    and "u \<in> set (rows G (u_db s))" and "UserName u = UserName data" and "Password u = Password data"
  shows "\<exists>t v. login G sign e (Inr data) s = (s, (200, ULogin t v)) \<and> UserName v = UserName data \<and> Password v = Password data"
proof -
  let ?P = "\<lambda>u. UserName u = UserName data \<and> Password u = Password data"
  note tab = gorm_reliable.axioms(1) [OF assms(1)]
  have "g_first G ?P (u_db s) \<noteq> None" using gorm_table.first_NoneD [OF tab assms(2), of ?P] assms(4-6) by auto
  then obtain v where v: "g_first G ?P (u_db s) = Some v" by blast
  obtain t where "sign (login_claims v) = Some t" using spec [OF assms(3), of "login_claims v"] by auto
  moreover have "?P v" using gorm_table.first_SomeD [OF tab assms(2) v] by simp
  ultimately show ?thesis using v by (simp add: login_def)
qed

text \<open>
  C28. A login is answered with a token exactly when some user in the table has that name and that
  password; the token's claims are those of such a user and carry no expiry; any other login is
  answered with 401. Logging in changes nothing in the table.
\<close>

theorem login_exactly:
  assumes "gorm_reliable G uID with_uID ok" and "ok (u_db s)" and "\<forall>c. sign c \<noteq> None"
  shows "((\<exists>t u. snd (login G sign e (Inr data) s) = (200, ULogin t u)) \<longleftrightarrow>
      (\<exists>u \<in> set (rows G (u_db s)). UserName u = UserName data \<and> Password u = Password data)) \<and>
    (\<forall>t u. snd (login G sign e (Inr data) s) = (200, ULogin t u) \<longrightarrow>
      u \<in> set (rows G (u_db s)) \<and> UserName u = UserName data \<and> Password u = Password data \<and>
      sign \<lparr>claim_name = FullName u, claim_email = UserName data, claim_id = uID u, claim_exp = 0\<rparr> = Some t) \<and>
    ((\<forall>t u. snd (login G sign e (Inr data) s) \<noteq> (200, ULogin t u)) \<longrightarrow> snd (login G sign e (Inr data) s) = (401, UText ''Unauthorized'')) \<and>
    u_db (fst (login G sign e (Inr data) s)) = u_db s"
proof -
  let ?P = "\<lambda>u. UserName u = UserName data \<and> Password u = Password data"
  note tab = gorm_reliable.axioms(1) [OF assms(1)]
  show ?thesis
  proof (cases "g_first G ?P (u_db s)")
    case None
    then show ?thesis using gorm_table.first_NoneD [OF tab assms(2), of ?P] by (auto simp: login_def u_fail_def)
  next
    case (Some u)
    then have "u \<in> set (rows G (u_db s)) \<and> ?P u" by (rule gorm_table.first_SomeD [OF tab assms(2)])
    moreover obtain t where t: "sign (login_claims u) = Some t" using spec [OF assms(3), of "login_claims u"] by auto
    moreover have "login G sign e (Inr data) s = (s, (200, ULogin t u))" using Some t by (simp add: login_def)
    ultimately show ?thesis by (simp add: login_claims_def) blast
  qed
qed

definition credentials :: "string \<Rightarrow> string \<Rightarrow> User" where
  "credentials name pw = \<lparr>uID = 0, UserName = name, Password = pw, FullName = ''F'', uSettings = zero_settings, SettingsID = 0\<rparr>"

definition no_users :: "User list user_state" where
  "no_users = \<lparr>u_db = [], u_events = []\<rparr>"

lemma login_exactly_witness:
  "snd (login user_table (\<lambda>_. Some ''t'') ''e'' (Inr (credentials ''a'' ''b'')) no_users) = (401, UText ''Unauthorized'')"
proof -
  have ok: "list_inv uID (u_db no_users)" by (simp add: no_users_def list_inv_def)
  have "\<forall>c :: Claims. Some ''t'' \<noteq> None" by simp
  note r = login_exactly [OF user_rows.gorm_reliable_axioms ok this, of "''e''" "credentials ''a'' ''b''"]
  have "\<not> (\<exists>u \<in> set (rows user_table (u_db no_users)). UserName u = UserName (credentials ''a'' ''b'') \<and> Password u = Password (credentials ''a'' ''b''))"
    by (simp add: no_users_def)
  then have "\<nexists>t u. snd (login user_table (\<lambda>_. Some ''t'') ''e'' (Inr (credentials ''a'' ''b'')) no_users) = (200, ULogin t u)"
    using r [THEN conjunct1] by (simp only:) simp
  then show ?thesis using r [THEN conjunct2, THEN conjunct2, THEN conjunct1] by blast
qed

text \<open>
  C29. Whoever registers can log in: after a new user is created, a login with that name and password gets a
  token, for a user with that name and password; the reply to the registration shows the
  password. Users that were there keep their rows.
\<close>

theorem register_login:
  assumes "gorm_reliable G uID with_uID ok" and "ok (u_db s)" and "\<forall>c. sign c \<noteq> None"
    and "NewUser G (Inr data) s = (s', r)"
  shows "\<exists>u. r = (200, UUser u) \<and> UserName u = UserName data \<and> Password u = Password data \<and> rows G (u_db s') = rows G (u_db s) @ [u] \<and>
    ok (u_db s') \<and> (\<exists>t v. snd (login G sign e (Inr data) s') = (200, ULogin t v) \<and> UserName v = UserName data \<and> Password v = Password data)"
proof -
  let ?u = "\<lparr>uID = 0, UserName = UserName data, Password = Password data, FullName = FullName data, uSettings = zero_settings, SettingsID = 0\<rparr>"
  have "uID ?u = 0" by simp
  from gorm_reliable.created [OF assms(1,2) this] obtain k d where
    d: "g_create G ?u (u_db s) = (d, Some (with_uID k ?u))" "rows G d = rows G (u_db s) @ [with_uID k ?u]" "ok d"
    by metis
  have s': "s' = s\<lparr>u_db := d\<rparr>" "r = (200, UUser (with_uID k ?u))" using assms(4) d(1) by (auto simp: NewUser_def Let_def)
  then have "ok (u_db s')" using d(3) by simp
  from login_row [OF assms(1) this assms(3), of "with_uID k ?u" data e] d(2) s'
  have "\<exists>t v. snd (login G sign e (Inr data) s') = (200, ULogin t v) \<and> UserName v = UserName data \<and> Password v = Password data"
    by fastforce
  then show ?thesis using s' d(2,3) by (intro exI [of _ "with_uID k ?u"]) simp
qed

lemma register_login_witness:
  "\<exists>t v. snd (login user_table (\<lambda>_. Some ''t'') ''e'' (Inr (credentials ''a'' ''b''))
     (fst (NewUser user_table (Inr (credentials ''a'' ''b'')) no_users))) = (200, ULogin t v)"
proof -
  have ok: "list_inv uID (u_db no_users)" by (simp add: no_users_def list_inv_def)
  obtain s' r where r: "NewUser user_table (Inr (credentials ''a'' ''b'')) no_users = (s', r)" by (rule prod.exhaust)
  have "\<forall>c :: Claims. Some ''t'' \<noteq> None" by simp
  from register_login [OF user_rows.gorm_reliable_axioms ok this r, of "''e''"] show ?thesis by (auto simp: r)
qed

text \<open>
  An update answered with 200 changes the two names of the user whose id is in the body, whatever id is in
  the path and whoever asks; the password and all other users stay.
\<close>

theorem UpdateUser_names:
  assumes "gorm_reliable G uID with_uID ok" and "ok (u_db s)" and "UpdateUser G e (Inr data) s = (s', (200, b))"
  shows "\<exists>u. u \<in> set (rows G (u_db s)) \<and> uID u = udID data \<and> b = UUser (u\<lparr>FullName := udFullName data, UserName := udUserName data\<rparr>) \<and>
    ok (u_db s') \<and> rows G (u_db s') = map (\<lambda>v. if uID v = udID data then u\<lparr>FullName := udFullName data, UserName := udUserName data\<rparr> else v) (rows G (u_db s)) \<and>
    map Password (rows G (u_db s')) = map Password (rows G (u_db s))"
proof -
  obtain u where u: "g_first G (\<lambda>u. uID u = udID data) (u_db s) = Some u"
    using assms(3) by (cases "g_first G (\<lambda>u. uID u = udID data) (u_db s)") (auto simp: UpdateUser_def)
  then have row: "u \<in> set (rows G (u_db s))" "uID u = udID data" using gorm_reliable.key_row [OF assms(1,2)] by auto
  let ?u = "u\<lparr>FullName := udFullName data, UserName := udUserName data\<rparr>"
  have "uID ?u \<in> uID ` set (rows G (u_db s))" using row by (auto simp: image_iff intro: sym)
  note sv = gorm_reliable.saved [OF assms(1,2) this]
  have s': "u_db s' = fst (g_save G ?u (u_db s))" "b = UUser ?u"
    using assms(3) u sv(2) by (auto simp: UpdateUser_def Let_def split: prod.splits)
  have "distinct (map uID (rows G (u_db s)))" by (rule gorm_table.distinct_keys [OF gorm_reliable.axioms(1) [OF assms(1)] assms(2)])
  then have "Password v = Password u" if "v \<in> set (rows G (u_db s))" "uID v = udID data" for v
    using that row by (auto simp: distinct_map inj_on_def)
  then have "map Password (map (\<lambda>v. if uID v = udID data then ?u else v) (rows G (u_db s))) = map Password (rows G (u_db s))" by simp
  then show ?thesis using sv s' row by (intro exI [of _ u]) simp
qed

lemma UpdateUser_names_witness:
  "\<exists>s' b. UpdateUser user_table ''e'' (Inr \<lparr>udID = 1, udUserName = ''n'', udFullName = ''m'', udSettings = zero_settings, udSettingsID = 0\<rparr>)
      \<lparr>u_db = [(credentials ''a'' ''b'')\<lparr>uID := 1\<rparr>], u_events = []\<rparr> = (s', (200, b)) \<and>
    map UserName (u_db s') = [''n''] \<and> map Password (u_db s') = [''b'']"
proof -
  let ?s = "\<lparr>u_db = [(credentials ''a'' ''b'')\<lparr>uID := 1\<rparr>], u_events = []\<rparr>"
  let ?d = "\<lparr>udID = 1, udUserName = ''n'', udFullName = ''m'', udSettings = zero_settings, udSettingsID = 0\<rparr>"
  have ok: "list_inv uID (u_db ?s)" by (simp add: list_inv_def)
  obtain s' b where r: "UpdateUser user_table ''e'' (Inr ?d) ?s = (s', (200, b))"
    by (simp add: UpdateUser_def user_table_def list_table_def credentials_def Let_def)
  from UpdateUser_names [OF user_rows.gorm_reliable_axioms ok r] r show ?thesis
    by (auto simp: credentials_def)
qed

end
