(* ===== verification/SystemRoutes.thy ===== *)
theory SystemRoutes imports CacheCopy begin

text \<open>
  The handlers for the system's information, for sending cached files again, and for uploading a file to be
  transferred (\<^verbatim>\<open>routes/system.go\<close>, \<^verbatim>\<open>routes/filetransfer.go\<close>). The parsed body, the uploaded file and
  the web library's way to save it are parameters. Like those of \<^verbatim>\<open>DataRoutes\<close> these handlers have no
  \<^verbatim>\<open>recover\<close>.
\<close>

section \<open>State and replies\<close>

record SystemInformation =
  GitVersion :: string
  GitCommit :: string
  sysCacheInfo :: CacheInfo

record Upload =
  upName :: string
  upContent :: bytes

datatype sys_body = YInfo SystemInformation | YCount int | YError string | YText string | YStatus string | YUpload string int

type_synonym sys_reply = "(int \<times> sys_body) outcome"

type_synonym sys_state = "SystemInformation \<times> cache_state"

section \<open>Handlers\<close>

definition GetSysInfo :: "path \<Rightarrow> sys_state \<Rightarrow> sys_state \<times> sys_reply" where
  "GetSysInfo cwd ss = (case ss of (sys, s) \<Rightarrow>
     (case GetCacheInfo cwd s of
        (s', Ret i) \<Rightarrow> let sys' = sys\<lparr>sysCacheInfo := i\<rparr> in ((sys', s'), Ret (200, YInfo sys'))
      | (s', Panic m) \<Rightarrow> ((sys, s'), Panic m)
      | (s', Fatal m) \<Rightarrow> ((sys, s'), Fatal m)
      | (s', NoReturn) \<Rightarrow> ((sys, s'), NoReturn)))"

definition GetFileTransferInfo :: "path \<Rightarrow> sys_state \<Rightarrow> sys_state \<times> sys_reply" where
  "GetFileTransferInfo cwd ss = GetSysInfo cwd ss"

definition PostFileTransferInfo :: "path \<Rightarrow> sys_state \<Rightarrow> sys_state \<times> sys_reply" where
  "PostFileTransferInfo cwd ss = GetSysInfo cwd ss"

definition ResendCacheItems_route :: "path \<Rightarrow> string \<Rightarrow> DiodeProxy option \<Rightarrow> string + CacheItem list \<Rightarrow> cache_state \<Rightarrow> cache_state \<times> sys_reply" where
  "ResendCacheItems_route cwd os_text px parsed s = (case parsed of
       Inl err \<Rightarrow> (s, Ret (500, YError err))
     | Inr items \<Rightarrow>
        (case ResendCacheItems cwd os_text px items s of
           (s', Ret n) \<Rightarrow> (s', Ret (200, YCount n))
         | (s', Panic m) \<Rightarrow> (s', Panic m)
         | (s', Fatal m) \<Rightarrow> (s', Fatal m)
         | (s', NoReturn) \<Rightarrow> (s', NoReturn)))"

definition SendFullCache_route :: "path \<Rightarrow> string \<Rightarrow> cache_state \<Rightarrow> cache_state \<times> sys_reply" where
  "SendFullCache_route cwd os_text s = (case SendFullCache cwd os_text s of
       (s', True) \<Rightarrow> (s', Ret (200, YStatus ''ok''))
     | (s', False) \<Rightarrow> (s', Ret (500, YError os_text)))"

text \<open>
  \<open>form\<close> is the file of the form or the error; \<open>save\<close> writes it below the current directory, or fails. The error
  replied is built from the logged text as a format.
\<close>

definition UploadFilesToTransfer :: "path \<Rightarrow> (path \<Rightarrow> bytes \<Rightarrow> fsys \<Rightarrow> fsys option) \<Rightarrow> string \<Rightarrow> string + Upload \<Rightarrow> cache_state \<Rightarrow>
    cache_state \<times> sys_reply" where
  "UploadFilesToTransfer cwd save os_text form s = (case form of
       Inl err \<Rightarrow> (c_emit [Logged ''error'' ''No file provided'' err] s, Ret (503, YText err))
     | Inr file \<Rightarrow>
         let s1 = c_emit (trace_events ''File transfer'' (Sprintf ''Received file from upload: %s'' [AStr (upName file)])) s;
             dir = resolve cwd ''./outgoing/new'';
             s2 = (if fs_get (c_fs s1) dir = None then s1\<lparr>c_fs := MkdirAll dir (c_fs s1)\<rparr> else s1);
             filename = path_Join [''./outgoing/new'', upName file];
             size = int (length (upContent file))
         in case save (resolve cwd filename) (upContent file) (c_fs s2) of
              None \<Rightarrow>
                (let msg = Sprintf (''failed to save file, name: '' @ [CHR 0x27] @ ''%s'' @ [CHR 0x27] @ '', size: %d, error: %s'')
                       [AStr (upName file), AInt size, AStr os_text]
                 in (c_emit (error_events ''Upload of file to transfer failed'' msg) s2,
                     Ret (500, YError (Sprintf (''error: Upload of file to transfer failed, '' @ msg) []))))
            | Some fs \<Rightarrow>
                (c_emit (trace_events ''File transfer requested''
                   (Sprintf ''File %s, size %d requested to be transferred by operator'' [AStr (upName file), AInt size])) (s2\<lparr>c_fs := fs\<rparr>),
                 Ret (200, YUpload (upName file) size)))"

section \<open>Properties\<close>

lemma upload_path:
  assumes "proper f"
  shows "resolve cwd (path_Join [''./outgoing/new'', f]) = cwd @ [''outgoing'', ''new'', f]"
proof -
  have "split_on is_slash (''./outgoing/new'' @ CHR ''/'' # f) = split_on is_slash ''./outgoing/new'' @ split_on is_slash f"
    by (rule split_on_append) (simp add: is_slash_def)
  then have split: "split_on is_slash (''./outgoing/new/'' @ f) = [''.'', ''outgoing'', ''new'', f]"
    using split_proper [OF assms] by (simp add: is_slash_def)
  have "path_Join [''./outgoing/new'', f] = path_Clean (''./outgoing/new/'' @ f)" by (simp add: path_Join.simps)
  also have "\<dots> = build_path False (foldl (clean_step False) [] [''.'', ''outgoing'', ''new'', f])"
    unfolding path_Clean_def split by (simp add: is_rooted_def is_slash_def)
  also have "\<dots> = rel_path [''outgoing'', ''new'', f]"
    using assms proper_outgoing by (simp add: rel_path_def) (simp add: clean_step_def)
  finally have "path_Join [''./outgoing/new'', f] = rel_path [''outgoing'', ''new'', f]" .
  then show ?thesis using resolve_rel [of "[''outgoing'', ''new'', f]" cwd] assms proper_outgoing by simp
qed

lemma upload_dir: "resolve cwd ''./outgoing/new'' = cwd @ [''outgoing'', ''new'']"
  by (simp add: resolve_def os_base_def os_step_def is_sep_def is_slash_def is_backslash_def is_drive_def)

text \<open>
  An upload under a proper file name is answered with 200 and leaves the bytes received in
  \<^verbatim>\<open>outgoing/new\<close> below the process's current directory, which it makes when it is missing; no
  other file changes. Whatever was there under the name is replaced.
\<close>

theorem upload_stored:
  assumes "proper f" and "\<And>p c fs. save p c fs = WriteFile p c fs"
    and "clear_way (c_fs s) (cwd @ [''outgoing'', ''new''])" and "fs_get (c_fs s) (cwd @ [''outgoing'', ''new'', f]) \<noteq> Some Dir"
  shows "\<exists>s'. UploadFilesToTransfer cwd save e (Inr \<lparr>upName = f, upContent = c\<rparr>) s = (s', Ret (200, YUpload f (int (length c)))) \<and>
    fs_get (c_fs s') (cwd @ [''outgoing'', ''new'', f]) = Some (File c) \<and>
    (\<forall>p g. p \<noteq> cwd @ [''outgoing'', ''new'', f] \<longrightarrow> (fs_get (c_fs s') p = Some (File g) \<longleftrightarrow> fs_get (c_fs s) p = Some (File g)))"
proof -
  let ?dir = "cwd @ [''outgoing'', ''new'']" and ?p = "cwd @ [''outgoing'', ''new'', f]"
  define fs where "fs = (if fs_get (c_fs s) ?dir = None then MkdirAll ?dir (c_fs s) else c_fs s)"
  have "is_dir (c_fs s) ?dir" if "fs_get (c_fs s) ?dir \<noteq> None"
    using assms(3) that by (auto simp: clear_way_def is_dir_def)
  then have dir: "is_dir fs ?dir" using MkdirAll_makes [OF assms(3)] by (simp add: fs_def)
  have "\<not> prefix ?p ?dir" by (simp add: prefix_def)
  then have new: "fs_get fs ?p \<noteq> Some Dir" using assms(4) MkdirAll_outside by (simp add: fs_def)
  have files: "fs_get fs p = Some (File g) \<longleftrightarrow> fs_get (c_fs s) p = Some (File g)" for p g
    using MkdirAll_get [of ?dir "c_fs s" p] by (auto simp: fs_def)
  have "WriteFile ?p c fs = Some (fs_put ?p (File c) fs)"
    using dir new by (simp add: WriteFile_def butlast_append)
  then have "\<exists>s'. UploadFilesToTransfer cwd save e (Inr \<lparr>upName = f, upContent = c\<rparr>) s = (s', Ret (200, YUpload f (int (length c)))) \<and>
      c_fs s' = fs_put ?p (File c) fs"
    by (cases "fs_get (c_fs s) ?dir")
      (simp_all add: UploadFilesToTransfer_def upload_path [OF assms(1)] upload_dir assms(2) c_emit_def fs_def Let_def)
  then show ?thesis using files by auto
qed

lemma upload_stored_witness:
  "\<exists>s'. UploadFilesToTransfer [] (\<lambda>p c fs. WriteFile p c fs) ''e'' (Inr \<lparr>upName = ''a'', upContent = [1]\<rparr>) empty_cache = (s', Ret (200, YUpload ''a'' 1)) \<and>
    fs_get (c_fs s') [''outgoing'', ''new'', ''a''] = Some (File [1])"
proof -
  have "proper ''a''" by (simp add: proper_def is_sep_def is_slash_def is_backslash_def)
  moreover have "clear_way (c_fs empty_cache) ([] @ [''outgoing'', ''new''])" "fs_get (c_fs empty_cache) ([] @ [''outgoing'', ''new'', ''a'']) \<noteq> Some Dir"
    by (simp_all add: empty_cache_def clear_way_def)
  ultimately show ?thesis
    using upload_stored [of "''a''" "\<lambda>p c fs. WriteFile p c fs" empty_cache "[]" "''e''" "[1]"] by auto
qed

end
