(* ===== verification/Web.thy ===== *)
theory Web imports UserRoutes SystemRoutes Logger "HOL-Library.Multiset" begin

text \<open>
  The wiring of the web interface (\<^verbatim>\<open>web/server.go\<close> and the tables of routes in \<^verbatim>\<open>routes/\<close>): the stack of
  middleware and routes in the order \<^verbatim>\<open>RunWeb\<close> registers them, and what an entry does with a request.
  The web library, which finds the entries a request matches, is a parameter: the locale \<open>fiber\<close> states
  its documented behaviour. The static files, the token check of the JWT middleware, and what a request
  carries are parameters too. The limit of 50 MB for a body and the port it listens on are settings of
  the library that no definition here depends on.
\<close>

section \<open>Routes\<close>

datatype meth = GET | POST | PUT | PATCH | DELETE

text \<open>The handlers, by the name of the function; \<open>UiPage_H\<close> and \<open>Socket_H\<close> are functions in \<^verbatim>\<open>RunWeb\<close>.\<close>

datatype handler =
    UiPage_H | Socket_H
  | verifyToken_H | login_H | logout_H | NewUser_H
  | GetAllUsers_H | GetCurrentUser_H | GetUserByID_H | GetUserByField_H | UpdateUser_H
  | GetAllOfType_H | GetDataByID_H | GetDataByField_H | NewData_H | UpdateData_H
  | DeleteDataAllItems_H | DeleteDataByID_H | DeleteDataByField_H
  | GetAllServers_H | GetServerById_H | GetServerRoot_H | GetServerPosition_H | GetServerBranches_H
  | GetServerLeaves_H | GetServerListBranches_H
  | GetGroups_H | NewGroup_H | UpdateGroup_H | GetGroup_H | GetGroupTags_H | GetGroupStart_H | GetGroupStop_H
  | PostGroupAddTag_H | PostGroupDelTag_H | GetTagNames_H | PostTagNames_H | DeleteTagNames_H | PostTagChanges_H
  | GetSysInfo_H | SendFullCache_H | ResendCacheItems_H
  | GetFileTransferInfo_H | PostFileTransferInfo_H | UploadFilesToTransfer_H

datatype layer = RequestLog | StaticFiles | TokenCheck

text \<open>The prefix of \<^verbatim>\<open>Use\<close> is empty when the call has none.\<close>

datatype entry = Use string layer | Route meth string handler

text \<open>\<open>api\<close> is the prefix of the group the routes are registered in.\<close>

definition RegisterAuthRoutes :: "string \<Rightarrow> entry list" where
  "RegisterAuthRoutes api =
    [Route GET (api @ ''/auth/verify'') verifyToken_H,
     Route POST (api @ ''/auth/login'') login_H,
     Route POST (api @ ''/auth/logout'') logout_H,
     Route POST (api @ ''/auth/register'') NewUser_H]"

definition RegisterUserRoutes :: "string \<Rightarrow> entry list" where
  "RegisterUserRoutes api =
    [Route GET (api @ ''/user'') GetAllUsers_H,
     Route GET (api @ ''/user/current'') GetCurrentUser_H,
     Route GET (api @ ''/user/id/:id'') GetUserByID_H,
     Route GET (api @ ''/user/field/:name/:value'') GetUserByField_H,
     Route POST (api @ ''/user'') NewUser_H,
     Route PUT (api @ ''/user/:id'') UpdateUser_H,
     Route PATCH (api @ ''/user/:id'') UpdateUser_H]"

definition RegisterDataRoutes :: "string \<Rightarrow> entry list" where
  "RegisterDataRoutes api =
    [Route GET (api @ ''/data/:type'') GetAllOfType_H,
     Route GET (api @ ''/data/:type/id/:id'') GetDataByID_H,
     Route GET (api @ ''/data/:type/field/:field/:value'') GetDataByField_H,
     Route POST (api @ ''/data/:type'') NewData_H,
     Route PUT (api @ ''/data/:type'') UpdateData_H,
     Route DELETE (api @ ''/data/:type'') DeleteDataAllItems_H,
     Route DELETE (api @ ''/data/:type/:id'') DeleteDataByID_H,
     Route DELETE (api @ ''/data/:type/field/:field/:value'') DeleteDataByField_H]"

definition RegisterOPCRoutes :: "string \<Rightarrow> entry list" where
  "RegisterOPCRoutes api =
    [Route GET (api @ ''/opc/server'') GetAllServers_H,
     Route GET (api @ ''/opc/server/:serverid'') GetServerById_H,
     Route GET (api @ ''/opc/server/:serverid/root'') GetServerRoot_H,
     Route GET (api @ ''/opc/server/:serverid/position'') GetServerPosition_H,
     Route GET (api @ ''/opc/server/:serverid/branches/:branch'') GetServerBranches_H,
     Route GET (api @ ''/opc/server/:serverid/leaves/:branch'') GetServerLeaves_H,
     Route GET (api @ ''/opc/server/:serverid/list/:branch'') GetServerListBranches_H,
     Route GET (api @ ''/opc/group'') GetGroups_H,
     Route POST (api @ ''/opc/group'') NewGroup_H,
     Route PUT (api @ ''/opc/group'') UpdateGroup_H,
     Route GET (api @ ''/opc/group/:gid'') GetGroup_H,
     Route GET (api @ ''/opc/group/:gid/tags'') GetGroupTags_H,
     Route GET (api @ ''/opc/group/start/:gid'') GetGroupStart_H,
     Route GET (api @ ''/opc/group/stop/:gid'') GetGroupStop_H,
     Route POST (api @ ''/opc/group/:gid/tag'') PostGroupAddTag_H,
     Route DELETE (api @ ''/opc/group/:gid/tag'') PostGroupDelTag_H,
     Route GET (api @ ''/opc/tag/names'') GetTagNames_H,
     Route POST (api @ ''/opc/tag/names'') PostTagNames_H,
     Route DELETE (api @ ''/opc/tag/names'') DeleteTagNames_H,
     Route POST (api @ ''/opc/tag/changes'') PostTagChanges_H]"

definition RegisterSystemRoutes :: "string \<Rightarrow> entry list" where
  "RegisterSystemRoutes api =
    [Route GET (api @ ''/system/sendhistory'') SendFullCache_H,
     Route POST (api @ ''/system/resend'') ResendCacheItems_H]"

definition RegisterFileTransferRoutes :: "string \<Rightarrow> entry list" where
  "RegisterFileTransferRoutes api =
    [Route GET (api @ ''/filetransfer'') GetFileTransferInfo_H,
     Route POST (api @ ''/filetransfer'') PostFileTransferInfo_H,
     Route POST (api @ ''/filetransfer/upload'') UploadFilesToTransfer_H]"

text \<open>The stack \<^verbatim>\<open>RunWeb\<close> builds, in the order of its calls.\<close>

definition RunWeb :: "Context \<Rightarrow> entry list" where
  "RunWeb args =
     (if Trace args then [Use '''' RequestLog] else []) @
     [Use ''/'' StaticFiles, Route GET ''/ui/*'' UiPage_H, Use ''/static'' StaticFiles, Route GET ''/ws'' Socket_H] @
     RegisterAuthRoutes ''/api'' @ [Route GET ''/api/system/info'' GetSysInfo_H] @
     [Use '''' TokenCheck] @
     RegisterUserRoutes ''/api'' @ RegisterDataRoutes ''/api'' @ RegisterOPCRoutes ''/api'' @
     RegisterSystemRoutes ''/api'' @ RegisterFileTransferRoutes ''/api''"

section \<open>Serving a request\<close>

text \<open>
  What an entry does with a request: it answers, or lets the next entry that matches go on (\<^verbatim>\<open>Next\<close>).
  The library takes the entries in the order they were registered; one without a prefix takes every request.
\<close>

locale fiber =
  fixes serve :: "entry list \<Rightarrow> 'q \<Rightarrow> ('q \<Rightarrow> entry \<Rightarrow> 'w \<Rightarrow> 'w \<times> 'a option) \<Rightarrow> 'w \<Rightarrow> 'w \<times> 'a option"
    and matches :: "entry \<Rightarrow> 'q \<Rightarrow> bool"
  assumes use_all: "matches (Use [] l) q"
    and serve_nil: "serve [] q run w = (w, None)"
    and serve_cons: "serve (e # es) q run w =
      (if matches e q
       then (case run q e w of (w', Some a) \<Rightarrow> (w', Some a) | (w', None) \<Rightarrow> serve es q run w')
       else serve es q run w)"
begin

lemma serve_append:
  "serve (es @ fs) q run w = (case serve es q run w of (w', Some a) \<Rightarrow> (w', Some a) | (w', None) \<Rightarrow> serve fs q run w')"
  by (induction es arbitrary: w) (auto simp: serve_nil serve_cons split: prod.splits option.splits)

text \<open>An answer comes from an entry that matches, after entries that answered nothing.\<close>

lemma serve_answer:
  assumes "serve es q run w = (w', Some a)"
  obtains fs e gs v where "es = fs @ e # gs" "matches e q" "serve fs q run w = (v, None)" "run q e v = (w', Some a)"
  using assms
proof (induction es arbitrary: w thesis)
  case Nil
  then show ?case by (simp add: serve_nil)
next
  case (Cons e es)
  show ?case
  proof (cases "matches e q \<and> snd (run q e w) \<noteq> None")
    case True
    then show ?thesis using Cons.prems by (intro Cons.prems(1) [of "[]" e es w]) (auto simp: serve_nil serve_cons split: prod.splits)
  next
    case False
    let ?w = "if matches e q then fst (run q e w) else w"
    have step: "serve (e # fs) q run w = serve fs q run ?w" for fs
      using False by (cases "run q e w") (auto simp: serve_cons split: option.splits)
    then have "serve es q run ?w = (w', Some a)" using Cons.prems(2) step by simp
    then obtain fs e' gs v where "es = fs @ e' # gs" "matches e' q" "serve fs q run ?w = (v, None)" "run q e' v = (w', Some a)"
      by (rule Cons.IH [rotated])
    then show ?thesis using Cons.prems(1) [of "e # fs" e' gs v] step by simp
  qed
qed

lemma serve_none:
  assumes "serve es q run w = (w', None)" and "\<And>e v v'. e \<in> set es \<Longrightarrow> run q e v = (v', None) \<Longrightarrow> v' = v"
  shows "w' = w"
  using assms
proof (induction es arbitrary: w)
  case (Cons e es)
  show ?case
  proof (cases "matches e q")
    case True
    then obtain v where "run q e w = (v, None)" "serve es q run v = (w', None)"
      using Cons.prems(1) by (auto simp: serve_cons split: prod.splits option.splits)
    then show ?thesis using Cons.prems(2) Cons.IH by (metis list.set_intros)
  qed (use Cons in \<open>auto simp: serve_cons\<close>)
qed (simp add: serve_nil)

text \<open>Entries that do not match or let the request go on unchanged do not matter.\<close>

lemma serve_filter:
  assumes "\<And>e w. e \<in> set es \<Longrightarrow> \<not> P e \<Longrightarrow> matches e q \<Longrightarrow> run q e w = (w, None)"
  shows "serve es q run w = serve (filter P es) q run w"
  using assms by (induction es arbitrary: w) (auto simp: serve_nil serve_cons split: prod.splits option.splits)

text \<open>Where no two entries match, their order does not matter.\<close>

lemma serve_permuted:
  assumes "mset es = mset fs" and "\<And>e f. e \<in> set es \<Longrightarrow> f \<in> set es \<Longrightarrow> matches e q \<Longrightarrow> matches f q \<Longrightarrow> e = f"
  shows "serve es q run w = serve fs q run w"
proof -
  let ?P = "\<lambda>e. matches e q"
  have same: "mset (filter ?P es) = mset (filter ?P fs)" using assms(1) by (simp add: mset_filter)
  have "filter ?P es = filter ?P fs"
  proof (cases "filter ?P es")
    case (Cons e xs)
    then have "e \<in> set es" "matches e q" by (auto dest!: arg_cong [where f = set])
    then have "set (filter ?P es) \<subseteq> {e}" "set (filter ?P fs) \<subseteq> {e}"
      using assms(2) mset_eq_setD [OF assms(1)] by auto
    then show ?thesis
      using replicate_length_same [of "filter ?P es" e] replicate_length_same [of "filter ?P fs" e] mset_eq_length [OF same]
      by (metis singletonD subsetD)
  qed (use same in simp)
  then show ?thesis using serve_filter [of es ?P q run w] serve_filter [of fs ?P q run w] by simp
qed

text \<open>A relation that every entry keeps up to the answer is kept by serving.\<close>

lemma serve_keeps:
  assumes "\<And>w. R w w" and "\<And>e v v' r. e \<in> set es \<Longrightarrow> R w v \<Longrightarrow> run q e v = (v', r) \<Longrightarrow> R w v'"
  shows "R w (fst (serve es q run w))"
proof -
  have "R w (fst (serve es q run v))" if "R w v" for v
    using assms(2) that
  proof (induction es arbitrary: v)
    case (Cons e es)
    obtain v' r where run: "run q e v = (v', r)" by fastforce
    then have "R w v'" using Cons.prems by (meson list.set_intros(1))
    moreover have "R w (fst (serve es q run u))" if "R w u" for u
      using Cons.IH [OF _ that] Cons.prems(1) by (meson list.set_intros(2))
    ultimately show ?case using run Cons.prems(2) by (auto simp: serve_cons split: option.splits)
  qed (simp add: serve_nil)
  then show ?thesis using assms(1) by simp
qed

end

text \<open>The library's first match over the stack, with the match of an entry with a prefix as it is given.\<close>

fun match_entry :: "(entry \<Rightarrow> 'q \<Rightarrow> bool) \<Rightarrow> entry \<Rightarrow> 'q \<Rightarrow> bool" where
  "match_entry m (Use [] l) q = True"
| "match_entry m e q = m e q"

fun serve_list :: "(entry \<Rightarrow> 'q \<Rightarrow> bool) \<Rightarrow> entry list \<Rightarrow> 'q \<Rightarrow> ('q \<Rightarrow> entry \<Rightarrow> 'w \<Rightarrow> 'w \<times> 'a option) \<Rightarrow> 'w \<Rightarrow> 'w \<times> 'a option" where
  "serve_list m [] q run w = (w, None)"
| "serve_list m (e # es) q run w =
     (if match_entry m e q
      then (case run q e w of (w', Some a) \<Rightarrow> (w', Some a) | (w', None) \<Rightarrow> serve_list m es q run w')
      else serve_list m es q run w)"

interpretation first_match: fiber "serve_list m" "match_entry m"
  by unfold_locales simp_all

section \<open>What the entries do\<close>

text \<open>
  The world a request works on: the users, the system information with the cache, the subscribers, the log,
  and everything else (groups and tags, their collectors, the servers, the other tables).
\<close>

record ('ud, 'm, 'l, 'x) world =
  w_users :: "'ud user_state"
  w_sys :: sys_state
  w_ws :: "'m ws_state"
  w_log :: "'l log_state"
  w_rest :: 'x

datatype 'o answer = AUser user_reply | ASys sys_reply | APage | AFile | ASocket | ARejected int | AOther 'o

text \<open>
  What the library reads from a request, and the other parameters: the status the token check rejects it with
  (if it does), whether there is a static file for it below a prefix, the table of the log and the time, the
  parsed body of a user, the new connection of a websocket, and the handlers behind the token check. Their models are in the theories of
  the components; what is shown here holds whatever they do.
\<close>

record ('q, 'ud, 'm, 'l, 'x, 'o) web_env =
  token_error :: "'q \<Rightarrow> int option"
  static_file :: "string \<Rightarrow> 'q \<Rightarrow> bool"
  users :: "(User, 'ud) gorm"
  users_error :: string
  logs :: "(LogEntry, 'l) gorm"
  clock :: "'q \<Rightarrow> int"
  parsed_user :: "'q \<Rightarrow> string + User"
  sign_token :: "Claims \<Rightarrow> string option"
  work_dir :: path
  ws_conn :: "'q \<Rightarrow> nat"
  ws_writes :: "nat \<Rightarrow> bool"
  behind_token :: "handler \<Rightarrow> 'q \<Rightarrow> ('ud, 'm, 'l, 'x) world \<Rightarrow> ('ud, 'm, 'l, 'x) world \<times> 'o answer"

text \<open>The handlers that \<^verbatim>\<open>RunWeb\<close> registers before the token check.\<close>

text \<open>
  What a handler of users logs (\<^verbatim>\<open>logger.Log\<close>) goes into the table of the log, which keeps its newest entries.
\<close>

fun log_event :: "(LogEntry, 'l) gorm \<Rightarrow> int \<Rightarrow> event \<Rightarrow> 'l log_state \<Rightarrow> 'l log_state" where
  "log_event G now (Logged cat title msg) l = fst (Log G now cat title msg l)"
| "log_event G now e l = l"

definition on_users :: "('q, 'ud, 'm, 'l, 'x, 'o) web_env \<Rightarrow> 'q \<Rightarrow> ('ud user_state \<Rightarrow> 'ud user_state \<times> user_reply) \<Rightarrow>
    ('ud, 'm, 'l, 'x) world \<Rightarrow> ('ud, 'm, 'l, 'x) world \<times> 'o answer" where
  "on_users E q f w =
     (let (u, r) = f (w_users w); new = drop (length (u_events (w_users w))) (u_events u)
      in (w\<lparr>w_users := u, w_log := fold (log_event (logs E) (clock E q)) new (w_log w)\<rparr>, AUser r))"

fun call :: "('q, 'ud, 'm, 'l, 'x, 'o) web_env \<Rightarrow> 'q \<Rightarrow> handler \<Rightarrow> ('ud, 'm, 'l, 'x) world \<Rightarrow> ('ud, 'm, 'l, 'x) world \<times> 'o answer" where
  "call E q UiPage_H w = (w, APage)"
| "call E q Socket_H w =
     (let s = w_ws w; c = ws_conn E q
      in (w\<lparr>w_ws := RegisterWebsocket (ws_writes E) c (s\<lparr>open_conns := c # open_conns s\<rparr>)\<rparr>, ASocket))"
| "call E q verifyToken_H w = on_users E q verifyToken w"
| "call E q login_H w = on_users E q (login (users E) (sign_token E) (users_error E) (parsed_user E q)) w"
| "call E q logout_H w = on_users E q logout w"
| "call E q NewUser_H w = on_users E q (NewUser (users E) (parsed_user E q)) w"
| "call E q GetSysInfo_H w = (case GetSysInfo (work_dir E) (w_sys w) of (s, r) \<Rightarrow> (w\<lparr>w_sys := s\<rparr>, ASys r))"
| "call E q h w = behind_token E h q w"

fun run_entry :: "('q, 'ud, 'm, 'l, 'x, 'o) web_env \<Rightarrow> 'q \<Rightarrow> entry \<Rightarrow> ('ud, 'm, 'l, 'x) world \<Rightarrow> ('ud, 'm, 'l, 'x) world \<times> 'o answer option" where
  "run_entry E q (Use p RequestLog) w = (w, None)"
| "run_entry E q (Use p StaticFiles) w = (w, if static_file E p q then Some AFile else None)"
| "run_entry E q (Use p TokenCheck) w = (w, map_option ARejected (token_error E q))"
| "run_entry E q (Route m p h) w = (case call E q h w of (w', a) \<Rightarrow> (w', Some a))"

end
