(* ===== verification/WebTheorems.thy ===== *)
theory WebTheorems imports Web begin

text \<open>
  Who may do what through the web interface: what a request without a valid token can reach and change,
  and that, but for two pairs, no two routes of the interface take the same request.
\<close>

section \<open>Without a token\<close>

definition open_handlers :: "handler list" where
  "open_handlers = [UiPage_H, Socket_H, verifyToken_H, login_H, logout_H, NewUser_H, GetSysInfo_H]"

text \<open>The stack up to the token check, and the rest.\<close>

definition before_check :: "Context \<Rightarrow> entry list" where
  "before_check args =
     (if Trace args then [Use [] RequestLog] else []) @
     [Use ''/'' StaticFiles, Route GET ''/ui/*'' UiPage_H, Use ''/static'' StaticFiles, Route GET ''/ws'' Socket_H] @
     RegisterAuthRoutes ''/api'' @ [Route GET ''/api/system/info'' GetSysInfo_H]"

definition api_routes :: "entry list" where
  "api_routes = RegisterUserRoutes ''/api'' @ RegisterDataRoutes ''/api'' @ RegisterOPCRoutes ''/api'' @
     RegisterSystemRoutes ''/api'' @ RegisterFileTransferRoutes ''/api''"

lemma stack_split: "RunWeb args = before_check args @ Use [] TokenCheck # api_routes"
  by (simp only: RunWeb_def before_check_def api_routes_def append_assoc append_Cons append_Nil)

lemma before_check_open:
  "\<forall>e \<in> set (before_check args). case e of Route m p h \<Rightarrow> h \<in> set open_handlers | Use p l \<Rightarrow> l \<noteq> TokenCheck"
  by (simp add: before_check_def RegisterAuthRoutes_def open_handlers_def)

lemma silent_unchanged: "run_entry E q e w = (w', None) \<Longrightarrow> w' = w"
  by (induction E q e w rule: run_entry.induct) (auto split: prod.splits)

lemma GetCacheInfo_fs: "GetCacheInfo cwd s = (s', r) \<Longrightarrow> c_fs s' = c_fs s"
  by (auto simp: GetCacheInfo_def refreshCache_def Let_def split: if_splits outcome.splits)

lemma GetSysInfo_fs: "GetSysInfo cwd ss = (ss', r) \<Longrightarrow> c_fs (snd ss') = c_fs (snd ss)"
  using GetCacheInfo_fs by (auto simp: GetSysInfo_def Let_def split: prod.splits outcome.splits)

lemma NewUser_rows:
  assumes "gorm_reliable G uID with_uID ok" and "ok (u_db s)" and "NewUser G parsed s = (s', r)"
  shows "\<exists>us. length us \<le> 1 \<and> rows G (u_db s') = rows G (u_db s) @ us"
proof (cases parsed)
  case (Inr data)
  let ?u = "\<lparr>uID = 0, UserName = UserName data, Password = Password data, FullName = FullName data, uSettings = zero_settings, SettingsID = 0\<rparr>"
  have "uID ?u = 0" by simp
  from gorm_reliable.created [OF assms(1,2) this] obtain k d where
    "g_create G ?u (u_db s) = (d, Some (with_uID k ?u))" "rows G d = rows G (u_db s) @ [with_uID k ?u]" by metis
  then show ?thesis using assms(3) Inr by (auto simp: NewUser_def Let_def)
qed (use assms(3) in \<open>simp add: NewUser_def u_fail_def, auto\<close>)

lemma login_rows: "login G sign e parsed s = (s', r) \<Longrightarrow> u_db s' = u_db s"
  by (auto simp: login_def u_fail_def split: sum.splits option.splits)

text \<open>Each of the handlers of users logs at most one error.\<close>

lemma users_events:
  assumes "f \<in> {verifyToken, login G sign e parsed, logout, NewUser G parsed}" and "f s = (s', r)"
  obtains es where "u_events s' = u_events s @ es" "es = [] \<or> (\<exists>t m. es = [Logged ''error'' t m])"
  using assms
  by (auto simp: verifyToken_def logout_def login_def NewUser_def u_fail_def Let_def split: sum.splits option.splits prod.splits)

text \<open>What the open handlers leave alone.\<close>

definition logged_once :: "('q, 'ud, 'm, 'l, 'x, 'o) web_env \<Rightarrow> 'l log_state \<Rightarrow> 'l log_state \<Rightarrow> bool" where
  "logged_once E l l' \<longleftrightarrow> l' = l \<or> (\<exists>now t m. l' = fst (Log (logs E) now ''error'' t m l))"

definition kept :: "('q, 'ud, 'm, 'l, 'x, 'o) web_env \<Rightarrow> ('ud, 'm, 'l, 'x) world \<Rightarrow> ('ud, 'm, 'l, 'x) world \<Rightarrow> bool" where
  "kept E w w' \<longleftrightarrow> w_rest w' = w_rest w \<and> c_fs (snd (w_sys w')) = c_fs (snd (w_sys w)) \<and>
     (\<exists>us. length us \<le> 1 \<and> rows (users E) (u_db (w_users w')) = rows (users E) (u_db (w_users w)) @ us) \<and>
     logged_once E (w_log w) (w_log w')"

lemma kept_same [simp]: "kept E w w"
  by (auto simp: kept_def logged_once_def)

abbreviation user_handlers :: "('q, 'ud, 'm, 'l, 'x, 'o) web_env \<Rightarrow> 'q \<Rightarrow> ('ud user_state \<Rightarrow> 'ud user_state \<times> user_reply) set" where
  "user_handlers E q \<equiv>
     {verifyToken, login (users E) (sign_token E) (users_error E) (parsed_user E q), logout, NewUser (users E) (parsed_user E q)}"

lemma on_users_kept:
  assumes "gorm_reliable (users E) uID with_uID ok" and "ok (u_db (w_users w))"
    and "f \<in> user_handlers E q" and "on_users E q f w = (w', a)"
  shows "kept E w w' \<and> w_ws w' = w_ws w \<and> w_sys w' = w_sys w"
proof -
  obtain u r where u: "f (w_users w) = (u, r)" by (cases "f (w_users w)")
  obtain es where es: "u_events u = u_events (w_users w) @ es" "es = [] \<or> (\<exists>t m. es = [Logged ''error'' t m])"
    by (rule users_events [OF assms(3) u])
  have w': "w' = w\<lparr>w_users := u, w_log := fold (log_event (logs E) (clock E q)) es (w_log w)\<rparr>"
    using assms(4) u es(1) by (simp add: on_users_def)
  have "logged_once E l (fold (log_event (logs E) now) es l)" for now l
    using es(2) by (elim disjE exE) (simp add: logged_once_def, simp add: logged_once_def, blast)
  then have "logged_once E (w_log w) (w_log w')" by (simp add: w')
  moreover have "\<exists>us. length us \<le> 1 \<and> rows (users E) (u_db u) = rows (users E) (u_db (w_users w)) @ us"
  proof (cases "f = NewUser (users E) (parsed_user E q)")
    case True
    then show ?thesis using NewUser_rows [OF assms(1,2)] u by blast
  next
    case False
    then have "u_db u = u_db (w_users w)" using assms(3) u login_rows [of "users E" "sign_token E" "users_error E" "parsed_user E q" "w_users w" u r]
      by (auto simp: verifyToken_def logout_def)
    then show ?thesis by (intro exI [of _ "[]"]) simp
  qed
  ultimately show ?thesis by (simp add: kept_def w')
qed

lemma open_kept:
  assumes "gorm_reliable (users E) uID with_uID ok" and "ok (u_db (w_users w))"
    and "h \<in> set open_handlers" and "call E q h w = (w', a)"
  shows "kept E w w' \<and> (w_ws w' = w_ws w \<or> a = ASocket) \<and> (w_sys w' = w_sys w \<or> (\<exists>y. a = ASys y))"
proof -
  have "\<exists>f \<in> user_handlers E q. call E q h w = on_users E q f w" if "h \<in> {verifyToken_H, login_H, logout_H, NewUser_H}"
    using that by (elim insertE emptyE) simp_all
  then consider f where "f \<in> user_handlers E q" "call E q h w = on_users E q f w" | "h = GetSysInfo_H" | "h \<in> {UiPage_H, Socket_H}"
    using assms(3) by (auto simp only: open_handlers_def list.set insert_iff empty_iff)
  then show ?thesis
  proof cases
    case 1
    then show ?thesis using on_users_kept [OF assms(1,2)] assms(4) by metis
  next
    case 2
    then show ?thesis
      using GetSysInfo_fs [of "work_dir E" "w_sys w"] assms(4) by (auto simp: kept_def logged_once_def split: prod.splits)
  next
    case 3
    then show ?thesis using assms(4) by (auto simp: kept_def logged_once_def Let_def)
  qed
qed

lemma logged_rows:
  assumes "gorm_reliable (logs E) lID with_lID okl" and "logDB l = Some d" and "okl d" and "logged_once E l l'"
  shows "\<exists>d' es. logDB l' = Some d' \<and> length es \<le> 1 \<and>
    rows (logs E) d' = (if es = [] then rows (logs E) d else newest (rows (logs E) d @ es))"
proof -
  have "\<exists>d' k. logDB (fst (Log (logs E) now c t m l)) = Some d' \<and>
      rows (logs E) d' = newest (rows (logs E) d @ [with_lID k (log_entry now c t m)])" for now c t m
    using log_rows_newest [OF assms(1-3)] by blast
  then show ?thesis
    using assms(2,4) unfolding logged_once_def by (metis One_nat_def length_Cons list.size(3) le_refl le_Suc_eq list.distinct(1))
qed

text \<open>
  C6. A request the token check would reject, whatever it asks for, is answered by a static file, by one of
  the open handlers (the page, the websocket, \<^verbatim>\<open>/auth\<close> and \<^verbatim>\<open>/system/info\<close>), or by the
  rejection. A file and the rejection change nothing. The open handlers leave groups, tags, collectors,
  servers, files and the other tables as they are; the table of users may get one more row, the table of the
  log may get one more entry (and then keeps its newest 1000), only the websocket changes the
  subscribers, and only \<^verbatim>\<open>/system/info\<close> the system's information.
\<close>

theorem token_guard:
  assumes "fiber serve matches" and "gorm_reliable (users E) uID with_uID ok" and "ok (u_db (w_users w))"
    and "gorm_reliable (logs E) lID with_lID okl" and "logDB (w_log w) = Some d" and "okl d"
    and "token_error E q = Some code" and "serve (RunWeb args) q (run_entry E) w = (w', r)"
  shows "w_rest w' = w_rest w \<and> c_fs (snd (w_sys w')) = c_fs (snd (w_sys w)) \<and>
    (\<exists>us. length us \<le> 1 \<and> rows (users E) (u_db (w_users w')) = rows (users E) (u_db (w_users w)) @ us) \<and>
    (\<exists>d' es. logDB (w_log w') = Some d' \<and> length es \<le> 1 \<and>
       rows (logs E) d' = (if es = [] then rows (logs E) d else newest (rows (logs E) d @ es))) \<and>
    (w_ws w' = w_ws w \<or> r = Some ASocket) \<and> (w_sys w' = w_sys w \<or> (\<exists>y. r = Some (ASys y))) \<and>
    (r = Some (ARejected code) \<and> w' = w \<or> r = Some AFile \<and> w' = w \<or>
     (\<exists>m p h. Route m p h \<in> set (RunWeb args) \<and> h \<in> set open_handlers \<and> matches (Route m p h) q \<and>
        (\<exists>a. call E q h w = (w', a) \<and> r = Some a)))"
proof -
  note serve_append = fiber.serve_append [OF assms(1)] and serve_none = fiber.serve_none [OF assms(1)]
    and serve_answer = fiber.serve_answer [OF assms(1)]
  have same: "\<exists>us. length us \<le> 1 \<and> rows (users E) (u_db (w_users w)) = rows (users E) (u_db (w_users w)) @ us"
    by (intro exI [of _ "[]"]) simp
  have logs_same: "\<exists>d' es. logDB (w_log w) = Some d' \<and> length es \<le> 1 \<and>
      rows (logs E) d' = (if es = [] then rows (logs E) d else newest (rows (logs E) d @ es))"
    using assms(5) by (intro exI [of _ d] exI [of _ "[]"]) simp
  obtain v x where front: "serve (before_check args) q (run_entry E) w = (v, x)" by fastforce
  show ?thesis
  proof (cases x)
    case None
    have "v = w" by (rule serve_none [OF front [unfolded None]]) (rule silent_unchanged)
    moreover have "serve (Use [] TokenCheck # api_routes) q (run_entry E) v = (v, Some (ARejected code))"
      using assms(7) by (simp add: fiber.serve_cons [OF assms(1)] fiber.use_all [OF assms(1)])
    ultimately show ?thesis using assms(8) front None same logs_same by (simp add: stack_split serve_append)
  next
    case (Some a)
    then have r: "w' = v" "r = Some a" using assms(8) front Some by (auto simp: stack_split serve_append)
    have "serve (before_check args) q (run_entry E) w = (v, Some a)" using front Some by simp
    note answer = serve_answer [OF this]
    obtain fs e gs u where
      e: "before_check args = fs @ e # gs" "matches e q" "serve fs q (run_entry E) w = (u, None)" "run_entry E q e u = (v, Some a)"
      using answer by blast
    have u: "u = w" by (rule serve_none [OF e(3)]) (rule silent_unchanged)
    have here: "e \<in> set (before_check args)" by (simp add: e(1))
    note opened = bspec [OF before_check_open here]
    show ?thesis
    proof (cases e)
      case (Use p l)
      then have "v = w \<and> a = AFile" using opened e(4) u by (cases l) (auto split: if_splits)
      then show ?thesis using r same logs_same by simp
    next
      case (Route m p h)
      then have h: "h \<in> set open_handlers" "call E q h w = (v, a)" using opened e(4) u by (auto split: prod.splits)
      have "Route m p h \<in> set (RunWeb args)" using here Route by (simp add: stack_split)
      moreover note k = open_kept [OF assms(2,3) h] and l = logged_rows [OF assms(4-6)]
      ultimately show ?thesis using h r e(2) Route k l [of "w_log v"] unfolding kept_def by blast
    qed
  qed
qed

definition test_args :: Context where
  "test_args = \<lparr>Cmd = ''debug'', Wdir = ''.'', Trace = False, TraceOpc = False, ShowVersion = False\<rparr>"

text \<open>A request is a verb and a path here, and a route takes the requests for its own text.\<close>

definition test_env :: "(meth \<times> string, User list, unit, LogEntry list, unit, unit) web_env" where
  "test_env = \<lparr>token_error = (\<lambda>_. Some 400), static_file = (\<lambda>_ _. False), users = user_table, users_error = ''e'', logs = log_table, clock = (\<lambda>_. 0),
     parsed_user = (\<lambda>_. Inr (credentials ''a'' ''b'')), sign_token = (\<lambda>_. Some ''t''), work_dir = [],
     ws_conn = (\<lambda>_. 0), ws_writes = (\<lambda>_. True), behind_token = (\<lambda>_ _ w. (w, AOther ()))\<rparr>"

definition test_world :: "(User list, unit, LogEntry list, unit) world" where
  "test_world = \<lparr>w_users = no_users, w_sys = (\<lparr>GitVersion = ''v'', GitCommit = ''c'', sysCacheInfo = cacheInfo empty_cache\<rparr>, empty_cache),
     w_ws = no_subscribers, w_log = \<lparr>logDB = Some [], log_lines = []\<rparr>, w_rest = ()\<rparr>"

fun text_match :: "entry \<Rightarrow> meth \<times> string \<Rightarrow> bool" where
  "text_match (Route m p h) (m', p') \<longleftrightarrow> m = m' \<and> p = p'"
| "text_match (Use p l) q \<longleftrightarrow> True"

lemma token_guard_witness:
  "\<exists>w' r us d es. serve_list text_match (RunWeb test_args) (POST, ''/api/auth/register'') (run_entry test_env) test_world = (w', r) \<and>
    length us \<le> 1 \<and> u_db (w_users w') = us \<and> logDB (w_log w') = Some d \<and> length es \<le> 1 \<and> d = newest es"
proof -
  let ?q = "(POST, ''/api/auth/register'')"
  obtain w' r where run: "serve_list text_match (RunWeb test_args) ?q (run_entry test_env) test_world = (w', r)"
    by fastforce
  have tab: "gorm_reliable (users test_env) uID with_uID (list_inv uID)" "list_inv uID (u_db (w_users test_world))"
    and log: "gorm_reliable (logs test_env) lID with_lID (list_inv lID)" "logDB (w_log test_world) = Some []" "list_inv lID ([] :: LogEntry list)"
    and tok: "token_error test_env ?q = Some 400"
    using user_rows.gorm_reliable_axioms log_rows.gorm_reliable_axioms
    by (simp_all add: test_env_def test_world_def no_users_def list_inv_def)
  note g = token_guard [where serve = "serve_list text_match" and matches = "match_entry text_match" and E = test_env and w = test_world and
      ok = "list_inv uID" and okl = "list_inv lID", OF first_match.fiber_axioms tab log tok run]
  have env: "rows (users test_env) = (\<lambda>d. d)" "rows (logs test_env) = (\<lambda>d. d)" "u_db (w_users test_world) = []" "w_ws test_world = no_subscribers"
    by (simp_all add: test_env_def test_world_def no_users_def rows_log_table fun_eq_iff)
  obtain us where us: "length us \<le> 1" "u_db (w_users w') = us" using g unfolding env by auto
  obtain d es where es: "logDB (w_log w') = Some d" "length es \<le> 1" "d = newest es" using g unfolding env by (auto simp: newest_def split: if_splits)
  show ?thesis using run us es by blast
qed

section \<open>One route for a request\<close>

text \<open>
  The library's documented matching of a path with a route's: segment by segment, a segment that begins with a
  colon takes any segment that is not empty, letters match in either case.
\<close>

definition lower :: "string \<Rightarrow> string" where
  "lower s = map (\<lambda>c. let n = of_char c :: nat in if 65 \<le> n \<and> n \<le> 90 then char_of (n + 32) else c) s"

definition is_param :: "string \<Rightarrow> bool" where
  "is_param p \<longleftrightarrow> p \<noteq> [] \<and> hd p = CHR '':''"

fun segments_match :: "string list \<Rightarrow> string list \<Rightarrow> bool" where
  "segments_match [] [] = True"
| "segments_match (p # ps) (x # xs) \<longleftrightarrow> (if is_param p then x \<noteq> [] else lower p = lower x) \<and> segments_match ps xs"
| "segments_match _ _ = False"

definition path_match :: "string \<Rightarrow> string \<Rightarrow> bool" where
  "path_match p x = segments_match (split_on is_slash p) (split_on is_slash x)"

fun overlap :: "string list \<Rightarrow> string list \<Rightarrow> bool" where
  "overlap [] [] = True"
| "overlap (p # ps) (p' # ps') \<longleftrightarrow> (is_param p \<or> is_param p' \<or> p = p') \<and> overlap ps ps'"
| "overlap _ _ = False"

lemma segments_match_Nil: "segments_match [] xs \<longleftrightarrow> xs = []"
  by (cases xs) simp_all

lemma segments_match_Cons:
  "segments_match (p # ps) xs \<longleftrightarrow> (\<exists>y ys. xs = y # ys \<and> (if is_param p then y \<noteq> [] else lower p = lower y) \<and> segments_match ps ys)"
  by (cases xs) simp_all

text \<open>The literal segments of the routes are in lower case already.\<close>

definition plain :: "string list \<Rightarrow> bool" where
  "plain ps \<longleftrightarrow> list_all (\<lambda>p. is_param p \<or> lower p = p) ps"

lemma both_overlap:
  "segments_match ps xs \<Longrightarrow> segments_match ps' xs \<Longrightarrow> plain ps \<Longrightarrow> plain ps' \<Longrightarrow> overlap ps ps'"
proof (induction ps xs arbitrary: ps' rule: segments_match.induct)
  case (2 p ps x xs)
  from 2(3) obtain q qs where q: "ps' = q # qs" by (cases ps') simp_all
  have "overlap ps qs" using 2 by (simp add: q plain_def)
  moreover have "is_param p \<or> is_param q \<or> p = q" using 2(2-5) by (auto simp: q plain_def split: if_splits)
  ultimately show ?case by (simp add: q)
next
  case 1
  then show ?case by (cases ps') simp_all
qed simp_all

text \<open>The pairs of routes that could take the same request, with the segments of each route at hand.\<close>

fun split_route :: "entry \<Rightarrow> entry \<times> meth \<times> string list" where
  "split_route (Route m p h) = (Route m p h, m, split_on is_slash p)"
| "split_route (Use p l) = (Use p l, GET, [])"

definition clash :: "entry \<times> meth \<times> string list \<Rightarrow> entry \<times> meth \<times> string list \<Rightarrow> bool" where
  "clash a b \<longleftrightarrow> fst (snd a) = fst (snd b) \<and> overlap (snd (snd a)) (snd (snd b))"

fun clashes :: "(entry \<times> meth \<times> string list) list \<Rightarrow> (entry \<times> entry) list" where
  "clashes [] = []"
| "clashes (a # as) = map (\<lambda>b. (fst a, fst b)) (filter (clash a) as) @ clashes as"

lemma fst_split_route [simp]: "fst (split_route e) = e"
  by (cases e) simp_all

lemma in_clashes:
  assumes "e \<in> set es" and "f \<in> set es" and "clash (split_route e) (split_route f)" and "clash (split_route f) (split_route e)"
  shows "e = f \<or> (e, f) \<in> set (clashes (map split_route es)) \<or> (f, e) \<in> set (clashes (map split_route es))"
  using assms(1,2)
proof (induction es)
  case (Cons x es)
  have "(a, b) \<in> set (clashes (map split_route (a # es)))" if "b \<in> set es" "clash (split_route a) (split_route b)" for a b
    using that by (auto intro!: rev_image_eqI [of "split_route b"])
  then show ?case using Cons assms(3,4) by fastforce
qed simp

definition all_routes :: "entry list" where
  "all_routes = RegisterAuthRoutes ''/api'' @ Route GET ''/api/system/info'' GetSysInfo_H # api_routes"

lemma all_clashes:
  "clashes (map split_route all_routes) =
    [(Route GET ''/api/opc/group/:gid/tags'' GetGroupTags_H, Route GET ''/api/opc/group/start/:gid'' GetGroupStart_H),
     (Route GET ''/api/opc/group/:gid/tags'' GetGroupTags_H, Route GET ''/api/opc/group/stop/:gid'' GetGroupStop_H)]"
  by code_simp

text \<open>No character of the segments is between 64 and 95, where the capital letters are.\<close>

definition low_char :: "char \<Rightarrow> bool" where
  "low_char c \<longleftrightarrow> digit5 c \<or> \<not> digit6 c"

lemma lower_low: "list_all low_char s \<Longrightarrow> lower s = s"
proof (induction s)
  case (Cons c s)
  have "\<not> (65 \<le> (of_char c :: nat) \<and> (of_char c :: nat) \<le> 90)"
    using Cons.prems by (cases c) (auto simp: low_char_def of_char_Char of_bool_def split: if_splits)
  then show ?case using Cons by (auto simp: lower_def Let_def)
qed (simp add: lower_def)

lemma low_routes:
  "list_all (\<lambda>e. case e of Route m p h \<Rightarrow> list_all (list_all low_char) (split_on is_slash p) | Use p l \<Rightarrow> False) all_routes"
  by code_simp

lemma plain_low: "list_all (list_all low_char) ps \<Longrightarrow> plain ps"
  by (auto simp: plain_def list_all_iff lower_low)

lemma plain_route: "e \<in> set all_routes \<Longrightarrow> \<exists>m p h. e = Route m p h \<and> plain (split_on is_slash p)"
  using bspec [OF low_routes [unfolded list_all_iff [of _ all_routes]]] plain_low by (cases e) fastforce+

lemma segments_between:
  assumes "segments_match [a, b, c, d, e, p] xs" and "segments_match [a, b, c, d, p', g] xs"
    and "\<not> is_param a" "\<not> is_param b" "\<not> is_param c" "\<not> is_param d" "\<not> is_param p'" "\<not> is_param p"
  shows "map lower xs = map lower [a, b, c, d, p', p]"
proof -
  obtain x1 x2 x3 x4 x5 x6 where xs: "xs = [x1, x2, x3, x4, x5, x6]"
    using assms(1) unfolding segments_match_Cons segments_match_Nil by blast
  have "lower a = lower x1" "lower b = lower x2" "lower c = lower x3" "lower d = lower x4" "lower p = lower x6"
    using assms(1,3-6,8) unfolding xs by simp_all
  moreover have "lower p' = lower x5" using assms(2,7) unfolding xs by simp
  ultimately show ?thesis by (simp only: xs list.map)
qed

lemma route_segments:
  "split_on is_slash ''/api/opc/group/:gid/tags'' = [[], ''api'', ''opc'', ''group'', '':gid'', ''tags'']"
  "split_on is_slash ''/api/opc/group/start/:gid'' = [[], ''api'', ''opc'', ''group'', ''start'', '':gid'']"
  "split_on is_slash ''/api/opc/group/stop/:gid'' = [[], ''api'', ''opc'', ''group'', ''stop'', '':gid'']"
  by (simp_all add: is_slash_def)

lemma lower_words: "list_all (\<lambda>w. lower w = w) [[], ''api'', ''opc'', ''group'', ''start'', ''stop'', ''tags'']"
proof -
  have "list_all (list_all low_char) [[], ''api'', ''opc'', ''group'', ''start'', ''stop'', ''tags'']" by code_simp
  then show ?thesis unfolding list_all_iff [of "list_all low_char"] list_all_iff [of "\<lambda>w. lower w = w"] using lower_low by blast
qed

lemma unordered_pairs:
  "(e, f) \<in> set [(a, b), (a, c)] \<or> (f, e) \<in> set [(a, b), (a, c)] \<Longrightarrow> {e, f} = {a, b} \<or> {e, f} = {a, c}"
  by auto

text \<open>
  No request of the interface is taken by two routes, but for the paths \<^verbatim>\<open>/api/opc/group/start/tags\<close> and
  \<^verbatim>\<open>/api/opc/group/stop/tags\<close>, which are also those of the tags of a group called \<^verbatim>\<open>start\<close> or \<^verbatim>\<open>stop\<close>.
\<close>

lemma routes_unambiguous:
  assumes "\<forall>m p h. Route m p h \<in> set all_routes \<longrightarrow> matches (Route m p h) q = (verb q = m \<and> path_match p (url q))"
    and "e \<in> set all_routes" and "f \<in> set all_routes" and "matches e q" and "matches f q"
  shows "e = f \<or> (\<exists>x \<in> {''start'', ''stop''}. map lower (split_on is_slash (url q)) = [[], ''api'', ''opc'', ''group'', x, ''tags''] \<and>
    {e, f} = {Route GET ''/api/opc/group/:gid/tags'' GetGroupTags_H,
      Route GET (''/api/opc/group/'' @ x @ ''/:gid'') (if x = ''start'' then GetGroupStart_H else GetGroupStop_H)})"
proof (cases "e = f")
  case False
  let ?tags = "Route GET ''/api/opc/group/:gid/tags'' GetGroupTags_H"
    and ?start = "Route GET ''/api/opc/group/start/:gid'' GetGroupStart_H"
    and ?stop = "Route GET ''/api/opc/group/stop/:gid'' GetGroupStop_H"
  obtain m p h m' p' h' where r: "e = Route m p h" "f = Route m' p' h'"
      and pl: "plain (split_on is_slash p)" "plain (split_on is_slash p')"
    using plain_route [OF assms(2)] plain_route [OF assms(3)] by blast
  have m: "m = m'" "segments_match (split_on is_slash p) (split_on is_slash (url q))"
      "segments_match (split_on is_slash p') (split_on is_slash (url q))"
    using assms(1) [rule_format, of m p h] assms(1) [rule_format, of m' p' h'] assms(2-5) unfolding r by (simp_all add: path_match_def)
  have "clash (split_route e) (split_route f)" "clash (split_route f) (split_route e)"
    using both_overlap [OF m(2,3) pl] both_overlap [OF m(3,2) pl(2,1)] m(1) by (simp_all add: r clash_def)
  then have "(e, f) \<in> set (clashes (map split_route all_routes)) \<or> (f, e) \<in> set (clashes (map split_route all_routes))"
    using in_clashes [OF assms(2,3)] False by blast
  then have pair: "{e, f} = {?tags, ?start} \<or> {e, f} = {?tags, ?stop}"
    unfolding all_clashes by (rule unordered_pairs)
  have url: "map lower (split_on is_slash (url q)) = [[], ''api'', ''opc'', ''group'', x, ''tags'']"
    if "x \<in> {''start'', ''stop''}" and "matches ?tags q" "matches (Route GET (''/api/opc/group/'' @ x @ ''/:gid'') h) q"
      and inr: "Route GET (''/api/opc/group/'' @ x @ ''/:gid'') h \<in> set all_routes" "?tags \<in> set all_routes" for x h
  proof -
    have "split_on is_slash (''/api/opc/group/'' @ x @ ''/:gid'') = [[], ''api'', ''opc'', ''group'', x, '':gid'']"
      using that(1) by (elim insertE emptyE) (simp_all add: is_slash_def)
    then have "segments_match [[], ''api'', ''opc'', ''group'', x, '':gid''] (split_on is_slash (url q))"
      using that(3) by (simp only: assms(1) [rule_format, OF inr(1)] path_match_def)
    moreover have "segments_match [[], ''api'', ''opc'', ''group'', '':gid'', ''tags''] (split_on is_slash (url q))"
      using that(2) by (simp only: assms(1) [rule_format, OF inr(2)] path_match_def route_segments(1))
    moreover have "\<not> is_param x" using that(1) by (auto simp: is_param_def)
    ultimately have "map lower (split_on is_slash (url q)) = map lower [[], ''api'', ''opc'', ''group'', x, ''tags'']"
      by (intro segments_between) (simp_all add: is_param_def)
    also have "\<dots> = [[], ''api'', ''opc'', ''group'', x, ''tags'']" using that(1) lower_words by (simp only: list.pred_inject list.map) blast
    finally show ?thesis .
  qed
  have both: "matches a q" "a \<in> set all_routes" if "a \<in> {e, f}" for a using that assms(2-5) by auto
  from pair show ?thesis
  proof (elim disjE)
    assume s: "{e, f} = {?tags, ?start}"
    have "matches ?tags q" "matches ?start q" "?tags \<in> set all_routes" "?start \<in> set all_routes" using both unfolding s by simp_all
    then show ?thesis using url [of "''start''" GetGroupStart_H] s by (intro disjI2 bexI [of _ "''start''"]) simp_all
  next
    assume s: "{e, f} = {?tags, ?stop}"
    have "matches ?tags q" "matches ?stop q" "?tags \<in> set all_routes" "?stop \<in> set all_routes" using both unfolding s by simp_all
    then show ?thesis using url [of "''stop''" GetGroupStop_H] s by (intro disjI2 bexI [of _ "''stop''"]) simp_all
  qed
qed simp

fun doc_match :: "entry \<Rightarrow> meth \<times> string \<Rightarrow> bool" where
  "doc_match (Route m p h) q \<longleftrightarrow> fst q = m \<and> path_match p (snd q)"
| "doc_match (Use p l) q \<longleftrightarrow> True"

text \<open>The routes of the interface are those of the stack, in its order.\<close>

lemma table_of_stack: "filter (\<lambda>e. e \<in> set all_routes) (RunWeb args) = all_routes"
proof -
  have pages: "\<forall>e \<in> set all_routes. case e of Route m p h \<Rightarrow> h \<noteq> UiPage_H \<and> h \<noteq> Socket_H | Use p l \<Rightarrow> False"
    by (simp add: all_routes_def api_routes_def RegisterAuthRoutes_def RegisterUserRoutes_def RegisterDataRoutes_def
        RegisterOPCRoutes_def RegisterSystemRoutes_def RegisterFileTransferRoutes_def)
  have out: "Use p l \<notin> set all_routes" "Route m p UiPage_H \<notin> set all_routes" "Route m p Socket_H \<notin> set all_routes" for m p l
    using pages by (auto dest!: bspec)
  have parts: "RunWeb args = (if Trace args then [Use [] RequestLog] else []) @
     [Use ''/'' StaticFiles, Route GET ''/ui/*'' UiPage_H, Use ''/static'' StaticFiles, Route GET ''/ws'' Socket_H] @
     (RegisterAuthRoutes ''/api'' @ [Route GET ''/api/system/info'' GetSysInfo_H]) @ Use [] TokenCheck # api_routes"
    by (simp add: stack_split before_check_def)
  have "filter (\<lambda>e. e \<in> set all_routes) (RegisterAuthRoutes ''/api'' @ [Route GET ''/api/system/info'' GetSysInfo_H])
      = RegisterAuthRoutes ''/api'' @ [Route GET ''/api/system/info'' GetSysInfo_H]"
    and "filter (\<lambda>e. e \<in> set all_routes) api_routes = api_routes"
    by (rule filter_True; auto simp: all_routes_def)+
  then show ?thesis unfolding parts filter_append filter.simps by (simp add: out) (simp add: all_routes_def)
qed

text \<open>
  C8. With a valid token the interface is its table of routes: for a request that is not for a page, a
  websocket or a static file, the stack, its token check and its layers included, does what serving the routes
  alone does, in whatever order they are registered. Only for \<^verbatim>\<open>/api/opc/group/start/tags\<close> and
  \<^verbatim>\<open>/api/opc/group/stop/tags\<close>, each of which two routes take, does the order matter.
\<close>

theorem stack_is_table:
  assumes "fiber serve matches" and "\<And>m p h. Route m p h \<in> set all_routes \<Longrightarrow> matches (Route m p h) q \<longleftrightarrow> verb q = m \<and> path_match p (url q)"
    and "token_error E q = None" and "\<And>p. static_file E p q = False"
    and "\<not> matches (Route GET ''/ui/*'' UiPage_H) q" and "\<not> matches (Route GET ''/ws'' Socket_H) q"
    and "\<forall>x \<in> {''start'', ''stop''}. map lower (split_on is_slash (url q)) \<noteq> [[], ''api'', ''opc'', ''group'', x, ''tags'']"
    and "mset table = mset all_routes"
  shows "serve (RunWeb args) q (run_entry E) w = serve table q (run_entry E) w"
proof -
  let ?P = "\<lambda>e. e \<in> set all_routes"
  have doc: "\<forall>m p h. Route m p h \<in> set all_routes \<longrightarrow> matches (Route m p h) q = (verb q = m \<and> path_match p (url q))"
    by (intro allI impI) (rule assms(2))
  have "serve (RunWeb args) q (run_entry E) w = serve (filter ?P (RunWeb args)) q (run_entry E) w"
  proof (rule fiber.serve_filter [OF assms(1)])
    fix e v assume "e \<in> set (RunWeb args)" "\<not> ?P e" "matches e q"
    then have "\<exists>p l. e = Use p l" using assms(5,6) by (auto simp: stack_split before_check_def all_routes_def split: if_splits)
    then obtain p l where "e = Use p l" by blast
    then show "run_entry E q e v = (v, None)" using assms(3,4) by (cases l) simp_all
  qed
  also have "filter ?P (RunWeb args) = all_routes" by (rule table_of_stack)
  also have "serve all_routes q (run_entry E) w = serve table q (run_entry E) w"
  proof (rule fiber.serve_permuted [OF assms(1) assms(8) [symmetric]])
    fix e f assume e: "e \<in> set all_routes" "f \<in> set all_routes" "matches e q" "matches f q"
    from routes_unambiguous [where matches = matches and q = q and verb = verb and url = url, OF doc e] show "e = f"
    proof (elim disjE bexE conjE)
      fix x assume x: "x \<in> {''start'', ''stop''}" "map lower (split_on is_slash (url q)) = [[], ''api'', ''opc'', ''group'', x, ''tags'']"
      from bspec [OF assms(7) x(1)] x(2) show ?thesis by (rule notE)
    qed
  qed
  finally show ?thesis .
qed

definition open_env :: "(meth \<times> string, User list, unit, LogEntry list, unit, unit) web_env" where
  "open_env = test_env\<lparr>token_error := \<lambda>_. None\<rparr>"

lemma other_paths: "\<not> path_match ''/ui/*'' ''/api/user''" "\<not> path_match ''/ws'' ''/api/user''"
  by code_simp+

lemma stack_is_table_witness:
  "serve_list doc_match (RunWeb test_args) (GET, ''/api/user'') (run_entry open_env) test_world =
   serve_list doc_match (rev all_routes) (GET, ''/api/user'') (run_entry open_env) test_world"
proof -
  have url: "split_on is_slash ''/api/user'' = [[], ''api'', ''user'']"
    by (simp add: is_slash_def)
  have short: "\<forall>x \<in> {''start'', ''stop''}. map lower (split_on is_slash ''/api/user'') \<noteq> [[], ''api'', ''opc'', ''group'', x, ''tags'']"
    unfolding url by (auto dest!: arg_cong [where f = length])
  have page: "\<not> match_entry doc_match (Route GET ''/ui/*'' UiPage_H) (GET, ''/api/user'')"
      "\<not> match_entry doc_match (Route GET ''/ws'' Socket_H) (GET, ''/api/user'')"
    by (simp_all add: other_paths)
  have doc: "match_entry doc_match (Route m p h) (GET, ''/api/user'') \<longleftrightarrow> fst (GET, ''/api/user'') = m \<and> path_match p (snd (GET, ''/api/user''))" for m p h
    by simp
  have env: "token_error open_env (GET, ''/api/user'') = None" "static_file open_env p (GET, ''/api/user'') = False" for p
    by (simp_all add: open_env_def test_env_def)
  show ?thesis
    by (rule stack_is_table [where verb = fst and url = snd, OF first_match.fiber_axioms doc env(1) env(2) page _ mset_rev])
      (use short in simp)
qed

end
