(* ===== verification/Service.thy ===== *)
theory Service imports CacheText begin

text \<open>
  The process as a Windows service and its entry (\<^verbatim>\<open>service_win.go\<close>, \<^verbatim>\<open>main.go\<close>): the control loop that
  answers the service manager's requests, what \<^verbatim>\<open>main\<close> does for its flags, and the order in which the
  engine is started. The service manager, the results of installing and removing the service, and printing
  a request are parameters; the command line is in \<^theory_text>\<open>Start\<close>.
\<close>

section \<open>The control loop\<close>

datatype svc_state = StartPending | Running | Paused | StopPending

text \<open>A status: the state, and whether it accepts stop, shutdown, pause and continue.\<close>

record svc_status =
  svcState :: svc_state
  svcAccepts :: bool

datatype svc_cmd = Interrogate | StopCmd | ShutdownCmd | PauseCmd | ContinueCmd | OtherCmd nat

record ChangeRequest =
  rqCmd :: svc_cmd
  CurrentStatus :: svc_status
  rqContext :: nat

datatype ticker = FastTick | SlowTick

record svc_run =
  changes :: "svc_status list"
  tick :: ticker
  svc_events :: "event list"

text \<open>\<^verbatim>\<open>reportInfo\<close> and \<^verbatim>\<open>reportError\<close> hand the formatted message on as a format.\<close>

definition reportInfo :: "string \<Rightarrow> fmt_arg list \<Rightarrow> svc_run \<Rightarrow> svc_run" where
  "reportInfo f args s = s\<lparr>svc_events := svc_events s @ trace_events ''Windows service info'' (Sprintf (Sprintf f args) [])\<rparr>"

definition reportError :: "string \<Rightarrow> svc_run \<Rightarrow> svc_run" where
  "reportError msg s = s\<lparr>svc_events := svc_events s @ error_events ''Windows service error'' (Sprintf msg [])\<rparr>"

definition send_status :: "svc_status \<Rightarrow> svc_run \<Rightarrow> svc_run" where
  "send_status st s = s\<lparr>changes := changes s @ [st]\<rparr>"

fun join_minus :: "string list \<Rightarrow> string" where
  "join_minus [] = []"
| "join_minus [x] = x"
| "join_minus (x # y # xs) = x @ ''-'' @ join_minus (y # xs)"

text \<open>\<open>pr\<close> prints a request with \<^verbatim>\<open>%d\<close>. The result tells whether the loop is left.\<close>

definition handle_request :: "(ChangeRequest \<Rightarrow> string) \<Rightarrow> string list \<Rightarrow> ChangeRequest \<Rightarrow> svc_run \<Rightarrow> svc_run \<times> bool" where
  "handle_request pr args c s = (case rqCmd c of
       Interrogate \<Rightarrow> (send_status (CurrentStatus c) (send_status (CurrentStatus c) s), False)
     | StopCmd \<Rightarrow> (reportInfo (join_minus args @ Sprintf ''-%d'' [AInt (int (rqContext c))]) [] s, True)
     | ShutdownCmd \<Rightarrow> (reportInfo (join_minus args @ Sprintf ''-%d'' [AInt (int (rqContext c))]) [] s, True)
     | PauseCmd \<Rightarrow> ((send_status \<lparr>svcState = Paused, svcAccepts = True\<rparr> s)\<lparr>tick := SlowTick\<rparr>, False)
     | ContinueCmd \<Rightarrow> ((send_status \<lparr>svcState = Running, svcAccepts = True\<rparr> s)\<lparr>tick := FastTick\<rparr>, False)
     | OtherCmd n \<Rightarrow> (reportError (''unexpected control request #'' @ pr c) s, False))"

text \<open>The loop over the requests that come; ticks do nothing. \<open>False\<close>: it still waits for the next one.\<close>

fun control_loop :: "(ChangeRequest \<Rightarrow> string) \<Rightarrow> string list \<Rightarrow> ChangeRequest list \<Rightarrow> svc_run \<Rightarrow> svc_run \<times> bool" where
  "control_loop pr args [] s = (s, False)"
| "control_loop pr args (c # cs) s =
     (case handle_request pr args c s of (s', True) \<Rightarrow> (s', True) | (s', False) \<Rightarrow> control_loop pr args cs s')"

text \<open>\<^verbatim>\<open>go runEngine()\<close> stands between the two reports.\<close>

definition Execute :: "(ChangeRequest \<Rightarrow> string) \<Rightarrow> string list \<Rightarrow> ChangeRequest list \<Rightarrow> svc_run \<times> bool" where
  "Execute pr args r =
     (let s0 = \<lparr>changes = [\<lparr>svcState = StartPending, svcAccepts = False\<rparr>, \<lparr>svcState = Running, svcAccepts = True\<rparr>],
               tick = FastTick, svc_events = []\<rparr>;
          s1 = reportInfo ''starting engine'' [] s0;
          s2 = reportInfo ''entering service control loop'' [] s1;
          (s3, left) = control_loop pr args r s2
      in (if left then send_status \<lparr>svcState = StopPending, svcAccepts = False\<rparr> s3 else s3, left))"

text \<open>\<open>run\<close> is \<^verbatim>\<open>svc.Run\<close> or, by hand, \<^verbatim>\<open>debug.Run\<close>: it calls \<open>Execute\<close> and comes back when that has, or with an error.\<close>

definition runService :: "(bool \<Rightarrow> svc_run \<Rightarrow> svc_run \<times> string option) \<Rightarrow> string \<Rightarrow> bool \<Rightarrow> svc_run \<Rightarrow> svc_run" where
  "runService run name isDebug s =
     (case run isDebug (reportInfo ''starting %s service'' [AStr name] s) of
        (s', Some err) \<Rightarrow> reportError (Sprintf ''%s service failed: %v'' [AStr name, AStr err]) s'
      | (s', None) \<Rightarrow> reportInfo ''%s service stopped'' [AStr name] s')"

section \<open>The entry\<close>

text \<open>The stages of \<^verbatim>\<open>runEngine\<close>, in order.\<close>

datatype stage = ConnectDatabaseStage | InitGroupsStage | InitServersStage | InitCacheStage | InitFileTransferStage | RunWebStage

definition runEngine :: "stage list" where
  "runEngine = [ConnectDatabaseStage, InitGroupsStage, InitServersStage, InitCacheStage, InitFileTransferStage, RunWebStage]"

datatype action = PrintVersion string | InstallService | RemoveService | OpcDebug | RunService bool | CloseCacheAction

text \<open>
  \<open>inst\<close> and \<open>rem\<close> give the error of installing and removing; \<open>svc\<close> whether the process runs as a service, or
  the error of asking. What \<^verbatim>\<open>main\<close> does, and how it ends. \<^verbatim>\<open>runService\<close> comes back when the service
  has stopped.
\<close>

definition main :: "string option \<Rightarrow> string option \<Rightarrow> string + bool \<Rightarrow> string \<Rightarrow> string \<Rightarrow> Context \<Rightarrow> action list \<times> unit outcome" where
  "main inst rem svc gitversion gitcommit ctx =
     (let name = ''dd-opcda'' in
      if ShowVersion ctx
      then ([PrintVersion (Sprintf (''dd-opcda version %s, commit: %s'' @ [CHR 0x0A]) [AStr gitversion, AStr gitcommit])], Ret ())
      else if Cmd ctx = ''install''
      then ([InstallService], case inst of Some e \<Rightarrow> Fatal (Sprintf ''failed to %s %s: %v'' [AStr (Cmd ctx), AStr name, AStr e]) | None \<Rightarrow> Ret ())
      else if Cmd ctx = ''remove''
      then ([RemoveService], case rem of Some e \<Rightarrow> Fatal (Sprintf ''failed to %s %s: %v'' [AStr (Cmd ctx), AStr name, AStr e]) | None \<Rightarrow> Ret ())
      else let as = (if TraceOpc ctx then [OpcDebug] else []) in
        case svc of
          Inl e \<Rightarrow> (as, Fatal (Sprintf ''failed to determine if we are running in service: %v'' [AStr e]))
        | Inr True \<Rightarrow> (as @ [RunService False], Ret ())
        | Inr False \<Rightarrow> (as @ [RunService True, CloseCacheAction], Ret ()))"

text \<open>What the actions of \<^verbatim>\<open>main\<close> do to the cache, when the messages \<open>ms\<close> come while the service runs.\<close>

fun cache_run :: "coder \<Rightarrow> ('m \<Rightarrow> string) \<Rightarrow> path \<Rightarrow> (gotime \<times> gotime \<times> 'm) list \<Rightarrow> action list \<Rightarrow> cache_state \<Rightarrow> cache_state" where
  "cache_run gz json cwd ms [] s = s"
| "cache_run gz json cwd ms (RunService d # as) s = cache_run gz json cwd ms as (processMessages gz json cwd ms s)"
| "cache_run gz json cwd ms (CloseCacheAction # as) s = cache_run gz json cwd ms as (CloseCache gz s)"
| "cache_run gz json cwd ms (_ # as) s = cache_run gz json cwd ms as s"

section \<open>The service as an automaton\<close>

text \<open>
  The contract with the service manager: a running service is paused and continued by these requests
  and stopped by the other two, for good; nothing else changes its state.
\<close>

inductive svc_step :: "svc_state \<Rightarrow> svc_cmd \<Rightarrow> svc_state \<Rightarrow> bool" where
  stop: "st \<in> {Running, Paused} \<Longrightarrow> cmd \<in> {StopCmd, ShutdownCmd} \<Longrightarrow> svc_step st cmd StopPending"
| pause: "st \<in> {Running, Paused} \<Longrightarrow> svc_step st PauseCmd Paused"
| continue: "st \<in> {Running, Paused} \<Longrightarrow> svc_step st ContinueCmd Running"
| stay: "st = StopPending \<or> cmd = Interrogate \<or> (\<exists>n. cmd = OtherCmd n) \<Longrightarrow> svc_step st cmd st"

inductive_cases svc_stepE: "svc_step st cmd st'"
inductive_simps svc_step_simps [simp]:
  "svc_step st Interrogate st'" "svc_step st StopCmd st'" "svc_step st ShutdownCmd st'" "svc_step st PauseCmd st'"
  "svc_step st ContinueCmd st'" "svc_step st (OtherCmd n) st'"

inductive svc_steps :: "svc_state \<Rightarrow> svc_cmd list \<Rightarrow> svc_state \<Rightarrow> bool" where
  none: "svc_steps st [] st"
| one: "svc_step st cmd st' \<Longrightarrow> svc_steps st' cmds st'' \<Longrightarrow> svc_steps st (cmd # cmds) st''"

inductive_simps svc_steps_simps [simp]: "svc_steps st [] st'" "svc_steps st (cmd # cmds) st'"

lemma svc_step_unique: "svc_step st cmd st' \<Longrightarrow> svc_step st cmd st'' \<Longrightarrow> st \<noteq> StartPending \<Longrightarrow> st' = st''"
  by (cases cmd; cases st) auto

lemma steps_stopped [simp]: "svc_steps StopPending cmds st \<longleftrightarrow> st = StopPending"
proof
  have "st' = StopPending" if "svc_step StopPending cmd st'" for cmd st' using that by (cases cmd) auto
  moreover have "svc_step StopPending cmd StopPending" for cmd by (rule svc_step.stay) simp
  ultimately show "svc_steps StopPending cmds st \<Longrightarrow> st = StopPending" and "st = StopPending \<Longrightarrow> svc_steps StopPending cmds st"
    by (induction cmds) auto
qed

fun svc_next :: "svc_state \<Rightarrow> svc_cmd \<Rightarrow> svc_state" where
  "svc_next StopPending cmd = StopPending"
| "svc_next st StopCmd = StopPending"
| "svc_next st ShutdownCmd = StopPending"
| "svc_next st PauseCmd = Paused"
| "svc_next st ContinueCmd = Running"
| "svc_next st cmd = st"

lemma svc_step_next: "st \<noteq> StartPending \<Longrightarrow> svc_step st cmd st' \<longleftrightarrow> st' = svc_next st cmd"
  by (cases st; cases cmd) auto

text \<open>The manager knows the service's state: the status an \<open>Interrogate\<close> carries is the current one.\<close>

fun consistent :: "svc_state \<Rightarrow> ChangeRequest list \<Rightarrow> bool" where
  "consistent st [] = True"
| "consistent st (c # cs) =
     ((rqCmd c = Interrogate \<longrightarrow> svcState (CurrentStatus c) = st) \<and> consistent (svc_next st (rqCmd c)) cs)"

abbreviation last_state :: "svc_run \<Rightarrow> svc_state" where
  "last_state s \<equiv> svcState (last (changes s))"

lemma report_simps [simp]:
  "changes (reportInfo f as s) = changes s" "changes (reportError m s) = changes s"
  "tick (reportInfo f as s) = tick s" "tick (reportError m s) = tick s"
  "changes (send_status st s) = changes s @ [st]" "tick (send_status st s) = tick s"
  by (simp_all add: reportInfo_def reportError_def send_status_def)

lemma control_loop_steps:
  assumes "st \<in> {Running, Paused}" and "last_state s = st" and "tick s = (if st = Paused then SlowTick else FastTick)"
    and "consistent st r" and "control_loop pr args r s = (s', left)"
  shows "svc_steps st (map rqCmd r) (if left then StopPending else last_state s') \<and> last_state s' \<in> {Running, Paused} \<and>
    tick s' = (if last_state s' = Paused then SlowTick else FastTick) \<and>
    (left \<longleftrightarrow> (\<exists>c \<in> set r. rqCmd c \<in> {StopCmd, ShutdownCmd}))"
  using assms
proof (induction r arbitrary: s st)
  case (Cons c cs)
  show ?case
  proof (cases "rqCmd c \<in> {StopCmd, ShutdownCmd}")
    case True
    then show ?thesis using Cons.prems by (auto simp: handle_request_def)
  next
    case False
    let ?s = "fst (handle_request pr args c s)" and ?st = "svc_next st (rqCmd c)"
    have run: "control_loop pr args cs ?s = (s', left)" and step: "svc_step st (rqCmd c) ?st"
      using Cons.prems False by (auto simp: handle_request_def svc_step_next split: svc_cmd.splits)
    have "?st \<in> {Running, Paused}" "last_state ?s = ?st" "tick ?s = (if ?st = Paused then SlowTick else FastTick)"
      using Cons.prems False by (auto simp: handle_request_def split: svc_cmd.splits)
    note IH = Cons.IH [OF this _ run]
    have ok: "consistent ?st cs" using Cons.prems(4) by simp
    have "svc_steps st (rqCmd c # map rqCmd cs) (if left then StopPending else last_state s')"
      using svc_steps.one [OF step] IH [OF ok] by blast
    then show ?thesis using IH [OF ok] False by simp
  qed
qed auto

section \<open>Properties\<close>

text \<open>
  C9. Execute implements the service automaton: with a manager that knows the service's state, whatever
  requests come, the last status sent is the state the automaton is in after them; the loop is
  left, and the service reports that it stops, exactly when one of them was a stop or a shutdown.
\<close>

theorem service_refines:
  assumes "consistent Running r" and "Execute pr args r = (s', left)"
  shows "svc_steps Running (map rqCmd r) (last_state s') \<and> (left \<longleftrightarrow> (\<exists>c \<in> set r. rqCmd c \<in> {StopCmd, ShutdownCmd})) \<and>
    (left \<longleftrightarrow> last_state s' = StopPending) \<and> map svcState (take 2 (changes s')) = [StartPending, Running]"
proof -
  define s2 where "s2 = reportInfo ''entering service control loop'' [] (reportInfo ''starting engine'' []
    \<lparr>changes = [\<lparr>svcState = StartPending, svcAccepts = False\<rparr>, \<lparr>svcState = Running, svcAccepts = True\<rparr>], tick = FastTick, svc_events = []\<rparr>)"
  obtain s3 where s3: "control_loop pr args r s2 = (s3, left)"
      "s' = (if left then send_status \<lparr>svcState = StopPending, svcAccepts = False\<rparr> s3 else s3)"
    using assms(2) by (auto simp: Execute_def Let_def s2_def split: prod.splits)
  have grow: "\<exists>cs. changes (fst (control_loop pr args r s)) = changes s @ cs" for s
  proof (induction r arbitrary: s)
    case (Cons c r)
    have "\<exists>cs. changes (fst (handle_request pr args c s)) = changes s @ cs"
      by (auto simp: handle_request_def split: svc_cmd.splits)
    then show ?case using Cons.IH [of "fst (handle_request pr args c s)"]
      by (auto split: prod.splits bool.splits)
  qed simp
  have "changes s2 = [\<lparr>svcState = StartPending, svcAccepts = False\<rparr>, \<lparr>svcState = Running, svcAccepts = True\<rparr>]" by (simp add: s2_def)
  then have two: "map svcState (take 2 (changes s')) = [StartPending, Running]"
    using grow [of s2] s3 by (auto simp: numeral_2_eq_2)
  have start: "Running \<in> {Running, Paused}" "last_state s2 = Running" "tick s2 = (if Running = Paused then SlowTick else FastTick)"
    by (simp_all add: s2_def)
  note stays = control_loop_steps [OF start assms(1) s3(1)]
  show ?thesis
  proof (cases left)
    case True
    then have "last_state s' = StopPending" using s3(2) by simp
    moreover from stays True have "svc_steps Running (map rqCmd r) StopPending" by simp
    moreover have "left = (\<exists>c \<in> set r. rqCmd c \<in> {StopCmd, ShutdownCmd})" using stays by blast
    ultimately show ?thesis using two True by metis
  next
    case False
    then have "s' = s3" using s3(2) by simp
    moreover from stays False have "svc_steps Running (map rqCmd r) (last_state s3)" "last_state s3 \<noteq> StopPending" by auto
    moreover have "left = (\<exists>c \<in> set r. rqCmd c \<in> {StopCmd, ShutdownCmd})" using stays by blast
    ultimately show ?thesis using two False by metis
  qed
qed

definition req :: "svc_cmd \<Rightarrow> svc_state \<Rightarrow> ChangeRequest" where
  "req cmd st = \<lparr>rqCmd = cmd, CurrentStatus = \<lparr>svcState = st, svcAccepts = True\<rparr>, rqContext = 0\<rparr>"

lemma service_refines_witness:
  "last_state (fst (Execute (\<lambda>_. []) [''a''] [req PauseCmd Running, req Interrogate Paused, req StopCmd Paused, req ContinueCmd Paused])) = StopPending"
proof -
  let ?r = "[req PauseCmd Running, req Interrogate Paused, req StopCmd Paused, req ContinueCmd Paused]"
  have "consistent Running ?r" by (simp add: req_def)
  then show ?thesis
    using service_refines [of ?r "\<lambda>_. []" "[''a'']" "fst (Execute (\<lambda>_. []) [''a''] ?r)" "snd (Execute (\<lambda>_. []) [''a''] ?r)"]
    by (auto simp: req_def)
qed

text \<open>The writes that messages add.\<close>

fun added :: "('m \<Rightarrow> string) \<Rightarrow> bool \<Rightarrow> 'm list \<Rightarrow> bytes list" where
  "added json first [] = []"
| "added json first (m # ms) = bytes_of (if first then ''['' else '','') # bytes_of (json m) # added json False ms"

lemma buffered:
  assumes "fw s = Writer (Some p) ws" and "fs_get (c_fs s) p = Some (File c)" and "\<forall>x \<in> set ms. Minute (fst x) mod 5 \<noteq> 0"
  shows "fw (processMessages gz json cwd ms s) = Writer (Some p) (ws @ added json (firstWrite s) (map (snd \<circ> snd) ms)) \<and>
    fs_get (c_fs (processMessages gz json cwd ms s)) p = Some (File (c @ gz_out gz ws (added json (firstWrite s) (map (snd \<circ> snd) ms))))"
  using assms
proof (induction ms arbitrary: s ws c)
  case (Cons x ms)
  obtain now now' m where x: "x = (now, now', m)" by (cases x)
  let ?s = "processMessage gz json cwd now now' m s" and ?b = "bytes_of (if firstWrite s then ''['' else '','')"
  have "fw ?s = Writer (Some p) (ws @ [?b, bytes_of (json m)])" "\<not> firstWrite ?s"
      "fs_get (c_fs ?s) p = Some (File (c @ gz_out gz ws [?b, bytes_of (json m)]))"
    using Cons.prems x by (simp_all add: processMessage_def Let_def fw_Write_def to_file_def Append_def)
  with Cons.IH [OF this(1,3)] Cons.prems(3) x show ?case by simp
qed simp

text \<open>
  Only a process run by hand closes the cache when it stops: then the file has been given the whole gzip
  stream of the writes since it was opened, with the closing bracket. A service ends without closing it: the
  file holds only what had come out of the writers by then, the closing bracket is never written, and what
  the writers still hold is lost.
\<close>

theorem service_loses_cache:
  assumes "fw s = Writer (Some p) []" and "firstWrite s" and "fs_get (c_fs s) p = Some (File c0)"
    and "\<forall>x \<in> set ms. Minute (fst x) mod 5 \<noteq> 0"
    and "\<not> ShowVersion ctx" and "Cmd ctx = ''debug''" and "main inst rm (Inr service) v k ctx = (as, r)"
    and "s' = cache_run gz json cwd ms as s" and "ws = added json True (map (snd \<circ> snd) ms)"
  shows "r = Ret () \<and> fs_get (c_fs s') p = Some (File (c0 @
      (if service then gz_out gz [] ws else gz_all gz (ws @ [bytes_of '']'']))))"
  using buffered [OF assms(1,3,4), of gz json cwd] assms(2,5-)
  by (cases service)
    (auto simp: main_def Let_def CloseCache_def fw_Close_def fw_Write_def to_file_def Append_def gz_all_def gz_out_append)

lemma service_loses_cache_witness:
  "fs_get (c_fs (cache_run late_coder id [] [(GoTime 2024 2 29 12 1 0 0, leap_day, ''1'')] (fst (main None None (Inr True) '''' ''''
      \<lparr>Cmd = ''debug'', Wdir = ''.'', Trace = False, TraceOpc = False, ShowVersion = False\<rparr>))
      (empty_cache\<lparr>c_fs := [([''f''], File [])], fw := Writer (Some [''f'']) [], firstWrite := True\<rparr>))) [''f''] = Some (File [])"
proof -
  let ?ctx = "\<lparr>Cmd = ''debug'', Wdir = ''.'', Trace = False, TraceOpc = False, ShowVersion = False\<rparr>"
  let ?s = "empty_cache\<lparr>c_fs := [([''f''], File [])], fw := Writer (Some [''f'']) [], firstWrite := True\<rparr>"
  let ?ms = "[(GoTime 2024 2 29 12 1 0 0, leap_day, ''1'')]"
  have m: "main None None (Inr True) '''' '''' ?ctx = ([RunService False], Ret ())" by (simp add: main_def)
  have "fw ?s = Writer (Some [''f'']) []" "firstWrite ?s" "fs_get (c_fs ?s) [''f''] = Some (File [])"
      "\<forall>x \<in> set ?ms. Minute (fst x) mod 5 \<noteq> 0" "\<not> ShowVersion ?ctx" "Cmd ?ctx = ''debug''"
    by (simp_all add: fs_get_def)
  from service_loses_cache [OF this m refl refl, of late_coder id "[]"] show ?thesis by (simp add: m) (simp add: late_coder_def)
qed

end
