(* ===== verification/Install.thy ===== *)
theory Install imports GoPath GoFmt begin

text \<open>
  Installing and removing the Windows service (\<^verbatim>\<open>install.go\<close>). The service manager and the event log are a
  parameter that answers calls; the calls made are recorded. \<open>service_manager\<close> states the documented
  behaviour of the calls. The properties: no handle is left open or used after it was closed, whatever the
  answers; installing is all or nothing, removing is not.
\<close>

section \<open>Calls\<close>

text \<open>\<open>CloseService\<close> and \<open>DeleteService\<close> go to the handle that is open, of the service named.\<close>

datatype scm_call =
    Connect | Disconnect
  | OpenService string
  | CreateService string string string "string list"
  | CloseService string
  | DeleteService string
  | InstallEvents string
  | RemoveEvents string

text \<open>An answer is the new state of the machine, and the text of the error if there is one.\<close>

type_synonym 'm scm = "scm_call \<Rightarrow> 'm \<Rightarrow> 'm \<times> string option"
type_synonym 'm scm_run = "'m \<times> (scm_call \<times> bool) list"

definition do_call :: "'m scm \<Rightarrow> scm_call \<Rightarrow> 'm scm_run \<Rightarrow> 'm scm_run \<times> string option" where
  "do_call ask c s = (case ask c (fst s) of (m, e) \<Rightarrow> ((m, snd s @ [(c, e = None)]), e))"

text \<open>The errors of closing, of disconnecting and of the rollback are not looked at.\<close>

definition just :: "'m scm \<Rightarrow> scm_call \<Rightarrow> 'm scm_run \<Rightarrow> 'm scm_run" where
  "just ask c s = fst (do_call ask c s)"

section \<open>The path of the program\<close>

text \<open>\<^verbatim>\<open>filepath.Ext\<close>, and \<^verbatim>\<open>filepath.Dir\<close> for paths that begin with a drive or with none.\<close>

definition filepath_Ext :: "string \<Rightarrow> string" where
  "filepath_Ext p =
     (let r = rev p; e = takeWhile (\<lambda>c. c \<noteq> CHR ''.'' \<and> \<not> is_sep c) r; rest = dropWhile (\<lambda>c. c \<noteq> CHR ''.'' \<and> \<not> is_sep c) r
      in if rest \<noteq> [] \<and> hd rest = CHR ''.'' then CHR ''.'' # rev e else [])"

definition to_backslashes :: "string \<Rightarrow> string" where
  "to_backslashes p = map (\<lambda>c. if is_slash c then CHR 0x5C else c) p"

definition volume :: "string \<Rightarrow> string" where
  "volume p = (if length p \<ge> 2 \<and> p ! 1 = CHR '':'' then take 2 p else [])"

definition filepath_Dir :: "string \<Rightarrow> string" where
  "filepath_Dir p =
     (let vol = volume p; rest = drop (length vol) p;
          dir = rev (dropWhile (\<lambda>c. \<not> is_sep c) (rev rest))
      in vol @ to_backslashes (path_Clean (to_slashes dir)))"

text \<open>
  \<open>absolute\<close> is \<^verbatim>\<open>filepath.Abs\<close> and \<open>stat\<close> tells of a path whether it is a directory, or the error. The error of
  the second look is a variable of its own: what is returned is the error of the first.
\<close>

definition exePath :: "(string \<Rightarrow> string + string) \<Rightarrow> (string \<Rightarrow> string + bool) \<Rightarrow> string \<Rightarrow> string + string" where
  "exePath absolute stat prog = (case absolute prog of
       Inl e \<Rightarrow> Inl e
     | Inr p \<Rightarrow>
         if stat p = Inr False then Inr p
         else let err = (case stat p of Inl e \<Rightarrow> e | Inr _ \<Rightarrow> Sprintf ''%s is directory'' [AStr p])
              in if filepath_Ext p = [] \<and> stat (p @ ''.exe'') = Inr False then Inr (p @ ''.exe'') else Inl err)"

section \<open>Installing and removing\<close>

definition installService :: "'m scm \<Rightarrow> string + string \<Rightarrow> string \<Rightarrow> string \<Rightarrow> 'm scm_run \<Rightarrow> 'm scm_run \<times> string option" where
  "installService ask exe name desc s = (case exe of
       Inl err \<Rightarrow> (s, Some err)
     | Inr exepath \<Rightarrow>
        (case do_call ask Connect s of
           (s1, Some err) \<Rightarrow> (s1, Some err)
         | (s1, None) \<Rightarrow>
            (case do_call ask (OpenService name) s1 of
               (s2, None) \<Rightarrow> (just ask Disconnect (just ask (CloseService name) s2), Some (Sprintf ''service %s already exists'' [AStr name]))
             | (s2, Some _) \<Rightarrow>
                (case do_call ask (CreateService name exepath desc [''-workdir'', filepath_Dir exepath]) s2 of
                   (s3, Some err) \<Rightarrow> (just ask Disconnect s3, Some err)
                 | (s3, None) \<Rightarrow>
                    (case do_call ask (InstallEvents name) s3 of
                       (s4, Some err) \<Rightarrow>
                         (just ask Disconnect (just ask (CloseService name) (just ask (DeleteService name) s4)),
                          Some (Sprintf ''SetupEventLogSource() failed: %s'' [AStr err]))
                     | (s4, None) \<Rightarrow> (just ask Disconnect (just ask (CloseService name) s4), None))))))"

definition removeService :: "'m scm \<Rightarrow> string \<Rightarrow> 'm scm_run \<Rightarrow> 'm scm_run \<times> string option" where
  "removeService ask name s =
     (case do_call ask Connect s of
        (s1, Some err) \<Rightarrow> (s1, Some err)
      | (s1, None) \<Rightarrow>
         (case do_call ask (OpenService name) s1 of
            (s2, Some _) \<Rightarrow> (just ask Disconnect s2, Some (Sprintf ''service %s is not installed'' [AStr name]))
          | (s2, None) \<Rightarrow>
             (case do_call ask (DeleteService name) s2 of
                (s3, Some err) \<Rightarrow> (just ask Disconnect (just ask (CloseService name) s3), Some err)
              | (s3, None) \<Rightarrow>
                 (case do_call ask (RemoveEvents name) s3 of
                    (s4, Some err) \<Rightarrow> (just ask Disconnect (just ask (CloseService name) s4),
                       Some (Sprintf ''RemoveEventLogSource() failed: %s'' [AStr err]))
                  | (s4, None) \<Rightarrow> (just ask Disconnect (just ask (CloseService name) s4), None)))))"

section \<open>Handles\<close>

text \<open>
  What is open: the connection, and a service with its name. A call that needs a handle which is not open, or
  opens a second one, is a fault, \<open>None\<close>.
\<close>

type_synonym handles = "bool \<times> string option"

fun use_handles :: "scm_call \<times> bool \<Rightarrow> handles \<Rightarrow> handles option" where
  "use_handles (Connect, ok) h = (if h = (False, None) then Some (ok, None) else None)"
| "use_handles (Disconnect, ok) h = (if h = (True, None) then Some (False, None) else None)"
| "use_handles (OpenService n, ok) h = (if h = (True, None) then Some (True, if ok then Some n else None) else None)"
| "use_handles (CreateService n x d as, ok) h = (if h = (True, None) then Some (True, if ok then Some n else None) else None)"
| "use_handles (CloseService n, ok) h = (if h = (True, Some n) then Some (True, None) else None)"
| "use_handles (DeleteService n, ok) h = (if h = (True, Some n) then Some h else None)"
| "use_handles (InstallEvents n, ok) h = Some h"
| "use_handles (RemoveEvents n, ok) h = Some h"

fun all_handles :: "(scm_call \<times> bool) list \<Rightarrow> handles \<Rightarrow> handles option" where
  "all_handles [] h = Some h"
| "all_handles (c # cs) h = Option.bind (use_handles c h) (all_handles cs)"

lemma all_handles_snoc: "all_handles (cs @ [c]) h = Option.bind (all_handles cs h) (use_handles c)"
  by (induction cs arbitrary: h) (auto simp: Option.bind_assoc split: Option.bind_splits)

text \<open>
  C12. Whatever the service manager answers, installing and removing use no handle before it is opened or after
  it is closed, and when they return, with or without an error, every handle they opened is closed.
\<close>

theorem handles_closed:
  "all_handles (snd (fst (installService ask exe name desc (m, [])))) (False, None) = Some (False, None) \<and>
   all_handles (snd (fst (removeService ask name (m, [])))) (False, None) = Some (False, None)"
  by (auto simp: installService_def removeService_def just_def do_call_def split: sum.splits prod.splits option.splits)

section \<open>What is installed\<close>

text \<open>
  The service manager as it is documented: the services installed, with program, display name and
  arguments, and the event sources. A name is taken at most once; a deleted service is gone once its
  handle is closed, which here is the time of the deletion; nothing is refused for another reason.
\<close>

type_synonym service = "string \<times> string \<times> string list"

locale service_manager =
  fixes ask :: "'m scm" and services :: "'m \<Rightarrow> string \<rightharpoonup> service" and sources :: "'m \<Rightarrow> string set"
  assumes connect: "snd (ask Connect m) = None" "services (fst (ask Connect m)) = services m" "sources (fst (ask Connect m)) = sources m"
    and hang_up: "services (fst (ask Disconnect m)) = services m" "sources (fst (ask Disconnect m)) = sources m"
    and close: "services (fst (ask (CloseService n) m)) = services m" "sources (fst (ask (CloseService n) m)) = sources m"
    and open_service: "snd (ask (OpenService n) m) = None \<longleftrightarrow> services m n \<noteq> None"
      "services (fst (ask (OpenService n) m)) = services m" "sources (fst (ask (OpenService n) m)) = sources m"
    and create: "snd (ask (CreateService n x d as) m) = None \<longleftrightarrow> services m n = None"
      "services (fst (ask (CreateService n x d as) m)) = (if services m n = None then (services m)(n \<mapsto> (x, d, as)) else services m)"
      "sources (fst (ask (CreateService n x d as) m)) = sources m"
    and delete: "services m n \<noteq> None \<Longrightarrow> snd (ask (DeleteService n) m) = None"
      "services (fst (ask (DeleteService n) m)) = (services m)(n := None)" "sources (fst (ask (DeleteService n) m)) = sources m"
    and add_source: "snd (ask (InstallEvents n) m) = None \<longleftrightarrow> n \<notin> sources m"
      "sources (fst (ask (InstallEvents n) m)) = insert n (sources m)" "services (fst (ask (InstallEvents n) m)) = services m"
    and drop_source: "snd (ask (RemoveEvents n) m) = None \<longleftrightarrow> n \<in> sources m"
      "sources (fst (ask (RemoveEvents n) m)) = sources m - {n}" "services (fst (ask (RemoveEvents n) m)) = services m"
begin

lemma done_call:
  assumes "do_call ask c s = (s', e)"
  shows "e = snd (ask c (fst s))" "services (fst s') = services (fst (ask c (fst s)))" "sources (fst s') = sources (fst (ask c (fst s)))"
  using assms by (auto simp: do_call_def split: prod.splits)

lemma just_laws:
  "services (fst (just ask Disconnect s)) = services (fst s)" "sources (fst (just ask Disconnect s)) = sources (fst s)"
  "services (fst (just ask (CloseService n) s)) = services (fst s)" "sources (fst (just ask (CloseService n) s)) = sources (fst s)"
  "services (fst (just ask (DeleteService n) s)) = (services (fst s))(n := None)" "sources (fst (just ask (DeleteService n) s)) = sources (fst s)"
  by (auto simp: just_def do_call_def hang_up close delete split: prod.splits dest: arg_cong [where f = fst])
     (metis fst_conv hang_up close delete)+

lemma install:
  assumes "installService ask (Inr x) name desc s = (s', r)"
  shows "(r = None \<longleftrightarrow> services (fst s) name = None \<and> name \<notin> sources (fst s)) \<and>
    services (fst s') = (if r = None then (services (fst s))(name \<mapsto> (x, desc, [''-workdir'', filepath_Dir x])) else services (fst s)) \<and>
    sources (fst s') = (if r = None then insert name (sources (fst s)) else sources (fst s))"
proof -
  let ?c = "CreateService name x desc [''-workdir'', filepath_Dir x]"
  obtain s1 e1 where c1: "do_call ask Connect s = (s1, e1)" by fastforce
  note 1 = done_call [OF c1, unfolded connect]
  obtain s2 e2 where c2: "do_call ask (OpenService name) s1 = (s2, e2)" by fastforce
  have 2: "services (fst s) name = None \<longleftrightarrow> e2 \<noteq> None" "services (fst s2) = services (fst s)" "sources (fst s2) = sources (fst s)"
    using done_call(1) [OF c2] open_service(1) [of name "fst s1"] 1(2) done_call(2,3) [OF c2] open_service(2,3) 1(3) by metis+
  show ?thesis
  proof (cases e2)
    case None
    then show ?thesis using assms c1 c2 1 2 by (auto simp: installService_def just_laws)
  next
    case (Some err)
    then have free: "services (fst s) name = None" using 2(1) by simp
    obtain s3 e3 where c3: "do_call ask ?c s2 = (s3, e3)" by fastforce
    have 3: "e3 = None" "services (fst s3) = (services (fst s))(name \<mapsto> (x, desc, [''-workdir'', filepath_Dir x]))" "sources (fst s3) = sources (fst s)"
      using done_call [OF c3] create [of name _ _ _ "fst s2"] 2 free by auto
    obtain s4 e4 where c4: "do_call ask (InstallEvents name) s3 = (s4, e4)" by fastforce
    have 4: "e4 = None \<longleftrightarrow> name \<notin> sources (fst s)" "services (fst s4) = services (fst s3)" "sources (fst s4) = insert name (sources (fst s))"
      using done_call [OF c4] add_source 3 by simp_all
    have undo: "(services (fst s))(name := None) = services (fst s)" using free by auto
    show ?thesis
    proof (cases e4)
      case None
      then show ?thesis using assms c1 c2 c3 c4 1 3 4 Some free by (auto simp: installService_def just_laws)
    next
      case (Some err')
      then have "insert name (sources (fst s)) = sources (fst s)" using 4(1) by auto
      then show ?thesis using assms c1 c2 c3 c4 1 3 4 \<open>e2 = Some err\<close> Some undo by (auto simp: installService_def just_laws)
    qed
  qed
qed

lemma remove:
  assumes "removeService ask name s = (s', r)"
  shows "(r = None \<longleftrightarrow> services (fst s) name \<noteq> None \<and> name \<in> sources (fst s)) \<and>
    services (fst s') = (services (fst s))(name := None) \<and>
    sources (fst s') = (if services (fst s) name = None then sources (fst s) else sources (fst s) - {name})"
proof -
  obtain s1 e1 where c1: "do_call ask Connect s = (s1, e1)" by fastforce
  note 1 = done_call [OF c1, unfolded connect]
  obtain s2 e2 where c2: "do_call ask (OpenService name) s1 = (s2, e2)" by fastforce
  have 2: "services (fst s) name = None \<longleftrightarrow> e2 \<noteq> None" "services (fst s2) = services (fst s)" "sources (fst s2) = sources (fst s)"
    using done_call(1) [OF c2] open_service(1) [of name "fst s1"] 1(2) done_call(2,3) [OF c2] open_service(2,3) 1(3) by metis+
  show ?thesis
  proof (cases e2)
    case (Some err)
    then have "(services (fst s))(name := None) = services (fst s)" using 2(1) by auto
    then show ?thesis using assms c1 c2 1 2 Some by (auto simp: removeService_def just_laws)
  next
    case None
    obtain s3 e3 where c3: "do_call ask (DeleteService name) s2 = (s3, e3)" by fastforce
    have 3: "e3 = None" "services (fst s3) = (services (fst s))(name := None)" "sources (fst s3) = sources (fst s)"
      using done_call [OF c3] delete(1) [of "fst s2" name] delete(2,3) 2 None by auto
    obtain s4 e4 where c4: "do_call ask (RemoveEvents name) s3 = (s4, e4)" by fastforce
    have 4: "e4 = None \<longleftrightarrow> name \<in> sources (fst s)" "services (fst s4) = services (fst s3)" "sources (fst s4) = sources (fst s) - {name}"
      using done_call [OF c4] drop_source 3 by simp_all
    show ?thesis using assms c1 c2 c3 c4 1 2 3 4 None by (cases e4) (auto simp: removeService_def just_laws)
  qed
qed

end

text \<open>A machine: its services and its event sources.\<close>

fun machine :: "((string \<times> service) list \<times> string list) scm" where
  "machine (OpenService n) (ss, es) = ((ss, es), if map_of ss n = None then Some ''not found'' else None)"
| "machine (CreateService n x d as) (ss, es) =
     (if map_of ss n = None then (((n, (x, d, as)) # ss, es), None) else ((ss, es), Some ''exists''))"
| "machine (DeleteService n) (ss, es) = ((filter (\<lambda>s. fst s \<noteq> n) ss, es), None)"
| "machine (InstallEvents n) (ss, es) = ((ss, n # es), if n \<in> set es then Some ''exists'' else None)"
| "machine (RemoveEvents n) (ss, es) = ((ss, removeAll n es), if n \<in> set es then None else Some ''not found'')"
| "machine c m = (m, None)"

interpretation machine: service_manager machine "\<lambda>m. map_of (fst m)" "\<lambda>m. set (snd m)"
proof unfold_locales
  fix n and m :: "(string \<times> service) list \<times> string list"
  show "map_of (fst (fst (machine (DeleteService n) m))) = (map_of (fst m))(n := None)"
  proof -
    have "map_of (filter (\<lambda>s. fst s \<noteq> n) ss) = (map_of ss)(n := None)" for ss :: "(string \<times> service) list"
      by (induction ss) (auto simp: fun_eq_iff)
    then show ?thesis by (cases m) simp
  qed
qed (case_tac m; auto)+

text \<open>
  C10. Installing is all or nothing: it succeeds exactly when the program was found and neither a service nor an
  event source of the name was there; then both are there, the service with the program's path and the
  directory of it as working directory, and otherwise nothing has changed. Removing takes the
  service away whenever it is there, also when it fails for want of the event source.
\<close>

theorem install_atomic:
  assumes "service_manager ask services sources"
    and "installService ask exe name desc s = (s1, r1)" and "removeService ask name s = (s2, r2)"
  shows "(r1 = None \<longleftrightarrow> (\<exists>x. exe = Inr x) \<and> services (fst s) name = None \<and> name \<notin> sources (fst s)) \<and>
    (r1 \<noteq> None \<longrightarrow> services (fst s1) = services (fst s) \<and> sources (fst s1) = sources (fst s)) \<and>
    (\<forall>x. r1 = None \<and> exe = Inr x \<longrightarrow>
      services (fst s1) = (services (fst s))(name \<mapsto> (x, desc, [''-workdir'', filepath_Dir x])) \<and> sources (fst s1) = insert name (sources (fst s))) \<and>
    services (fst s2) = (services (fst s))(name := None) \<and>
    (r2 = None \<longleftrightarrow> services (fst s) name \<noteq> None \<and> name \<in> sources (fst s))"
proof (cases exe)
  case (Inl err)
  then show ?thesis using service_manager.remove [OF assms(1,3)] assms(2) by (auto simp: installService_def)
next
  case (Inr x)
  then show ?thesis using service_manager.install [OF assms(1) assms(2) [unfolded Inr]] service_manager.remove [OF assms(1,3)] by auto
qed

lemma install_atomic_witness:
  "snd (installService machine (Inr ''C:'') ''s'' ''d'' (([], []), [])) = None \<and>
   snd (installService machine (Inr ''C:'') ''s'' ''d'' (([], [''s'']), [])) \<noteq> None"
proof -
  have r: "snd (installService machine (Inr ''C:'') ''s'' ''d'' ((ss, es), [])) = None \<longleftrightarrow> map_of ss ''s'' = None \<and> ''s'' \<notin> set es" for ss es
    using install_atomic [OF machine.service_manager_axioms, of "Inr ''C:''" "''s''" "''d''" "((ss, es), [])"]
    by (metis fst_conv prod.collapse snd_conv)
  show ?thesis unfolding r by simp
qed

section \<open>What exePath finds\<close>

text \<open>
  \<^verbatim>\<open>exePath\<close> gives a path exactly when the program's absolute path, or for one without extension the same
  with \<^verbatim>\<open>.exe\<close>, is there and no directory, and the first of them; it is what the look at it found to be
  a file. Otherwise the error is about the path without \<^verbatim>\<open>.exe\<close>, also when only the other look failed for a reason.
\<close>

theorem exePath_finds:
  "(exePath absolute stat prog = Inr x \<longleftrightarrow>
      (\<exists>p. absolute prog = Inr p \<and>
        (x = p \<and> stat p = Inr False \<or>
         x = p @ ''.exe'' \<and> stat p \<noteq> Inr False \<and> filepath_Ext p = [] \<and> stat x = Inr False))) \<and>
   (exePath absolute stat prog = Inl e \<longleftrightarrow>
      absolute prog = Inl e \<or>
      (\<exists>p. absolute prog = Inr p \<and> (filepath_Ext p = [] \<longrightarrow> stat (p @ ''.exe'') \<noteq> Inr False) \<and>
        (stat p = Inl e \<or> stat p = Inr True \<and> e = p @ '' is directory'')))"
proof -
  have d: "Sprintf ''%s is directory'' [AStr p] = p @ '' is directory''" for p by (simp add: Sprintf_def fmt_arg_verb_def is_digit_def fmt_extra_def)
  show ?thesis by (auto simp: exePath_def d split: sum.splits)
qed

end
