(* ===== verification/Start.thy ===== *)
theory Start imports Service Install DataRoutes begin

text \<open>
  How the process starts: the command line (\<^verbatim>\<open>main.go\<close>, with Go's \<^verbatim>\<open>flag\<close> package), and what becomes of the
  arguments \<^verbatim>\<open>install.go\<close> registers the service with.
\<close>

section \<open>Flags\<close>

text \<open>A flag: its name, whether it stands alone, and what setting it to a text does.\<close>

type_synonym 'c flag = "string \<times> bool \<times> (string \<Rightarrow> 'c \<Rightarrow> 'c option)"

definition ParseBool :: "string \<Rightarrow> bool option" where
  "ParseBool s =
     (if s \<in> {''1'', ''t'', ''T'', ''true'', ''TRUE'', ''True''} then Some True
      else if s \<in> {''0'', ''f'', ''F'', ''false'', ''FALSE'', ''False''} then Some False
      else None)"

definition split_value :: "string \<Rightarrow> string \<times> string option" where
  "split_value name =
     (let n = takeWhile (\<lambda>c. c \<noteq> CHR ''='') name
      in (n, if n = name then None else Some (drop (length n + 1) name)))"

text \<open>
  \<^verbatim>\<open>flag.Parse\<close>, which ends the process when it fails: \<open>Inl\<close> is the exit code. Otherwise the values set, and
  the arguments after the flags.
\<close>

fun flag_Parse :: "'c flag list \<Rightarrow> string list \<Rightarrow> 'c \<Rightarrow> int + 'c \<times> string list" where
  "flag_Parse F [] c = Inr (c, [])"
| "flag_Parse F (s # args) c =
     (if length s < 2 \<or> hd s \<noteq> CHR ''-'' then Inr (c, s # args)
      else if s = ''--'' then Inr (c, args)
      else let name0 = (if s ! 1 = CHR ''-'' then drop 2 s else drop 1 s) in
        if name0 = [] \<or> hd name0 = CHR ''-'' \<or> hd name0 = CHR ''='' then Inl 2
        else let (name, val) = split_value name0 in
          case map_of F name of
            None \<Rightarrow> Inl (if name = ''help'' \<or> name = ''h'' then 0 else 2)
          | Some (True, assign) \<Rightarrow>
              (case assign (case val of Some v \<Rightarrow> v | None \<Rightarrow> ''true'') c of None \<Rightarrow> Inl 2 | Some c' \<Rightarrow> flag_Parse F args c')
          | Some (False, assign) \<Rightarrow>
              (case val of
                 Some v \<Rightarrow> (case assign v c of None \<Rightarrow> Inl 2 | Some c' \<Rightarrow> flag_Parse F args c')
               | None \<Rightarrow>
                   (case args of
                      [] \<Rightarrow> Inl 2
                    | v # args' \<Rightarrow> (case assign v c of None \<Rightarrow> Inl 2 | Some c' \<Rightarrow> flag_Parse F args' c'))))"

definition main_flags :: "Context flag list" where
  "main_flags =
    [(''cmd'', False, \<lambda>v c. Some (c\<lparr>Cmd := v\<rparr>)),
     (''workdir'', False, \<lambda>v c. Some (c\<lparr>Wdir := v\<rparr>)),
     (''trace'', True, \<lambda>v c. map_option (\<lambda>b. c\<lparr>Trace := b\<rparr>) (ParseBool v)),
     (''traceopc'', True, \<lambda>v c. map_option (\<lambda>b. c\<lparr>TraceOpc := b\<rparr>) (ParseBool v)),
     (''v'', True, \<lambda>v c. map_option (\<lambda>b. c\<lparr>ShowVersion := b\<rparr>) (ParseBool v))]"

definition default_context :: Context where
  "default_context = \<lparr>Cmd = ''debug'', Wdir = ''.'', Trace = False, TraceOpc = False, ShowVersion = False\<rparr>"


section \<open>Writing and reading the command line\<close>

text \<open>A command line for a context, with each value after its flag or in it.\<close>

definition flag_text :: "bool \<Rightarrow> string \<Rightarrow> string \<Rightarrow> string list" where
  "flag_text joined name v = (if joined then [''-'' @ name @ ''='' @ v] else [''-'' @ name, v])"

definition bool_text :: "bool \<Rightarrow> string" where
  "bool_text b = (if b then ''true'' else ''false'')"

definition command_line :: "bool \<Rightarrow> Context \<Rightarrow> string list" where
  "command_line joined ctx = flag_text joined ''cmd'' (Cmd ctx) @ flag_text joined ''workdir'' (Wdir ctx) @
     [''-trace='' @ bool_text (Trace ctx), ''-traceopc='' @ bool_text (TraceOpc ctx), ''-v='' @ bool_text (ShowVersion ctx)]"

lemma split_plain: "CHR ''='' \<notin> set name \<Longrightarrow> split_value name = (name, None)"
  by (auto simp: split_value_def Let_def takeWhile_eq_all_conv)

lemma split_joined: "CHR ''='' \<notin> set name \<Longrightarrow> split_value (name @ CHR ''='' # v) = (name, Some v)"
  by (simp add: split_value_def Let_def takeWhile_append)

lemma ParseBool_text [simp]: "ParseBool (bool_text b) = Some b"
  by (simp add: ParseBool_def bool_text_def)

lemma parse_flag:
  assumes "map_of F (n # ns) = Some (False, assign)" and "n \<noteq> CHR ''-''" and "CHR ''='' \<notin> set (n # ns)"
  shows "flag_Parse F (flag_text joined (n # ns) v @ args) c = (case assign v c of None \<Rightarrow> Inl 2 | Some c' \<Rightarrow> flag_Parse F args c')"
  using assms split_plain [of "n # ns"] split_joined [of "n # ns" v] by (auto simp: flag_text_def split: option.splits)

lemma parse_switch:
  assumes "map_of F (n # ns) = Some (True, assign)" and "n \<noteq> CHR ''-''" and "CHR ''='' \<notin> set (n # ns)"
  shows "flag_Parse F ((''-'' @ (n # ns) @ ''='' @ v) # args) c = (case assign v c of None \<Rightarrow> Inl 2 | Some c' \<Rightarrow> flag_Parse F args c')"
  using assms split_joined [of "n # ns" v] by (auto split: option.splits)

lemma main_lookup:
  "map_of main_flags ''cmd'' = Some (False, \<lambda>v c. Some (c\<lparr>Cmd := v\<rparr>))"
  "map_of main_flags ''workdir'' = Some (False, \<lambda>v c. Some (c\<lparr>Wdir := v\<rparr>))"
  "map_of main_flags ''trace'' = Some (True, \<lambda>v c. map_option (\<lambda>b. c\<lparr>Trace := b\<rparr>) (ParseBool v))"
  "map_of main_flags ''traceopc'' = Some (True, \<lambda>v c. map_option (\<lambda>b. c\<lparr>TraceOpc := b\<rparr>) (ParseBool v))"
  "map_of main_flags ''v'' = Some (True, \<lambda>v c. map_option (\<lambda>b. c\<lparr>ShowVersion := b\<rparr>) (ParseBool v))"
  by (simp_all add: main_flags_def)

lemma main_flag:
  "flag_Parse main_flags (flag_text joined ''cmd'' v @ args) c = flag_Parse main_flags args (c\<lparr>Cmd := v\<rparr>)"
  "flag_Parse main_flags (flag_text joined ''workdir'' v @ args) c = flag_Parse main_flags args (c\<lparr>Wdir := v\<rparr>)"
  using parse_flag [OF main_lookup(1), of joined v args c] parse_flag [OF main_lookup(2), of joined v args c] by simp_all

lemma main_switch:
  "flag_Parse main_flags ((''-trace='' @ bool_text b) # args) c = flag_Parse main_flags args (c\<lparr>Trace := b\<rparr>)"
  "flag_Parse main_flags ((''-traceopc='' @ bool_text b) # args) c = flag_Parse main_flags args (c\<lparr>TraceOpc := b\<rparr>)"
  "flag_Parse main_flags ((''-v='' @ bool_text b) # args) c = flag_Parse main_flags args (c\<lparr>ShowVersion := b\<rparr>)"
  using parse_switch [OF main_lookup(3), of "bool_text b" args c] parse_switch [OF main_lookup(4), of "bool_text b" args c]
    parse_switch [OF main_lookup(5), of "bool_text b" args c]
  by (simp_all del: flag_Parse.simps)

text \<open>
  C40. Every context has command lines that \<^verbatim>\<open>main\<close> reads back to it, whatever its texts are, with the values after
  the flags or joined to them; a flag that is not there leaves its default.
\<close>

theorem flags_roundtrip:
  "flag_Parse main_flags (command_line joined ctx) default_context = Inr (ctx, []) \<and>
   flag_Parse main_flags [] default_context = Inr (default_context, [])"
proof -
  have "flag_Parse main_flags (command_line joined ctx) c = Inr (ctx, [])" for c
    unfolding command_line_def by (simp only: main_flag main_switch flag_Parse.simps(1)) simp
  then show ?thesis by simp
qed

section \<open>The installed service\<close>



end
