(* ===== verification/Spec2Isabelle.thy ===== *)
theory Spec2Isabelle
  imports TransferStart CacheRetention CacheHistory DataPath Logger GroupRouteTheorems Servers DataRoutes WebTheorems Start
begin

text \<open>
  \<^bold>\<open>The program.\<close> dd-opcda collects values from local OPC DA servers and sends them, in JSON messages of ten
  values over UDP, through a data diode; it keeps the messages of the last days in a cache of gzip
  files, sends files from a directory through the same diode, and has a web interface for all of it.
  Its parts are goroutines that share the database, the file system and a few package variables:

  \<^item> \<^verbatim>\<open>main.go\<close>, \<^verbatim>\<open>service_win.go\<close>, \<^verbatim>\<open>install.go\<close>: the process, by hand or as a Windows service, which it can
    install; it starts the engine;
  \<^item> \<^verbatim>\<open>db/db.go\<close>, \<^verbatim>\<open>types/\<close>: the database and the registry of the types stored in it;
  \<^item> \<^verbatim>\<open>engine/groups.go\<close>: one collector per running group of tags; a message goes to the channel of the first
    proxy (\<^verbatim>\<open>engine/diodeproxy.go\<close>) and over an unbuffered channel to the cache (\<^verbatim>\<open>engine/cache.go\<close>);
  \<^item> \<^verbatim>\<open>engine/cache.go\<close>: writes and rotates the cache file, prunes old files, indexes them, and copies them on
    request to \<^verbatim>\<open>outgoing/new\<close>, where \<^verbatim>\<open>engine/filetransfer.go\<close> picks up whatever is put there;
  \<^item> \<^verbatim>\<open>engine/server.go\<close>, \<^verbatim>\<open>routes/\<close>, \<^verbatim>\<open>web/server.go\<close>: browsing the servers and the handlers of the web interface;
  \<^item> \<^verbatim>\<open>logger/\<close>: the log table and the websocket subscribers, used by all of them.

  \<^bold>\<open>The theories\<close>, each for a part of the code, with the state and the operations named as in the code:

  \<^item> \<^theory_text>\<open>Prelude\<close>: the outcome of a Go call (a value, a panic, the end of the process, or a call that does not
    come back), bytes, events, and the interface \<open>kv_store\<close>, interpreted on the file system and the
    type registry. \<^theory_text>\<open>GoFmt\<close>, \<^theory_text>\<open>GoTime\<close>, \<^theory_text>\<open>GoPath\<close>, \<^theory_text>\<open>FileSys\<close>, \<^theory_text>\<open>Sha256\<close>: the parts of Go's library the
    program uses. \<^theory_text>\<open>Types\<close>: package \<^verbatim>\<open>types\<close>. \<^theory_text>\<open>Gorm\<close>, \<^theory_text>\<open>Rows\<close>: a database table as a parameter, its documented
    behaviour as the locale \<open>gorm_reliable\<close>, interpreted on a concrete table for every kind of row.
  \<^item> \<^theory_text>\<open>FileTransfer\<close> (\<^verbatim>\<open>filetransfer.go\<close>); \<^theory_text>\<open>Packets\<close>: what a receiver reads from the packets; \<^theory_text>\<open>TransferPass\<close>:
    the specification \<open>moved\<close>, \<open>transmitted\<close> of a pass over \<^verbatim>\<open>new\<close> and its proof; \<^theory_text>\<open>TransferTheorems\<close>: the
    properties, with refused calls, failed reads and lost packets; \<^theory_text>\<open>TransferMonitor\<close>: pass after pass, and that each ends; \<^theory_text>\<open>Settings\<close> (\<^verbatim>\<open>settings.go\<close>), \<^theory_text>\<open>Proxy\<close> (\<^verbatim>\<open>diodeproxy.go\<close>), \<^theory_text>\<open>TransferStart\<close>: the start of the monitor.
  \<^item> \<^theory_text>\<open>Cache\<close> (\<^verbatim>\<open>cache.go\<close>); \<^theory_text>\<open>CacheTheorems\<close>: names, times and index; \<^theory_text>\<open>CacheText\<close>: the abstract writer, a list of
    segments of messages, and that every operation keeps the tie to it; what the two writers above the file let
    through with each write is the parameter \<open>coder\<close>; \<^theory_text>\<open>CacheRetention\<close>: pruning;
    \<^theory_text>\<open>CacheCopy\<close>: copies to the outgoing directory; \<^theory_text>\<open>CacheHistory\<close>: cache and transfer together.
  \<^item> \<^theory_text>\<open>Collector\<close>: the reading loop of a collector with the message it shares with the cache; \<^theory_text>\<open>OpcGroups\<close>:
    the rest of \<^verbatim>\<open>groups.go\<close>; \<^theory_text>\<open>GroupTheorems\<close>: starting and stopping groups, the meta data; \<^theory_text>\<open>DataPath\<close>:
    collector and cache together, from the values read to the bytes of the cache files.
  \<^item> \<^theory_text>\<open>Logger\<close>, \<^theory_text>\<open>Websockets\<close> (\<^verbatim>\<open>logger/\<close>); \<^theory_text>\<open>Servers\<close> (\<^verbatim>\<open>server.go\<close> and \<^verbatim>\<open>/opc/server\<close>); \<^theory_text>\<open>GroupRoutes\<close>,
    \<^theory_text>\<open>GroupRouteTheorems\<close> (\<^verbatim>\<open>/opc/group\<close>, \<^verbatim>\<open>/opc/tag\<close>); \<^theory_text>\<open>UserRoutes\<close> (\<^verbatim>\<open>/user\<close>, \<^verbatim>\<open>/auth\<close>); \<^theory_text>\<open>DataRoutes\<close>
    (\<^verbatim>\<open>registry.go\<close>, \<^verbatim>\<open>db.go\<close>, \<^verbatim>\<open>/data\<close>); \<^theory_text>\<open>SystemRoutes\<close> (\<^verbatim>\<open>/system\<close>, \<^verbatim>\<open>/filetransfer\<close>).
  \<^item> \<^theory_text>\<open>Web\<close> (\<^verbatim>\<open>web/server.go\<close> and the tables of routes): the stack of layers and routes, served by the web library,
    the locale \<open>fiber\<close>; \<^theory_text>\<open>WebTheorems\<close>: what a request without a token can do, its effect on the log
    included, and that the order of the routes does not matter. \<^theory_text>\<open>Service\<close> (\<^verbatim>\<open>service_win.go\<close>, \<^verbatim>\<open>main.go\<close>); \<^theory_text>\<open>Install\<close> (\<^verbatim>\<open>install.go\<close>), with the
    service manager as the locale \<open>service_manager\<close>; \<^theory_text>\<open>Start\<close>: the command line, and the start of an installed service and
    its database. No code changes the current directory: paths of the cache stay relative to it, those of the
    transfer and the database are below \<^verbatim>\<open>-workdir\<close>.

  \<^bold>\<open>Bounds and fuel.\<close> Only \<open>processDirectory\<close> has fuel: it counts the levels of directories, and the pass
  theorems ask for more of it than \<^verbatim>\<open>new\<close> is deep, after which it is never used up. \<open>meta_batches\<close> is a
  \<^theory_text>\<open>partial_function\<close> and proved to give a result; the other loops are functions with a measure. Packet
  counters are \<^verbatim>\<open>uint32\<close>, message numbers, the counters of groups and the retention 64-bit, with their
  wrap-around; keys of rows are natural numbers, which stand for a \<^verbatim>\<open>uint\<close>.

  \<^bold>\<open>Not modelled.\<close> The browser client \<^verbatim>\<open>src/ui\<close>, in another language. The libraries: the database, the OPC
  client, JSON and gzip coding, signing and checking tokens, the web server's reading and matching of
  requests, UDP, the Windows service manager; each is a parameter of the definitions that call it, and what a
  property needs of it is a named hypothesis or locale. Interleavings of goroutines at the level of single
  statements: where two of them share something that matters (the points of a message between collector and
  cache, the cursor of a server, the row of a group, the outgoing directory between two passes) the order
  of the steps is explicit in the model. \<^verbatim>\<open>metaSender\<close> is modelled, though the line that would start it is
  commented out. Structures that no code uses (the configuration types of \<^verbatim>\<open>main.go\<close>, \<^verbatim>\<open>FileTransferConfig\<close>,
  \<^verbatim>\<open>UserPasswordUpdate\<close>).
\<close>

end
